(* ===== verification/Climate_Prelude.thy ===== *)
theory Climate_Prelude
  imports Main "HOL-Library.Word" "HOL-Library.Monad_Syntax"
begin

text \<open>
  What every component of the model shares: the error values of \<open>anyhow\<close>, the
  \<open>Result\<close> combinators, the functions of Rust's \<open>str\<close>, \<open>char\<close> and integer parsing
  that the sources call, decimal printing, and the generic lemmas about them.
  A Rust string is a \<open>string\<close>, one \<open>char\<close> per byte of its UTF-8 encoding.
\<close>

unbundle bit_operations_syntax

section \<open>Errors and results\<close>

text \<open>
  \<open>bail!\<close> is \<open>Bail\<close> with the formatted message, \<open>context\<close> and \<open>with_context\<close> wrap an
  error in \<open>Context\<close>. \<open>Io\<close> is an error the operating system returned, and
  \<open>Ext\<close> an error of a library the sources only call.
\<close>

datatype error = Bail string | Context string error | Io string | Ext string

type_synonym 'a res = "error + 'a"

text \<open>The chain of messages, as \<open>{err:#}\<close> prints it.\<close>

fun error_str :: "error \<Rightarrow> string" where
  "error_str (Bail m) = m"
| "error_str (Context m e) = m @ '': '' @ error_str e"
| "error_str (Io m) = m"
| "error_str (Ext m) = m"

definition and_then :: "'a res \<Rightarrow> ('a \<Rightarrow> 'b res) \<Rightarrow> 'b res" where
  "and_then r f = (case r of Inl e \<Rightarrow> Inl e | Inr x \<Rightarrow> f x)"

definition with_context :: "string \<Rightarrow> 'a res \<Rightarrow> 'a res" where
  "with_context msg r = (case r of Inl e \<Rightarrow> Inl (Context msg e) | Inr x \<Rightarrow> Inr x)"

definition option_context :: "string \<Rightarrow> 'a option \<Rightarrow> 'a res" where
  "option_context msg r = (case r of None \<Rightarrow> Inl (Bail msg) | Some x \<Rightarrow> Inr x)"

lemma and_then_simps [simp]:
  "and_then (Inl e) f = Inl e"
  "and_then (Inr x) f = f x"
  by (simp_all add: and_then_def)

lemma and_then_Inr_iff:
  "and_then r f = Inr y \<longleftrightarrow> (\<exists>x. r = Inr x \<and> f x = Inr y)"
  by (cases r) auto

lemma with_context_simps [simp]:
  "with_context msg (Inl e) = Inl (Context msg e)"
  "with_context msg (Inr x) = Inr x"
  by (simp_all add: with_context_def)

lemma with_context_Inr_iff [simp]: "with_context msg r = Inr x \<longleftrightarrow> r = Inr x"
  by (cases r) auto

lemma option_context_simps [simp]:
  "option_context msg None = Inl (Bail msg)"
  "option_context msg (Some x) = Inr x"
  by (simp_all add: option_context_def)

lemma option_context_Inr_iff [simp]: "option_context msg r = Inr x \<longleftrightarrow> r = Some x"
  by (cases r) auto

text \<open>A loop that stops at the first error and collects the results in order.\<close>

fun map_res :: "('a \<Rightarrow> 'b res) \<Rightarrow> 'a list \<Rightarrow> 'b list res" where
  "map_res f [] = Inr []"
| "map_res f (x # xs) = and_then (f x) (\<lambda>y. and_then (map_res f xs) (\<lambda>ys. Inr (y # ys)))"

lemma map_res_Inr_iff:
  "map_res f xs = Inr ys \<longleftrightarrow> list_all2 (\<lambda>x y. f x = Inr y) xs ys"
  by (induction xs arbitrary: ys)
    (auto simp: and_then_Inr_iff list_all2_Cons1)

section \<open>Characters\<close>

definition is_ascii_digit :: "char \<Rightarrow> bool" where
  "is_ascii_digit c \<longleftrightarrow> 48 \<le> (of_char c :: nat) \<and> (of_char c :: nat) \<le> 57"

definition is_ascii_uppercase :: "char \<Rightarrow> bool" where
  "is_ascii_uppercase c \<longleftrightarrow> 65 \<le> (of_char c :: nat) \<and> (of_char c :: nat) \<le> 90"

definition is_ascii_lowercase :: "char \<Rightarrow> bool" where
  "is_ascii_lowercase c \<longleftrightarrow> 97 \<le> (of_char c :: nat) \<and> (of_char c :: nat) \<le> 122"

definition is_ascii_alphabetic :: "char \<Rightarrow> bool" where
  "is_ascii_alphabetic c \<longleftrightarrow> is_ascii_uppercase c \<or> is_ascii_lowercase c"

definition is_ascii_alphanumeric :: "char \<Rightarrow> bool" where
  "is_ascii_alphanumeric c \<longleftrightarrow> is_ascii_alphabetic c \<or> is_ascii_digit c"

definition to_ascii_lowercase :: "char \<Rightarrow> char" where
  "to_ascii_lowercase c = (if is_ascii_uppercase c then char_of ((of_char c :: nat) + 32) else c)"

text \<open>The ASCII part of \<open>char::is_whitespace\<close>; the texts it is applied to are \<open>/proc\<close> tables.\<close>

definition is_ws :: "char \<Rightarrow> bool" where
  "is_ws c \<longleftrightarrow> (of_char c :: nat) \<in> {9, 10, 11, 12, 13, 32}"

section \<open>Strings\<close>

definition newline :: char where "newline = CHR 0x0A"
definition quote :: char where "quote = CHR 0x27"

definition quoted :: "string \<Rightarrow> string" where
  "quoted s = quote # s @ [quote]"

definition starts_with :: "string \<Rightarrow> string \<Rightarrow> bool" where
  "starts_with pre s \<longleftrightarrow> take (length pre) s = pre"

definition ends_with :: "string \<Rightarrow> string \<Rightarrow> bool" where
  "ends_with suf s \<longleftrightarrow> length suf \<le> length s \<and> drop (length s - length suf) s = suf"

definition strip_prefix :: "string \<Rightarrow> string \<Rightarrow> string option" where
  "strip_prefix pre s = (if starts_with pre s then Some (drop (length pre) s) else None)"

fun str_contains :: "string \<Rightarrow> string \<Rightarrow> bool" where
  "str_contains pat [] \<longleftrightarrow> pat = []"
| "str_contains pat (c # s) \<longleftrightarrow> starts_with pat (c # s) \<or> str_contains pat s"

text \<open>\<open>str::split(c)\<close>: always at least one piece.\<close>

fun split_on :: "char \<Rightarrow> string \<Rightarrow> string list" where
  "split_on c [] = [[]]"
| "split_on c (x # xs) =
     (if x = c then [] # split_on c xs
      else (case split_on c xs of [] \<Rightarrow> [[x]] | p # ps \<Rightarrow> (x # p) # ps))"

fun join_on :: "string \<Rightarrow> string list \<Rightarrow> string" where
  "join_on sep [] = []"
| "join_on sep [x] = x"
| "join_on sep (x # y # zs) = x @ sep @ join_on sep (y # zs)"

fun split_once :: "char \<Rightarrow> string \<Rightarrow> (string \<times> string) option" where
  "split_once c [] = None"
| "split_once c (x # xs) =
     (if x = c then Some ([], xs)
      else (case split_once c xs of None \<Rightarrow> None | Some (a, b) \<Rightarrow> Some (x # a, b)))"

definition trim_end_matches :: "(char \<Rightarrow> bool) \<Rightarrow> string \<Rightarrow> string" where
  "trim_end_matches P s = rev (dropWhile P (rev s))"

definition trim :: "string \<Rightarrow> string" where
  "trim s = dropWhile is_ws (trim_end_matches is_ws s)"

fun split_whitespace_aux :: "string \<Rightarrow> string \<Rightarrow> string list" where
  "split_whitespace_aux acc [] = (if acc = [] then [] else [rev acc])"
| "split_whitespace_aux acc (c # cs) =
     (if is_ws c then (if acc = [] then split_whitespace_aux [] cs
                       else rev acc # split_whitespace_aux [] cs)
      else split_whitespace_aux (c # acc) cs)"

definition split_whitespace :: "string \<Rightarrow> string list" where
  "split_whitespace s = split_whitespace_aux [] s"

text \<open>\<open>str::lines\<close>: a final newline ends the last line, and a carriage return before a
  newline is dropped with it.\<close>

definition strip_cr :: "string \<Rightarrow> string" where
  "strip_cr l = (if l \<noteq> [] \<and> last l = CHR 0x0D then butlast l else l)"

fun lines_of :: "string list \<Rightarrow> string list" where
  "lines_of [] = []"
| "lines_of [l] = (if l = [] then [] else [l])"
| "lines_of (l # m # ms) = strip_cr l # lines_of (m # ms)"

definition lines :: "string \<Rightarrow> string list" where
  "lines s = lines_of (split_on newline s)"

definition get :: "nat \<Rightarrow> 'a list \<Rightarrow> 'a option" where
  "get i xs = (if i < length xs then Some (xs ! i) else None)"

fun filter_map :: "('a \<Rightarrow> 'b option) \<Rightarrow> 'a list \<Rightarrow> 'b list" where
  "filter_map f [] = []"
| "filter_map f (x # xs) = (case f x of None \<Rightarrow> filter_map f xs | Some y \<Rightarrow> y # filter_map f xs)"

lemma set_filter_map: "set (filter_map f xs) = {y. \<exists>x \<in> set xs. f x = Some y}"
  by (induction xs) (auto split: option.splits)

lemma filter_map_append [simp]: "filter_map f (xs @ ys) = filter_map f xs @ filter_map f ys"
  by (induction xs) (auto split: option.splits)

section \<open>Lemmas on strings\<close>

lemma starts_with_append [simp]: "starts_with pre (pre @ s)"
  by (simp add: starts_with_def)

lemma starts_with_iff: "starts_with pre s \<longleftrightarrow> (\<exists>t. s = pre @ t)"
  unfolding starts_with_def by (metis append_eq_conv_conj append_take_drop_id)

lemma strip_prefix_append [simp]: "strip_prefix pre (pre @ s) = Some s"
  by (simp add: strip_prefix_def)

lemma strip_prefix_Some: "strip_prefix pre s = Some t \<longleftrightarrow> s = pre @ t"
  by (auto simp: strip_prefix_def starts_with_iff)

lemma split_on_nonempty [simp]: "split_on c s \<noteq> []"
  by (induction s) (auto split: list.splits)

lemma split_on_no_sep: "c \<notin> set s \<Longrightarrow> split_on c s = [s]"
  by (induction s) auto

lemma split_on_append_sep: "c \<notin> set a \<Longrightarrow> split_on c (a @ c # b) = a # split_on c b"
  by (induction a) auto

lemma split_on_pieces: "p \<in> set (split_on c s) \<Longrightarrow> c \<notin> set p"
  by (induction s arbitrary: p) (auto split: if_splits list.splits)

lemma join_on_Cons: "xs \<noteq> [] \<Longrightarrow> join_on sep (x # xs) = x @ sep @ join_on sep xs"
  by (cases xs) auto

lemma join_split_on: "join_on [c] (split_on c s) = s"
proof (induction s)
  case (Cons x s)
  obtain p ps where "split_on c s = p # ps" by (cases "split_on c s") auto
  with Cons show ?case by (cases ps) (auto simp: join_on_Cons)
qed simp

lemma split_join_on:
  "xs \<noteq> [] \<Longrightarrow> \<forall>x \<in> set xs. c \<notin> set x \<Longrightarrow> split_on c (join_on [c] xs) = xs"
proof (induction "[c]" xs rule: join_on.induct)
  case (3 x y zs)
  then show ?case by (simp add: split_on_append_sep)
qed (auto simp: split_on_no_sep)

lemma split_once_Some: "split_once c s = Some (a, b) \<longleftrightarrow> s = a @ c # b \<and> c \<notin> set a"
proof (induction s arbitrary: a b)
  case (Cons x s)
  show ?case
  proof (cases "x = c")
    case True
    then show ?thesis by (cases a) auto
  next
    case False
    then have "split_once c (x # s) = Some (a, b) \<longleftrightarrow>
        (\<exists>a'. a = x # a' \<and> split_once c s = Some (a', b))"
      by (auto split: option.splits)
    also have "\<dots> \<longleftrightarrow> x # s = a @ c # b \<and> c \<notin> set a"
      using False by (cases a) (auto simp: Cons.IH)
    finally show ?thesis .
  qed
qed auto

lemma split_once_append [simp]: "c \<notin> set a \<Longrightarrow> split_once c (a @ c # b) = Some (a, b)"
  by (simp add: split_once_Some)

lemma split_once_None: "split_once c s = None \<longleftrightarrow> c \<notin> set s"
  by (induction s) (auto split: option.splits)

lemma trim_end_matches_append:
  "\<lbrakk>a = [] \<or> \<not> P (last a); \<forall>c \<in> set b. P c\<rbrakk> \<Longrightarrow> trim_end_matches P (a @ b) = a"
  by (cases a rule: rev_cases) (auto simp: trim_end_matches_def dropWhile_append3)

section \<open>Number parsing and printing\<close>

text \<open>\<open>char::to_digit\<close>.\<close>

definition digit_val :: "nat \<Rightarrow> char \<Rightarrow> nat option" where
  "digit_val radix c =
     (let n = (of_char c :: nat);
          v = (if is_ascii_digit c then n - 48
               else if is_ascii_lowercase c then n - 97 + 10
               else if is_ascii_uppercase c then n - 65 + 10 else radix)
      in if v < radix then Some v else None)"

fun digits_val :: "nat \<Rightarrow> nat \<Rightarrow> string \<Rightarrow> nat option" where
  "digits_val radix acc [] = Some acc"
| "digits_val radix acc (c # cs) =
     (case digit_val radix c of None \<Rightarrow> None | Some v \<Rightarrow> digits_val radix (acc * radix + v) cs)"

text \<open>
  \<open>from_str_radix\<close> of an unsigned type with \<open>bits\<close> bits: an optional plus sign, at
  least one digit, and an error rather than a wrapped value on overflow.
\<close>

definition parse_unsigned :: "nat \<Rightarrow> nat \<Rightarrow> string \<Rightarrow> nat option" where
  "parse_unsigned bits radix s =
     (let ds = (case s of [] \<Rightarrow> [] | c # cs \<Rightarrow> if c = CHR ''+'' then cs else s)
      in if ds = [] then None
         else (case digits_val radix 0 ds of
                 None \<Rightarrow> None
               | Some n \<Rightarrow> if n < 2 ^ bits then Some n else None))"

text \<open>The same for a signed type, where a minus sign is allowed as well.\<close>

definition parse_signed :: "nat \<Rightarrow> string \<Rightarrow> int option" where
  "parse_signed bits s =
     (let neg = (case s of [] \<Rightarrow> False | c # _ \<Rightarrow> c = CHR ''-'');
          ds = (case s of [] \<Rightarrow> [] | c # cs \<Rightarrow> if c = CHR ''+'' \<or> c = CHR ''-'' then cs else s)
      in if ds = [] then None
         else (case digits_val 10 0 ds of
                 None \<Rightarrow> None
               | Some n \<Rightarrow>
                   let v = (if neg then - int n else int n)
                   in if - (2 ^ (bits - 1)) \<le> v \<and> v < 2 ^ (bits - 1) then Some v else None))"

definition digit_char :: "nat \<Rightarrow> char" where
  "digit_char d = (if d < 10 then char_of (d + 48) else char_of (d - 10 + 97))"

lemma digit_char_lits [simp]:
  "digit_char 0 = CHR ''0''" "digit_char 1 = CHR ''1''" "digit_char (Suc 0) = CHR ''1''"
  "digit_char 2 = CHR ''2''" "digit_char 3 = CHR ''3''" "digit_char 4 = CHR ''4''"
  "digit_char 5 = CHR ''5''" "digit_char 6 = CHR ''6''" "digit_char 7 = CHR ''7''"
  "digit_char 8 = CHR ''8''" "digit_char 9 = CHR ''9''"
  by code_simp+

text \<open>The decimal text of a number, as \<open>to_string\<close> and \<open>format!\<close> print it.\<close>

fun nat_str :: "nat \<Rightarrow> string" where
  "nat_str n = (if n < 10 then [digit_char n] else nat_str (n div 10) @ [digit_char (n mod 10)])"

declare nat_str.simps [simp del]

definition int_str :: "int \<Rightarrow> string" where
  "int_str i = (if i < 0 then CHR ''-'' # nat_str (nat (- i)) else nat_str (nat i))"

lemma digit_char_dec: "d < 10 \<Longrightarrow> is_ascii_digit (digit_char d) \<and> digit_val 10 (digit_char d) = Some d"
  by (simp add: digit_char_def is_ascii_digit_def digit_val_def)

lemma digits_val_append:
  "digits_val r a (xs @ ys) =
     (case digits_val r a xs of None \<Rightarrow> None | Some b \<Rightarrow> digits_val r b ys)"
  by (induction xs arbitrary: a) (auto split: option.splits)

lemma nat_str_digits: "c \<in> set (nat_str n) \<Longrightarrow> is_ascii_digit c"
proof (induction n rule: nat_str.induct)
  case (1 n)
  then show ?case
    by (subst (asm) (2) nat_str.simps) (auto simp: digit_char_dec split: if_splits)
qed

lemma nat_str_nonempty [simp]: "nat_str n \<noteq> []"
  by (subst nat_str.simps) simp

lemma digits_val_nat_str: "digits_val 10 0 (nat_str n) = Some n"
proof (induction n rule: nat_str.induct)
  case (1 n)
  show ?case
  proof (cases "n < 10")
    case True
    then show ?thesis by (subst nat_str.simps) (simp add: digit_char_dec)
  next
    case False
    with 1 have "digits_val 10 0 (nat_str (n div 10)) = Some (n div 10)" by simp
    with False show ?thesis
      by (subst nat_str.simps) (simp add: digits_val_append digit_char_dec)
  qed
qed

lemma digit_not_sign:
  "is_ascii_digit c \<Longrightarrow> c \<noteq> CHR ''+'' \<and> c \<noteq> CHR ''-'' \<and> c \<noteq> CHR ''/'' \<and> c \<noteq> CHR '':'' \<and> \<not> is_ascii_alphabetic c"
  by (auto simp: is_ascii_digit_def is_ascii_alphabetic_def is_ascii_uppercase_def
      is_ascii_lowercase_def)

lemma nat_str_no_sign:
  "CHR ''+'' \<notin> set (nat_str n)" "CHR ''-'' \<notin> set (nat_str n)" "CHR '':'' \<notin> set (nat_str n)"
  using nat_str_digits digit_not_sign by blast+

lemma nat_str_head: "\<exists>c cs. nat_str n = c # cs \<and> c \<noteq> CHR ''+'' \<and> c \<noteq> CHR ''-''"
  by (metis list.exhaust list.set_intros(1) nat_str_no_sign(1,2) nat_str_nonempty)

lemma parse_unsigned_nat_str: "n < 2 ^ bits \<Longrightarrow> parse_unsigned bits 10 (nat_str n) = Some n"
  using nat_str_head [of n] digits_val_nat_str [of n] by (auto simp: parse_unsigned_def)

lemma parse_signed_nat_str:
  assumes "int n < 2 ^ (bits - 1)"
  shows "parse_signed bits (nat_str n) = Some (int n)"
proof -
  have "- (2 ^ (bits - 1)) \<le> int n"
    by (rule order_trans [of _ 0]) simp_all
  with assms nat_str_head [of n] digits_val_nat_str [of n] show ?thesis
    by (auto simp: parse_signed_def)
qed

lemma parse_unsigned_bound: "parse_unsigned bits radix s = Some n \<Longrightarrow> n < 2 ^ bits"
  by (auto simp: parse_unsigned_def Let_def split: if_splits option.splits list.splits)

lemma parse_signed_bound:
  "parse_signed bits s = Some v \<Longrightarrow> - (2 ^ (bits - 1)) \<le> v \<and> v < 2 ^ (bits - 1)"
  by (auto simp: parse_signed_def Let_def split: if_splits option.splits)

definition is_word :: "string \<Rightarrow> bool" where
  "is_word w \<longleftrightarrow> w \<noteq> [] \<and> (\<forall>c \<in> set w. \<not> is_ws c)"

lemma split_whitespace_aux_word:
  "\<forall>c \<in> set w. \<not> is_ws c \<Longrightarrow> split_whitespace_aux acc (w @ s) = split_whitespace_aux (rev w @ acc) s"
  by (induction w arbitrary: acc) auto

lemma split_whitespace_Cons:
  assumes "is_word w" "is_ws d"
  shows "split_whitespace (w @ d # s) = w # split_whitespace s"
  using assms by (simp add: is_word_def split_whitespace_def split_whitespace_aux_word)

lemma split_whitespace_join:
  assumes "is_ws d" "\<forall>w \<in> set ws. is_word w"
  shows "split_whitespace (join_on [d] ws) = ws"
  using assms
proof (induction "[d]" ws rule: join_on.induct)
  case 1
  then show ?case by (simp add: split_whitespace_def)
next
  case (2 x)
  then show ?case using split_whitespace_aux_word [of x "[]" "[]"]
    by (simp add: split_whitespace_def is_word_def)
next
  case (3 x y zs)
  then show ?case by (simp add: split_whitespace_Cons)
qed

definition hex_upper :: "nat \<Rightarrow> char" where
  "hex_upper d = (if d < 10 then char_of (d + 48) else char_of (d - 10 + 65))"

fun hex_pad :: "nat \<Rightarrow> nat \<Rightarrow> string" where
  "hex_pad 0 n = []"
| "hex_pad (Suc k) n = hex_pad k (n div 16) @ [hex_upper (n mod 16)]"

lemma hex_upper_val: "d < 16 \<Longrightarrow> digit_val 16 (hex_upper d) = Some d"
  by (auto simp: hex_upper_def digit_val_def is_ascii_digit_def is_ascii_uppercase_def is_ascii_lowercase_def)

lemma digit_val_plain: "digit_val r c = Some d \<Longrightarrow> r \<le> 36 \<Longrightarrow> c \<noteq> CHR ''+'' \<and> c \<noteq> CHR ''-'' \<and> \<not> is_ws c"
  by (auto simp: digit_val_def Let_def is_ascii_digit_def is_ascii_uppercase_def
      is_ascii_lowercase_def is_ws_def split: if_splits)

lemma hex_upper_plain: "d < 16 \<Longrightarrow> hex_upper d \<noteq> CHR ''+'' \<and> \<not> is_ws (hex_upper d)"
  using digit_val_plain [OF hex_upper_val] by simp

lemma digits_val_hex_pad: "digits_val 16 0 (hex_pad k n) = Some (n mod 16 ^ k)"
proof (induction k arbitrary: n)
  case (Suc k)
  have "n div 16 mod 16 ^ k * 16 + n mod 16 = n mod 16 ^ Suc k"
    by (simp add: mod_mult2_eq mult.commute)
  with Suc show ?case by (simp add: digits_val_append hex_upper_val)
qed simp

lemma set_hex_pad: "c \<in> set (hex_pad k n) \<Longrightarrow> c \<noteq> CHR ''+'' \<and> \<not> is_ws c"
  by (induction k arbitrary: n) (auto simp: hex_upper_plain)

lemma parse_hex_pad:
  assumes "0 < k" "n < 16 ^ k" "n < 2 ^ bits"
  shows "parse_unsigned bits 16 (hex_pad k n) = Some n"
proof -
  obtain c cs where c: "hex_pad k n = c # cs" using assms(1) by (cases k; cases "hex_pad k n") auto
  moreover have "c \<noteq> CHR ''+''" using set_hex_pad [of c k n] c by auto
  ultimately show ?thesis
    using digits_val_hex_pad [of k n] assms by (simp add: parse_unsigned_def)
qed

section \<open>Effects\<close>

text \<open>
  Code with effects is a function from a state to a result and the state after it. The state
  is kept when an error is returned, as \<open>?\<close> undoes nothing. Two states are used: the
  \<open>world\<close> of the file system model, and, for code that only makes system calls, the trace of
  the calls made so far.
\<close>

type_synonym ('s, 'a) script = "'s \<Rightarrow> 'a res \<times> 's"
type_synonym 'c trace = "'c list"

definition bindM :: "('s, 'a) script \<Rightarrow> ('a \<Rightarrow> ('s, 'b) script) \<Rightarrow> ('s, 'b) script" where
  "bindM m f s = (case m s of (Inl e, s') \<Rightarrow> (Inl e, s') | (Inr x, s') \<Rightarrow> f x s')"

definition returnM :: "'a \<Rightarrow> ('s, 'a) script" where
  "returnM x s = (Inr x, s)"

definition failM :: "error \<Rightarrow> ('s, 'a) script" where
  "failM e s = (Inl e, s)"

definition liftM :: "'a res \<Rightarrow> ('s, 'a) script" where
  "liftM r s = (r, s)"

definition contextM :: "string \<Rightarrow> ('s, 'a) script \<Rightarrow> ('s, 'a) script" where
  "contextM msg m s = (case m s of (r, s') \<Rightarrow> (with_context msg r, s'))"

text \<open>The result itself as a value: a \<open>match\<close> on it, or \<open>let _ =\<close> dropping it.\<close>

definition tryM :: "('s, 'a) script \<Rightarrow> ('s, 'a res) script" where
  "tryM m s = (case m s of (r, s') \<Rightarrow> (Inr r, s'))"

definition ignoreM :: "('s, 'a) script \<Rightarrow> ('s, unit) script" where
  "ignoreM m s = (Inr (), snd (m s))"

definition whenM :: "bool \<Rightarrow> ('s, unit) script \<Rightarrow> ('s, unit) script" where
  "whenM b m = (if b then m else returnM ())"

fun forM :: "'a list \<Rightarrow> ('a \<Rightarrow> ('s, unit) script) \<Rightarrow> ('s, unit) script" where
  "forM [] f = returnM ()"
| "forM (x # xs) f = bindM (f x) (\<lambda>_. forM xs f)"

fun mapM :: "('a \<Rightarrow> ('s, 'b) script) \<Rightarrow> 'a list \<Rightarrow> ('s, 'b list) script" where
  "mapM f [] = returnM []"
| "mapM f (x # xs) = bindM (f x) (\<lambda>y. bindM (mapM f xs) (\<lambda>ys. returnM (y # ys)))"

text \<open>A system call: what it returns is up to the environment, which sees the calls before it.\<close>

definition call :: "('c trace \<Rightarrow> 'c \<Rightarrow> 'a res) \<Rightarrow> 'c \<Rightarrow> ('c trace, 'a) script" where
  "call sys c tr = (sys tr c, tr @ [c])"

lemma whenM_simps [simp]: "whenM True m = m" "whenM False m = returnM ()"
  by (simp_all add: whenM_def)

text \<open>Running an effect; not simplification rules, as they would unfold the effects themselves.\<close>

lemma script_simps:
  "call sys c tr = (sys tr c, tr @ [c])"
  "returnM x s = (Inr x, s)"
  "failM e s = (Inl e, s)"
  "liftM r s = (r, s)"
  "ignoreM m s = (Inr (), snd (m s))"
  by (simp_all add: call_def returnM_def failM_def liftM_def ignoreM_def)

lemma bindM_simps [simp]:
  "bindM (returnM x) f = f x"
  "bindM (failM e) f = failM e"
  "bindM m returnM = m"
  by (auto simp: bindM_def fun_eq_iff script_simps split: prod.splits sum.splits)

lemma liftM_simps [simp]: "liftM (Inr x) = returnM x" "liftM (Inl e) = failM e"
  by (auto simp: script_simps fun_eq_iff)

lemma bindM_runs: "m s = (Inr x, t) \<Longrightarrow> bindM m f s = f x t"
  by (simp add: bindM_def)

lemma bindM_assoc: "bindM (bindM m f) g = bindM m (\<lambda>x. bindM (f x) g)"
  by (rule ext) (auto simp: bindM_def split: prod.splits sum.splits)

lemma bindM_Inr:
  "bindM m f s = (Inr y, t) \<longleftrightarrow> (\<exists>x u. m s = (Inr x, u) \<and> f x u = (Inr y, t))"
  by (auto simp: bindM_def split: prod.splits sum.splits)

lemma bindM_Inl:
  "bindM m f s = (Inl e, t) \<longleftrightarrow>
     m s = (Inl e, t) \<or> (\<exists>x u. m s = (Inr x, u) \<and> f x u = (Inl e, t))"
  by (auto simp: bindM_def split: prod.splits sum.splits)

lemma contextM_Inr [simp]: "contextM msg m s = (Inr y, t) \<longleftrightarrow> m s = (Inr y, t)"
  by (auto simp: contextM_def split: prod.splits)

lemma contextM_Inl: "contextM msg m s = (Inl e, t) \<longleftrightarrow> (\<exists>e'. e = Context msg e' \<and> m s = (Inl e', t))"
  by (auto simp: contextM_def with_context_def split: prod.splits sum.splits)

lemma tryM_Inr [simp]: "tryM m s = (Inr r, t) \<longleftrightarrow> m s = (r, t)"
  by (auto simp: tryM_def split: prod.splits)

lemma tryM_not_Inl [simp]: "tryM m s \<noteq> (Inl e, t)"
  by (auto simp: tryM_def split: prod.splits)

lemma forM_append: "forM (xs @ ys) f = bindM (forM xs f) (\<lambda>_. forM ys f)"
  by (induction xs) (auto simp: bindM_assoc)

subsection \<open>Triples\<close>

text \<open>
  \<open>triple P m Q E\<close>: from a state with \<open>P\<close>, a value is returned in a state with \<open>Q\<close> for that
  value, or an error in a state with \<open>E\<close>. Everything an effect may do is bounded by its
  triple, errors included.
\<close>

named_theorems triples \<open>triples of the effects, for intro\<close>

definition triple ::
  "('s \<Rightarrow> bool) \<Rightarrow> ('s, 'a) script \<Rightarrow> ('a \<Rightarrow> 's \<Rightarrow> bool) \<Rightarrow> ('s \<Rightarrow> bool) \<Rightarrow> bool" where
  "triple P m Q E \<longleftrightarrow>
     (\<forall>s. P s \<longrightarrow> (case m s of (Inr x, t) \<Rightarrow> Q x t | (Inl e, t) \<Rightarrow> E t))"

lemma tripleI:
  "\<lbrakk>\<And>s x t. P s \<Longrightarrow> m s = (Inr x, t) \<Longrightarrow> Q x t; \<And>s e t. P s \<Longrightarrow> m s = (Inl e, t) \<Longrightarrow> E t\<rbrakk>
   \<Longrightarrow> triple P m Q E"
  by (auto simp: triple_def split: prod.splits sum.splits)

lemma triple_Inr: "triple P m Q E \<Longrightarrow> P s \<Longrightarrow> m s = (Inr x, t) \<Longrightarrow> Q x t"
  by (force simp: triple_def)

lemma triple_Inl: "triple P m Q E \<Longrightarrow> P s \<Longrightarrow> m s = (Inl e, t) \<Longrightarrow> E t"
  by (force simp: triple_def)

lemma triple_false: "(\<And>s. \<not> P s) \<Longrightarrow> triple P m Q E"
  by (simp add: triple_def)

lemma triple_weaken:
  "\<lbrakk>triple P m Q E; \<And>s. P' s \<Longrightarrow> P s; \<And>x s. Q x s \<Longrightarrow> Q' x s; \<And>s. E s \<Longrightarrow> E' s\<rbrakk>
   \<Longrightarrow> triple P' m Q' E'"
  by (rule tripleI) (blast dest: triple_Inr triple_Inl)+

lemma triple_bind:
  "\<lbrakk>triple P m R E; \<And>x. triple (R x) (f x) Q E\<rbrakk> \<Longrightarrow> triple P (bindM m f) Q E"
  by (rule tripleI) (auto simp: bindM_Inr bindM_Inl dest: triple_Inr triple_Inl)

lemma triple_return: "triple (Q x) (returnM x) Q E"
  by (simp add: triple_def script_simps)

lemma triple_fail: "triple E (failM e) Q E"
  by (simp add: triple_def script_simps)

lemma triple_context: "triple P m Q E \<Longrightarrow> triple P (contextM msg m) Q E"
  by (rule tripleI) (auto simp: contextM_Inl dest: triple_Inr triple_Inl)

lemma triple_try:
  assumes "triple P m (\<lambda>x. Q (Inr x)) (\<lambda>s. \<forall>e. Q (Inl e) s)"
  shows "triple P (tryM m) Q E"
proof (rule tripleI)
  fix s x t assume "P s" "tryM m s = (Inr x, t)"
  then show "Q x t" using assms by (cases x) (auto dest: triple_Inr triple_Inl)
qed simp

lemma triple_ignore:
  assumes "triple P m (\<lambda>_. Q) Q"
  shows "triple P (ignoreM m) (\<lambda>_. Q) E"
proof (rule tripleI)
  fix s x t assume "P s" "ignoreM m s = (Inr x, t)"
  then obtain r where "m s = (r, t)" by (cases "m s") (simp add: ignoreM_def)
  with \<open>P s\<close> assms show "Q t" by (cases r) (auto dest: triple_Inr triple_Inl)
qed (simp add: ignoreM_def)

lemma triple_snd: "triple P m (\<lambda>_. Q) Q \<Longrightarrow> P s \<Longrightarrow> Q (snd (m s))"
  by (cases "m s"; cases "fst (m s)") (auto dest: triple_Inr triple_Inl)

text \<open>An invariant: kept whatever the outcome.\<close>

definition keeps :: "('s \<Rightarrow> bool) \<Rightarrow> ('s, 'a) script \<Rightarrow> bool" where
  "keeps I m \<longleftrightarrow> (\<forall>s. I s \<longrightarrow> I (snd (m s)))"

lemma keepsD: "keeps I m \<Longrightarrow> I s \<Longrightarrow> m s = (r, t) \<Longrightarrow> I t"
  by (force simp: keeps_def)

lemma keepsI: "(\<And>s r t. I s \<Longrightarrow> m s = (r, t) \<Longrightarrow> I t) \<Longrightarrow> keeps I m"
  by (metis keeps_def prod.collapse)

lemma keeps_triple: "keeps I m \<longleftrightarrow> triple I m (\<lambda>_. I) I"
proof
  assume "keeps I m"
  then show "triple I m (\<lambda>_. I) I" by (auto intro: tripleI dest: keepsD)
next
  assume *: "triple I m (\<lambda>_. I) I"
  show "keeps I m"
  proof (rule keepsI)
    fix s r t assume "I s" "m s = (r, t)"
    with * show "I t" by (cases r) (auto dest: triple_Inr triple_Inl)
  qed
qed

lemma keeps_into: "keeps I m \<Longrightarrow> (\<And>s. I s \<Longrightarrow> E s) \<Longrightarrow> triple I m (\<lambda>_. I) E"
  unfolding keeps_triple by (erule triple_weaken) auto

lemma keeps_conj: "keeps I m \<Longrightarrow> keeps J m \<Longrightarrow> keeps (\<lambda>s. I s \<and> J s) m"
  by (simp add: keeps_def)

lemma triple_conj:
  "triple P m Q E \<Longrightarrow> triple P' m Q' E' \<Longrightarrow>
   triple (\<lambda>s. P s \<and> P' s) m (\<lambda>x s. Q x s \<and> Q' x s) (\<lambda>s. E s \<and> E' s)"
  by (rule tripleI) (auto dest: triple_Inr triple_Inl)

named_theorems keeps_intros \<open>rules for keeps\<close>

lemma keeps_bind [keeps_intros]: "keeps I m \<Longrightarrow> (\<And>x. keeps I (f x)) \<Longrightarrow> keeps I (bindM m f)"
  unfolding keeps_triple by (rule triple_bind)

lemma keeps_return [keeps_intros]: "keeps I (returnM x)"
  by (simp add: keeps_def script_simps)

lemma keeps_fail [keeps_intros]: "keeps I (failM e)"
  by (simp add: keeps_def script_simps)

lemma keeps_lift [keeps_intros]: "keeps I (liftM r)"
  by (simp add: keeps_def script_simps)

lemma keeps_context [keeps_intros]: "keeps I m \<Longrightarrow> keeps I (contextM msg m)"
  unfolding keeps_triple by (rule triple_context)

lemma keeps_try [keeps_intros]: "keeps I m \<Longrightarrow> keeps I (tryM m)"
  by (rule keepsI) (auto simp: tryM_def dest: keepsD split: prod.splits)

lemma keeps_ignore [keeps_intros]: "keeps I m \<Longrightarrow> keeps I (ignoreM m)"
  by (simp add: keeps_def script_simps)

lemma keeps_when [keeps_intros]: "keeps I m \<Longrightarrow> keeps I (whenM b m)"
  by (cases b) (simp_all add: keeps_return)

lemma keeps_forM [keeps_intros]: "(\<And>x. x \<in> set xs \<Longrightarrow> keeps I (f x)) \<Longrightarrow> keeps I (forM xs f)"
  by (induction xs) (auto intro: keeps_intros)

lemma keeps_mapM [keeps_intros]: "(\<And>x. x \<in> set xs \<Longrightarrow> keeps I (f x)) \<Longrightarrow> keeps I (mapM f xs)"
  by (induction xs) (auto intro: keeps_intros)

lemma keeps_if [keeps_intros]: "(b \<Longrightarrow> keeps I m) \<Longrightarrow> (\<not> b \<Longrightarrow> keeps I n) \<Longrightarrow> keeps I (if b then m else n)"
  by simp

lemma keeps_option [keeps_intros]:
  "(x = None \<Longrightarrow> keeps I m) \<Longrightarrow> (\<And>y. x = Some y \<Longrightarrow> keeps I (f y)) \<Longrightarrow>
   keeps I (case x of None \<Rightarrow> m | Some y \<Rightarrow> f y)"
  by (cases x) simp_all

lemma keeps_bool [keeps_intros]: "keeps I m \<Longrightarrow> keeps I n \<Longrightarrow> keeps I (case b of True \<Rightarrow> m | False \<Rightarrow> n)"
  by (cases b) simp_all

lemma keeps_sum [keeps_intros]:
  "(\<And>e. x = Inl e \<Longrightarrow> keeps I (f e)) \<Longrightarrow> (\<And>y. x = Inr y \<Longrightarrow> keeps I (g y)) \<Longrightarrow>
   keeps I (case x of Inl e \<Rightarrow> f e | Inr y \<Rightarrow> g y)"
  by (cases x) simp_all

lemma keeps_prod [keeps_intros]:
  "(\<And>a b. x = (a, b) \<Longrightarrow> keeps I (f a b)) \<Longrightarrow> keeps I (case x of (a, b) \<Rightarrow> f a b)"
  by (cases x) simp

lemma keeps_let [keeps_intros]: "keeps I (f x) \<Longrightarrow> keeps I (let y = x in f y)"
  by simp

subsection \<open>Traces\<close>

definition each_after :: "('c list \<Rightarrow> 'c \<Rightarrow> bool) \<Rightarrow> 'c list \<Rightarrow> bool" where
  "each_after P tr \<longleftrightarrow> (\<forall>i < length tr. P (take i tr) (tr ! i))"

lemma each_after_Nil [simp]: "each_after P []"
  by (simp add: each_after_def)

lemma each_after_snoc [simp]: "each_after P (tr @ [c]) \<longleftrightarrow> each_after P tr \<and> P tr c"
  by (auto simp: each_after_def less_Suc_eq nth_append)

lemma each_after_Cons [simp]:
  "each_after P (c # tr) \<longleftrightarrow> P [] c \<and> each_after (\<lambda>t. P (c # t)) tr"
  by (auto simp: each_after_def nth_Cons split: nat.splits)

lemma each_after_append [simp]:
  "each_after P (xs @ ys) \<longleftrightarrow> each_after P xs \<and> each_after (\<lambda>t. P (xs @ t)) ys"
  by (induction xs arbitrary: P) auto

lemma triple_call:
  "(\<And>tr. S \<subseteq> set tr \<Longrightarrow> each_after Q tr \<Longrightarrow> Q tr c) \<Longrightarrow>
   triple (\<lambda>tr. each_after Q tr \<and> S \<subseteq> set tr) (call sys c)
     (\<lambda>_ tr. each_after Q tr \<and> insert c S \<subseteq> set tr) (each_after Q)"
  by (rule tripleI) (auto simp: script_simps)

end
