(* ===== verification/Paths.thy ===== *)
theory Paths
  imports Climate_Prelude
begin

text \<open>
  \<open>std::path::Path\<close>, as its components: \<open>Path::components\<close> is \<open>path_of\<close>, comparison of paths is
  comparison of components, and \<open>display\<close> is \<open>path_str\<close>, which prints the components, so that
  doubled and trailing slashes of the original text are not shown. File names are byte strings
  and conversions to UTF-8 never fail here.
\<close>

datatype component = RootDir | CurDir | ParentDir | Normal string

type_synonym path = "component list"

definition component_of :: "string \<Rightarrow> component option" where
  "component_of s =
     (if s = [] \<or> s = ''.'' then None else if s = ''..'' then Some ParentDir else Some (Normal s))"

text \<open>A leading \<open>.\<close> of a relative path is a component of its own, every other one is dropped.\<close>

definition path_of :: "string \<Rightarrow> path" where
  "path_of s =
     (let ps = split_on (CHR ''/'') s
      in (if starts_with ''/'' s then [RootDir] else if hd ps = ''.'' then [CurDir] else [])
         @ filter_map component_of ps)"

definition is_absolute :: "path \<Rightarrow> bool" where
  "is_absolute p \<longleftrightarrow> p \<noteq> [] \<and> hd p = RootDir"

definition join :: "path \<Rightarrow> path \<Rightarrow> path" where
  "join p q =
     (if is_absolute q then q
      else if p = [] then q
      else p @ (if q \<noteq> [] \<and> hd q = CurDir then tl q else q))"

text \<open>\<open>Path::join\<close> of a \<open>str\<close>, as most calls have it.\<close>

definition join_str :: "path \<Rightarrow> string \<Rightarrow> path" (* p.join("name") *) where
  "join_str p s = join p (path_of s)"

definition parent :: "path \<Rightarrow> path option" where
  "parent p = (if p = [] \<or> last p = RootDir then None else Some (butlast p))"

definition file_name :: "path \<Rightarrow> string option" where
  "file_name p = (if p = [] then None else case last p of Normal s \<Rightarrow> Some s | _ \<Rightarrow> None)"

definition strip_root :: "path \<Rightarrow> path" (* strip_prefix("/").unwrap_or(path) *) where
  "strip_root p = (if is_absolute p then tl p else p)"

fun component_str :: "component \<Rightarrow> string" where
  "component_str RootDir = []"
| "component_str CurDir = ''.''"
| "component_str ParentDir = ''..''"
| "component_str (Normal s) = s"

definition path_str :: "path \<Rightarrow> string" where
  "path_str p = (if p = [RootDir] then ''/'' else join_on ''/'' (map component_str p))"

text \<open>\<open>Path::file_stem\<close> and \<open>Path::extension\<close> of a file name: split at the last dot, unless it
  leads the name.\<close>

definition stem_ext :: "string \<Rightarrow> string \<times> string option" where
  "stem_ext s =
     (case split_once (CHR ''.'') (rev s) of
        None \<Rightarrow> (s, None)
      | Some (e, t) \<Rightarrow> if t = [] then (s, None) else (rev t, Some (rev e)))"

section \<open>Lemmas\<close>

text \<open>A name that is one component, as a file name is.\<close>

definition plain_name :: "string \<Rightarrow> bool" where
  "plain_name s \<longleftrightarrow> s \<noteq> [] \<and> s \<noteq> ''.'' \<and> s \<noteq> ''..'' \<and> CHR ''/'' \<notin> set s"

lemma starts_with_slash: "starts_with ''/'' s \<longleftrightarrow> s \<noteq> [] \<and> hd s = CHR ''/''"
  by (cases s) (auto simp: starts_with_def)

lemma path_of_plain: "plain_name s \<Longrightarrow> path_of s = [Normal s]"
  by (cases s)
    (auto simp: plain_name_def path_of_def split_on_no_sep component_of_def starts_with_slash Let_def)

lemma join_plain: "plain_name s \<Longrightarrow> join_str p s = p @ [Normal s]"
  by (simp add: join_str_def path_of_plain join_def is_absolute_def)

lemma file_name_snoc [simp]: "file_name (p @ [Normal s]) = Some s"
  by (simp add: file_name_def)

lemma parent_snoc [simp]: "parent (p @ [Normal s]) = Some p"
  by (simp add: parent_def)

text \<open>Only an absolute path of at least one proper name, so that it has a parent, is used.\<close>

definition proper :: "path \<Rightarrow> bool" where
  "proper p \<longleftrightarrow> is_absolute p \<and> (\<forall>c \<in> set (tl p). \<exists>s. c = Normal s)"

lemma proper_snoc [simp]: "proper p \<Longrightarrow> proper (p @ [Normal s])"
  by (cases p) (auto simp: proper_def is_absolute_def)

lemma proper_absolute: "proper p \<Longrightarrow> is_absolute p"
  by (simp add: proper_def)

lemma path_of_absolute: "is_absolute (path_of s) \<longleftrightarrow> starts_with ''/'' s"
proof (cases "starts_with ''/'' s")
  case False
  have *: "x \<in> set (filter_map component_of ps) \<Longrightarrow> x \<noteq> RootDir" for x ps
    by (auto simp: set_filter_map component_of_def split: if_splits)
  show ?thesis
  proof (cases "filter_map component_of (split_on (CHR ''/'') s)")
    case (Cons x xs)
    with * [of x "split_on (CHR ''/'') s"] False show ?thesis
      by (auto simp: path_of_def is_absolute_def Let_def)
  qed (use False in \<open>auto simp: path_of_def is_absolute_def Let_def\<close>)
qed (simp add: path_of_def is_absolute_def Let_def)

lemma path_of_tl: "RootDir \<notin> set (tl (path_of s))"
proof -
  have *: "RootDir \<notin> set (filter_map component_of ps)" for ps
    by (auto simp: set_filter_map component_of_def split: if_splits)
  then have "RootDir \<notin> set (tl (filter_map component_of ps))" for ps
    by (metis list.set_sel(2) tl_Nil)
  with * show ?thesis by (simp add: path_of_def Let_def)
qed

end
