(* ===== verification/Filesystem.thy ===== *)
theory Filesystem
  imports Paths
begin

text \<open>
  The file system as the sources use it through \<open>std::fs\<close>. A file system maps paths to nodes; a
  \<open>world\<close> adds a clock that counts the calls, a schedule of faults, and what was printed. Every
  call takes one tick. The schedule may make any call fail: with \<open>Some 0\<close> it fails having done
  nothing, with \<open>Some (Suc k)\<close> having done a part of its work, as much as \<open>k\<close> says: that many bytes
  of a write, directories of a path, entries of a tree. A process killed at some call is the
  schedule on which that call and all later ones fail: nothing after it changes the file system.

  Paths lead through directories, not through symbolic links to directories; a link in the last
  place is followed by the calls that follow one, except the ones that write.
\<close>

section \<open>Nodes\<close>

text \<open>A directory has its permission bits.\<close>

datatype node = File string | Dir "32 word" | Symlink path

type_synonym fs = "(path \<times> node) list"

record world =
  fs :: fs
  tick :: nat
  fault :: "nat \<Rightarrow> nat option"
  stderr :: "string list"
  stdout :: "string list"

type_synonym 'a io = "(world, 'a) script"

definition not_found :: error where "not_found = Io ''No such file or directory''"
definition not_a_directory :: error where "not_a_directory = Io ''Not a directory''"
definition is_a_directory :: error where "is_a_directory = Io ''Is a directory''"
definition denied :: error where "denied = Io ''Permission denied''"
definition not_empty :: error where "not_empty = Io ''Directory not empty''"
definition exists_already :: error where "exists_already = Io ''File exists''"
definition interrupted :: error where "interrupted = Io ''Input/output error''"

lemmas errno_defs = not_found_def not_a_directory_def is_a_directory_def denied_def not_empty_def
  exists_already_def interrupted_def

definition node_at :: "fs \<Rightarrow> path \<Rightarrow> node option" where
  "node_at f p = map_of f p"

definition del_node :: "path \<Rightarrow> fs \<Rightarrow> fs" where
  "del_node p f = filter (\<lambda>(q, _). q \<noteq> p) f"

fun set_node :: "path \<Rightarrow> node \<Rightarrow> fs \<Rightarrow> fs" where
  "set_node p n [] = [(p, n)]"
| "set_node p n ((q, m) # f) = (if p = q then (p, n) # f else (q, m) # set_node p n f)"

definition is_dir_node :: "node option \<Rightarrow> bool" where
  "is_dir_node n \<longleftrightarrow> (case n of Some (Dir _) \<Rightarrow> True | _ \<Rightarrow> False)"

definition is_file_node :: "node option \<Rightarrow> bool" where
  "is_file_node n \<longleftrightarrow> (case n of Some (File _) \<Rightarrow> True | _ \<Rightarrow> False)"

text \<open>A path of the tree below \<open>p\<close>, \<open>p\<close> included.\<close>

definition under :: "path \<Rightarrow> path \<Rightarrow> bool" where
  "under p q \<longleftrightarrow> take (length p) q = p"

definition child_of :: "path \<Rightarrow> path \<Rightarrow> bool" where
  "child_of p q \<longleftrightarrow> q \<noteq> [] \<and> butlast q = p"

text \<open>A link in the last place, followed as often as the kernel follows one.\<close>

fun follow :: "nat \<Rightarrow> fs \<Rightarrow> path \<Rightarrow> path option" where
  "follow 0 f p = None"
| "follow (Suc n) f p =
     (case node_at f p of
        Some (Symlink t) \<Rightarrow> follow n f (join (butlast p) t)
      | _ \<Rightarrow> Some p)"

definition stat :: "fs \<Rightarrow> path \<Rightarrow> node option" where
  "stat f p = (case follow 41 f p of None \<Rightarrow> None | Some q \<Rightarrow> node_at f q)"

section \<open>Calls\<close>

definition prim :: "(fs \<Rightarrow> 'a res \<times> fs) \<Rightarrow> (nat \<Rightarrow> fs \<Rightarrow> fs) \<Rightarrow> 'a io" where
  "prim eff part w =
     (let w' = w\<lparr>tick := Suc (tick w)\<rparr> in
      case fault w (tick w) of
        Some 0 \<Rightarrow> (Inl interrupted, w')
      | Some (Suc k) \<Rightarrow> (Inl interrupted, w'\<lparr>fs := part k (fs w)\<rparr>)
      | None \<Rightarrow> (case eff (fs w) of (r, f) \<Rightarrow> (r, w'\<lparr>fs := f\<rparr>)))"

definition query :: "(fs \<Rightarrow> 'a res) \<Rightarrow> 'a io" where
  "query q = prim (\<lambda>f. (q f, f)) (\<lambda>_ f. f)"

definition eprint :: "string \<Rightarrow> unit io" where
  "eprint s w = (Inr (), w\<lparr>stderr := stderr w @ [s]\<rparr>)"

definition println :: "string \<Rightarrow> unit io" where
  "println s w = (Inr (), w\<lparr>stdout := stdout w @ [s]\<rparr>)"

text \<open>The questions that answer no when they cannot be answered.\<close>

definition asking :: "(fs \<Rightarrow> bool) \<Rightarrow> bool io" where
  "asking q = bindM (tryM (query (\<lambda>f. Inr (q f)))) (\<lambda>r. returnM (r = Inr True))"

definition path_exists :: "path \<Rightarrow> bool io" where
  "path_exists p = asking (\<lambda>f. stat f p \<noteq> None)"

definition is_file :: "path \<Rightarrow> bool io" where
  "is_file p = asking (\<lambda>f. is_file_node (stat f p))"

definition is_dir :: "path \<Rightarrow> bool io" where
  "is_dir p = asking (\<lambda>f. is_dir_node (stat f p))"

definition symlink_metadata :: "path \<Rightarrow> node io" where
  "symlink_metadata p = query (\<lambda>f. case node_at f p of None \<Rightarrow> Inl not_found | Some n \<Rightarrow> Inr n)"

definition read_link :: "path \<Rightarrow> path io" where
  "read_link p = query (\<lambda>f. case node_at f p of
     Some (Symlink t) \<Rightarrow> Inr t | None \<Rightarrow> Inl not_found | _ \<Rightarrow> Inl (Io ''Invalid argument''))"

definition read_file :: "path \<Rightarrow> string io" where
  "read_file p = query (\<lambda>f. case stat f p of
     Some (File c) \<Rightarrow> Inr c | None \<Rightarrow> Inl not_found | Some _ \<Rightarrow> Inl is_a_directory)"

text \<open>The owner's bits of a directory: 0o400, 0o200 and 0o100.\<close>

definition readable :: "32 word \<Rightarrow> bool" where "readable m \<longleftrightarrow> m AND 0x140 = 0x140"
definition writable :: "32 word \<Rightarrow> bool" where "writable m \<longleftrightarrow> m AND 0xC0 = 0xC0"

definition dir_names :: "fs \<Rightarrow> path \<Rightarrow> string list" where
  "dir_names f p = filter_map (\<lambda>(q, _). if child_of p q then file_name q else None) f"

text \<open>The names of a directory's entries, in the order the file system holds them.\<close>

definition read_dir :: "path \<Rightarrow> string list io" where
  "read_dir p = query (\<lambda>f. case follow 41 f p of
     None \<Rightarrow> Inl not_found
   | Some q \<Rightarrow> (case node_at f q of
        Some (Dir m) \<Rightarrow> if readable m then Inr (dir_names f q) else Inl denied
      | None \<Rightarrow> Inl not_found
      | Some _ \<Rightarrow> Inl not_a_directory))"

definition parent_error :: "fs \<Rightarrow> path \<Rightarrow> error option" where
  "parent_error f p = (case node_at f (butlast p) of
     Some (Dir m) \<Rightarrow> if writable m then None else Some denied
   | None \<Rightarrow> Some not_found
   | Some _ \<Rightarrow> Some not_a_directory)"

text \<open>\<open>fs::write\<close> and \<open>File::create\<close>: the file is emptied first, so a failed write leaves a part.\<close>

definition write_node :: "path \<Rightarrow> string \<Rightarrow> fs \<Rightarrow> unit res \<times> fs" where
  "write_node p c f =
     (case node_at f p of
        Some (File _) \<Rightarrow> (Inr (), set_node p (File c) f)
      | Some _ \<Rightarrow> (Inl is_a_directory, f)
      | None \<Rightarrow> (case parent_error f p of
                  None \<Rightarrow> (Inr (), set_node p (File c) f) | Some e \<Rightarrow> (Inl e, f)))"

definition write_file :: "path \<Rightarrow> string \<Rightarrow> unit io" where
  "write_file p c = prim (write_node p c) (\<lambda>k f. snd (write_node p (take k c) f))"

definition make_dir :: "path \<Rightarrow> fs \<Rightarrow> unit res \<times> fs" where
  "make_dir p f =
     (case stat f p of
        Some (Dir _) \<Rightarrow> (Inr (), f)
      | Some _ \<Rightarrow> (Inl exists_already, f)
      | None \<Rightarrow> (case parent_error f p of
                  None \<Rightarrow> (Inr (), set_node p (Dir 0x1ED) f) | Some e \<Rightarrow> (Inl e, f)))"

fun make_dirs :: "path list \<Rightarrow> fs \<Rightarrow> unit res \<times> fs" where
  "make_dirs [] f = (Inr (), f)"
| "make_dirs (p # ps) f =
     (case make_dir p f of (Inl e, g) \<Rightarrow> (Inl e, g) | (Inr _, g) \<Rightarrow> make_dirs ps g)"

definition ancestors :: "path \<Rightarrow> path list" where
  "ancestors p = map (\<lambda>n. take n p) [1..<Suc (length p)]"

definition create_dir_all :: "path \<Rightarrow> unit io" where
  "create_dir_all p =
     prim (make_dirs (ancestors p)) (\<lambda>k f. snd (make_dirs (take k (ancestors p)) f))"

definition remove_file :: "path \<Rightarrow> unit io" where
  "remove_file p = prim
     (\<lambda>f. case node_at f p of
            None \<Rightarrow> (Inl not_found, f)
          | Some (Dir _) \<Rightarrow> (Inl is_a_directory, f)
          | Some _ \<Rightarrow> (case parent_error f p of
                       None \<Rightarrow> (Inr (), del_node p f) | Some e \<Rightarrow> (Inl e, f)))
     (\<lambda>_ f. f)"

text \<open>
  \<open>remove_dir_all\<close> empties the tree from its leaves and stops at the first entry whose directory
  may not be read or written; what it already deleted stays deleted.
\<close>

definition longest_first :: "path list \<Rightarrow> path list" where
  "longest_first = sort_key (\<lambda>p. - int (length p))"

definition tree_of :: "fs \<Rightarrow> path \<Rightarrow> path list" where
  "tree_of f p = longest_first (map fst (filter (\<lambda>(q, _). under p q) f))"

definition can_empty :: "fs \<Rightarrow> path \<Rightarrow> bool" where
  "can_empty f q \<longleftrightarrow> (case node_at f q of Some (Dir m) \<Rightarrow> readable m | _ \<Rightarrow> True)"

fun unlink_all :: "path list \<Rightarrow> fs \<Rightarrow> unit res \<times> fs" where
  "unlink_all [] f = (Inr (), f)"
| "unlink_all (q # qs) f =
     (if \<not> can_empty f q then (Inl denied, f)
      else case parent_error f q of
        Some e \<Rightarrow> (Inl e, f)
      | None \<Rightarrow> unlink_all qs (del_node q f))"

definition remove_dir_all :: "path \<Rightarrow> unit io" where
  "remove_dir_all p = prim
     (\<lambda>f. case node_at f p of
            None \<Rightarrow> (Inl not_found, f)
          | Some (File _) \<Rightarrow> (Inl not_a_directory, f)
          | Some _ \<Rightarrow> unlink_all (tree_of f p) f)
     (\<lambda>k f. if is_file_node (node_at f p) then f else snd (unlink_all (take k (tree_of f p)) f))"

text \<open>\<open>rename\<close> is one step: the tree is at its old place or at its new one. A directory replaces
  an empty directory only, and anything else replaces anything but a directory.\<close>

definition move_path :: "path \<Rightarrow> path \<Rightarrow> path \<Rightarrow> path" where
  "move_path a b q = (if under a q then b @ drop (length a) q else q)"

definition rename_node :: "path \<Rightarrow> path \<Rightarrow> fs \<Rightarrow> unit res \<times> fs" where
  "rename_node a b f =
     (case node_at f a of
        None \<Rightarrow> (Inl not_found, f)
      | Some n \<Rightarrow>
         (case (parent_error f a, parent_error f b) of
            (Some e, _) \<Rightarrow> (Inl e, f)
          | (None, Some e) \<Rightarrow> (Inl e, f)
          | (None, None) \<Rightarrow>
              if a = b then (Inr (), f)
              else if is_dir_node (Some n) \<and> under a b then (Inl (Io ''Invalid argument''), f)
              else if is_dir_node (Some n) \<noteq> is_dir_node (node_at f b) \<and> node_at f b \<noteq> None
                then (Inl (if is_dir_node (Some n) then not_a_directory else is_a_directory), f)
              else if list_ex (\<lambda>(q, _). under b q \<and> q \<noteq> b) f then (Inl not_empty, f)
              else (Inr (), map (\<lambda>(q, m). (move_path a b q, m)) (del_node b f))))"

definition rename :: "path \<Rightarrow> path \<Rightarrow> unit io" where
  "rename a b = prim (rename_node a b) (\<lambda>_ f. f)"

definition symlink :: "path \<Rightarrow> path \<Rightarrow> unit io" where
  "symlink target p = prim
     (\<lambda>f. if node_at f p \<noteq> None then (Inl exists_already, f)
          else case parent_error f p of
            Some e \<Rightarrow> (Inl e, f) | None \<Rightarrow> (Inr (), set_node p (Symlink target) f))
     (\<lambda>_ f. f)"

definition set_permissions :: "path \<Rightarrow> 32 word \<Rightarrow> unit io" where
  "set_permissions p m = prim
     (\<lambda>f. case node_at f p of
            Some (Dir _) \<Rightarrow> (Inr (), set_node p (Dir m) f)
          | None \<Rightarrow> (Inl not_found, f)
          | Some _ \<Rightarrow> (Inr (), f))
     (\<lambda>_ f. f)"

text \<open>A library that unpacks an archive: its entries one by one, a part of them when it fails.\<close>

fun put_entries :: "path \<Rightarrow> (path \<times> node) list \<Rightarrow> fs \<Rightarrow> fs" where
  "put_entries p [] f = f"
| "put_entries p ((q, n) # es) f = put_entries p es (set_node (p @ q) n f)"

definition unpack_entries :: "path \<Rightarrow> (path \<times> node) list res \<Rightarrow> unit io" where
  "unpack_entries p es = prim
     (\<lambda>f. case make_dirs (ancestors p) f of
            (Inl e, g) \<Rightarrow> (Inl e, g)
          | (Inr _, g) \<Rightarrow>
              (case es of Inl e \<Rightarrow> (Inl e, g) | Inr xs \<Rightarrow> (Inr (), put_entries p xs g)))
     (\<lambda>k f. case make_dirs (ancestors p) f of
            (Inl _, g) \<Rightarrow> g
          | (Inr _, g) \<Rightarrow> (case es of Inl _ \<Rightarrow> g | Inr xs \<Rightarrow> put_entries p (take k xs) g))"

section \<open>What the calls leave alone\<close>

lemma node_at_set_node: "node_at (set_node p n f) q = (if q = p then Some n else node_at f q)"
  unfolding node_at_def by (induction f) auto

lemma node_at_del_node: "node_at (del_node p f) q = (if q = p then None else node_at f q)"
  unfolding node_at_def del_node_def by (induction f) auto

lemma under_refl [simp]: "under p p"
  by (simp add: under_def)

lemma under_iff: "under p q \<longleftrightarrow> (\<exists>x. q = p @ x)"
  unfolding under_def by (metis append_eq_conv_conj append_take_drop_id)

lemma under_trans: "under p q \<Longrightarrow> under q r \<Longrightarrow> under p r"
  by (auto simp: under_iff)

lemma under_append [simp]: "under p (p @ x)"
  by (simp add: under_iff)

lemma set_ancestors: "q \<in> set (ancestors p) \<longleftrightarrow> q \<noteq> [] \<and> under q p"
proof
  assume "q \<in> set (ancestors p)"
  then show "q \<noteq> [] \<and> under q p"
    by (auto simp: ancestors_def under_def)
next
  assume *: "q \<noteq> [] \<and> under q p"
  then have "q = take (length q) p" "1 \<le> length q" "length q \<le> length p"
    by (auto simp: under_def Suc_le_eq) (metis length_take min.cobounded1)
  then show "q \<in> set (ancestors p)"
    unfolding ancestors_def by (metis (mono_tags, lifting) atLeastLessThan_iff image_eqI image_set le_imp_less_Suc set_upt)
qed

text \<open>\<open>same_on P f g\<close>: the two file systems hold the same at every path of \<open>P\<close>.\<close>

definition same_on :: "(path \<Rightarrow> bool) \<Rightarrow> fs \<Rightarrow> fs \<Rightarrow> bool" where
  "same_on P f g \<longleftrightarrow> (\<forall>p. P p \<longrightarrow> node_at g p = node_at f p)"

lemma same_on_refl [simp]: "same_on P f f"
  by (simp add: same_on_def)

lemma same_on_trans: "same_on P f g \<Longrightarrow> same_on P g h \<Longrightarrow> same_on P f h"
  by (simp add: same_on_def)

lemma same_on_set_node: "\<not> P p \<Longrightarrow> same_on P f (set_node p n f)"
  by (auto simp: same_on_def node_at_set_node)

lemma same_on_del_node: "\<not> P p \<Longrightarrow> same_on P f (del_node p f)"
  by (auto simp: same_on_def node_at_del_node)

lemma same_on_write: "\<not> P p \<Longrightarrow> same_on P f (snd (write_node p c f))"
  by (auto simp: write_node_def same_on_set_node split: option.splits node.splits)

lemma same_on_make_dir: "\<not> P p \<or> stat f p \<noteq> None \<Longrightarrow> same_on P f (snd (make_dir p f))"
  by (auto simp: make_dir_def same_on_set_node split: option.splits node.splits)

lemma same_on_make_dirs: "\<forall>p \<in> set ps. \<not> P p \<Longrightarrow> same_on P f (snd (make_dirs ps f))"
proof (induction ps arbitrary: f)
  case (Cons p ps)
  obtain r g where g: "make_dir p f = (r, g)" by fastforce
  with Cons.prems same_on_make_dir [of P p f] have "same_on P f g" by simp
  with Cons g show ?case by (auto split: sum.splits intro: same_on_trans)
qed simp

lemma same_on_unlink: "\<forall>q \<in> set qs. \<not> P q \<Longrightarrow> same_on P f (snd (unlink_all qs f))"
proof (induction qs arbitrary: f)
  case (Cons q qs)
  then have "same_on P f (del_node q f)" by (simp add: same_on_del_node)
  with Cons show ?case by (auto split: option.splits intro: same_on_trans)
qed simp

lemma set_tree_of: "set (tree_of f p) = {q. under p q \<and> node_at f q \<noteq> None}"
  unfolding tree_of_def longest_first_def node_at_def
  by (auto simp: map_of_eq_None_iff image_iff)

lemma same_on_put_entries: "\<forall>q. under p q \<longrightarrow> \<not> P q \<Longrightarrow> same_on P f (put_entries p es f)"
proof (induction p es f rule: put_entries.induct)
  case (2 p q n es f)
  then have "same_on P f (set_node (p @ q) n f)" by (simp add: same_on_set_node)
  with 2 show ?case by (auto intro: same_on_trans)
qed simp

lemma node_at_moved:
  assumes "\<not> under b p" "\<not> under a p"
  shows "node_at (map (\<lambda>(q, m). (move_path a b q, m)) f) p = node_at f p"
  unfolding node_at_def
proof (induction f)
  case (Cons x f)
  then show ?case using assms by (cases x) (auto simp: move_path_def)
qed simp

lemma same_on_rename:
  assumes "\<forall>q. under a q \<or> under b q \<longrightarrow> \<not> P q"
  shows "same_on P f (snd (rename_node a b f))"
proof -
  have "same_on P f (map (\<lambda>(q, m). (move_path a b q, m)) (del_node b f))"
    using assms unfolding same_on_def
    by (metis node_at_moved node_at_del_node under_refl)
  then show ?thesis by (auto simp: rename_node_def split: option.splits)
qed

text \<open>The tree at its new place.\<close>

lemma node_at_moved_tree:
  assumes "\<not> list_ex (\<lambda>(q, _). under b q \<and> q \<noteq> b) f" "\<not> under a b"
  shows "node_at (map (\<lambda>(q, m). (move_path a b q, m)) (del_node b f)) (b @ x) = node_at f (a @ x)"
  using assms unfolding node_at_def del_node_def
proof (induction f)
  case (Cons y f)
  obtain q m where y: "y = (q, m)" by fastforce
  show ?case
  proof (cases "under a q")
    case True
    then obtain z where z: "q = a @ z" by (auto simp: under_iff)
    then have "q \<noteq> b" using Cons.prems(2) by auto
    with Cons y z show ?thesis by (auto simp: move_path_def)
  next
    case False
    then have "move_path a b q = q" "q \<noteq> a @ x" by (auto simp: move_path_def under_iff)
    moreover have "q = b \<or> q \<noteq> b @ x" using Cons.prems(1) y by auto
    ultimately show ?thesis using Cons y by auto
  qed
qed simp

lemma rename_node_Inr:
  assumes "rename_node a b f = (Inr u, g)" "a \<noteq> b" "\<not> under a b"
  shows "node_at g (b @ x) = node_at f (a @ x)" and "node_at f a \<noteq> None"
  using assms node_at_moved_tree [of b f a x]
  by (auto simp: rename_node_def split: option.splits if_splits)

lemma unlink_all_Inr:
  assumes "unlink_all qs f = (Inr u, g)"
  shows "node_at g q = (if q \<in> set qs then None else node_at f q)"
  using assms
proof (induction qs arbitrary: f)
  case (Cons r qs)
  then show ?case by (auto simp: node_at_del_node split: if_splits option.splits)
qed simp

lemma unlink_all_sub:
  "node_at (snd (unlink_all qs f)) q = None \<or> node_at (snd (unlink_all qs f)) q = node_at f q"
proof (induction qs arbitrary: f)
  case (Cons r qs)
  have "node_at (del_node r f) q = None \<or> node_at (del_node r f) q = node_at f q"
    by (simp add: node_at_del_node)
  moreover have "snd (unlink_all (r # qs) f) = f \<or>
      snd (unlink_all (r # qs) f) = snd (unlink_all qs (del_node r f))"
    by (auto split: option.splits)
  ultimately show ?case using Cons.IH [of "del_node r f"] by auto
qed simp

section \<open>Invariants of the file system\<close>

lemma keeps_prim:
  assumes "\<And>f. I f \<Longrightarrow> I (snd (eff f))" "\<And>k f. I f \<Longrightarrow> I (part k f)"
  shows "keeps (\<lambda>w. I (fs w)) (prim eff part)"
proof (rule keepsI)
  fix w r t assume I: "I (fs w)" and t: "prim eff part w = (r, t)"
  have "fs t = fs w \<or> fs t = snd (eff (fs w)) \<or> (\<exists>k. fs t = part k (fs w))"
    using t by (cases "eff (fs w)") (auto simp: prim_def Let_def split: option.splits nat.splits)
  with I assms show "I (fs t)" by auto
qed

lemma prim_Inr:
  "prim eff part w = (Inr x, t) \<Longrightarrow>
   fault w (tick w) = None \<and> eff (fs w) = (Inr x, fs t) \<and> fault t = fault w"
  by (cases "eff (fs w)") (auto simp: prim_def Let_def split: option.splits nat.splits)

lemma query_Inr: "query q w = (Inr x, t) \<Longrightarrow> q (fs w) = Inr x \<and> fs t = fs w"
  unfolding query_def by (drule prim_Inr) auto

lemma keeps_query [keeps_intros]: "keeps (\<lambda>w. I (fs w)) (query q)"
  unfolding query_def by (rule keeps_prim) auto

lemma keeps_eprint [keeps_intros]: "keeps (\<lambda>w. I (fs w)) (eprint s)"
  by (simp add: keeps_def eprint_def)

lemma keeps_println [keeps_intros]: "keeps (\<lambda>w. I (fs w)) (println s)"
  by (simp add: keeps_def println_def)

lemma keeps_asking [keeps_intros]: "keeps (\<lambda>w. I (fs w)) (asking q)"
  unfolding asking_def by (intro keeps_intros)

lemma keeps_reads [keeps_intros]:
  "keeps (\<lambda>w. I (fs w)) (path_exists p)" "keeps (\<lambda>w. I (fs w)) (is_file p)"
  "keeps (\<lambda>w. I (fs w)) (is_dir p)" "keeps (\<lambda>w. I (fs w)) (symlink_metadata p)"
  "keeps (\<lambda>w. I (fs w)) (read_link p)" "keeps (\<lambda>w. I (fs w)) (read_file p)"
  "keeps (\<lambda>w. I (fs w)) (read_dir p)"
  unfolding path_exists_def is_file_def is_dir_def symlink_metadata_def read_link_def read_file_def
    read_dir_def by (intro keeps_intros)+

text \<open>
  An invariant that only depends on what is held at the paths of \<open>P\<close> is kept by every call that
  works elsewhere, whether the call succeeds, fails or fails half way.
\<close>

locale protected =
  fixes P :: "path \<Rightarrow> bool" and I :: "fs \<Rightarrow> bool"
  assumes stable: "I f \<Longrightarrow> same_on P f g \<Longrightarrow> I g"
begin

lemma prim_stable:
  "(\<And>f. same_on P f (snd (eff f))) \<Longrightarrow> (\<And>k f. same_on P f (part k f)) \<Longrightarrow>
   keeps (\<lambda>w. I (fs w)) (prim eff part)"
  by (rule keeps_prim) (blast intro: stable)+

lemma write_file: "\<not> P p \<Longrightarrow> keeps (\<lambda>w. I (fs w)) (write_file p c)"
  unfolding write_file_def by (rule prim_stable) (simp_all add: same_on_write)

lemma create_dir_all:
  "\<forall>q. q \<noteq> [] \<and> under q p \<longrightarrow> \<not> P q \<Longrightarrow> keeps (\<lambda>w. I (fs w)) (create_dir_all p)"
  unfolding create_dir_all_def
  by (rule prim_stable; rule same_on_make_dirs) (auto simp: set_ancestors dest: in_set_takeD)

lemma remove_file: "\<not> P p \<Longrightarrow> keeps (\<lambda>w. I (fs w)) (remove_file p)"
  unfolding remove_file_def
  by (rule prim_stable) (auto simp: same_on_del_node split: option.splits node.splits)

lemma remove_dir_all: "\<forall>q. under p q \<longrightarrow> \<not> P q \<Longrightarrow> keeps (\<lambda>w. I (fs w)) (remove_dir_all p)"
  unfolding remove_dir_all_def
  by (rule prim_stable)
    (auto simp: set_tree_of simp del: unlink_all.simps split: option.splits node.splits
      intro!: same_on_unlink dest: in_set_takeD)

lemma rename:
  "\<forall>q. under a q \<or> under b q \<longrightarrow> \<not> P q \<Longrightarrow> keeps (\<lambda>w. I (fs w)) (rename a b)"
  unfolding rename_def by (rule prim_stable) (simp_all add: same_on_rename)

lemma symlink: "\<not> P p \<Longrightarrow> keeps (\<lambda>w. I (fs w)) (symlink t p)"
  unfolding symlink_def
  by (rule prim_stable) (auto simp: same_on_set_node split: option.splits)

lemma set_permissions: "\<not> P p \<Longrightarrow> keeps (\<lambda>w. I (fs w)) (set_permissions p m)"
  unfolding set_permissions_def
  by (rule prim_stable) (auto simp: same_on_set_node split: option.splits node.splits)

lemma unpack:
  assumes "\<forall>q. q \<noteq> [] \<and> (under q p \<or> under p q) \<longrightarrow> \<not> P q" "p \<noteq> []"
  shows "keeps (\<lambda>w. I (fs w)) (unpack_entries p es)"
proof -
  have d: "same_on P f (snd (make_dirs (ancestors p) f))" for f
    by (rule same_on_make_dirs) (use assms in \<open>auto simp: set_ancestors\<close>)
  have e: "same_on P f (put_entries p xs f)" for xs f
    by (rule same_on_put_entries) (use assms in \<open>auto simp: under_iff\<close>)
  have "same_on P f (put_entries p xs (snd (make_dirs (ancestors p) f)))" for xs f
    using d e by (blast intro: same_on_trans)
  then show ?thesis unfolding unpack_entries_def
    using d by (intro prim_stable) (auto split: prod.splits sum.splits, (metis snd_conv)+)
qed

lemmas elsewhere = write_file create_dir_all remove_file remove_dir_all rename symlink
  set_permissions unpack

end

section \<open>Trees\<close>

text \<open>Everything but the root lies in a directory.\<close>

definition wf_fs :: "fs \<Rightarrow> bool" where
  "wf_fs f \<longleftrightarrow> (\<forall>p. node_at f p \<noteq> None \<and> butlast p \<noteq> [] \<longrightarrow> is_dir_node (node_at f (butlast p)))"

lemma is_dir_node_simps [simp]:
  "is_dir_node (Some (Dir m))" "\<not> is_dir_node (Some (File c))" "\<not> is_dir_node (Some (Symlink t))"
  "\<not> is_dir_node None"
  by (simp_all add: is_dir_node_def)

lemma is_dir_node_iff: "is_dir_node n \<longleftrightarrow> (\<exists>m. n = Some (Dir m))"
  by (auto simp: is_dir_node_def split: option.splits node.splits)

lemma wf_under:
  assumes "wf_fs f" "node_at f (p @ x) \<noteq> None" "p \<noteq> []" "x \<noteq> []"
  shows "is_dir_node (node_at f p)"
  using assms
proof (induction x rule: rev_induct)
  case (snoc c x)
  then have d: "is_dir_node (node_at f (p @ x))"
    unfolding wf_fs_def by (metis Nil_is_append_conv append_assoc butlast_snoc)
  show ?case
  proof (cases "x = []")
    case False
    have "node_at f (p @ x) \<noteq> None" using d by (auto simp: is_dir_node_iff)
    with snoc False show ?thesis by blast
  qed (use d in simp)
qed simp

lemma wf_absent: "wf_fs f \<Longrightarrow> p \<noteq> [] \<Longrightarrow> \<not> is_dir_node (node_at f p) \<Longrightarrow> under p q \<Longrightarrow> q \<noteq> p \<Longrightarrow> node_at f q = None"
  using wf_under [of f p] by (fastforce simp: under_iff)

lemma wf_set_node:
  assumes "wf_fs f" "butlast p \<noteq> [] \<longrightarrow> is_dir_node (node_at f (butlast p))"
    "is_dir_node (Some n) \<or> \<not> is_dir_node (node_at f p)"
  shows "wf_fs (set_node p n f)"
proof (cases "p = []")
  case True
  with assms show ?thesis by (auto simp: wf_fs_def node_at_set_node split: if_splits)
next
  case False
  have "butlast q \<noteq> q" if "q \<noteq> []" for q :: path
    using that by (metis length_butlast diff_less length_greater_0_conv zero_less_one nat_neq_iff)
  then show ?thesis using assms False
    unfolding wf_fs_def node_at_set_node by (metis option.distinct(1) butlast.simps(1))
qed

lemma wf_del_node:
  assumes "wf_fs f" "\<forall>c. node_at f (p @ [c]) = None" "p \<noteq> []"
  shows "wf_fs (del_node p f)"
  unfolding wf_fs_def node_at_del_node
proof (intro allI impI)
  fix q assume *: "(if q = p then None else node_at f q) \<noteq> None \<and> butlast q \<noteq> []"
  then have q: "node_at f q \<noteq> None" "butlast q \<noteq> []" by (auto split: if_splits)
  then have "butlast q \<noteq> p"
    using assms(2) by (metis append_butlast_last_id butlast.simps(1))
  with q assms(1) show "is_dir_node (if butlast q = p then None else node_at f (butlast q))"
    by (auto simp: wf_fs_def)
qed

lemma parent_error_None: "parent_error f p = None \<Longrightarrow> is_dir_node (node_at f (butlast p))"
  by (auto simp: parent_error_def split: option.splits node.splits if_splits)

lemma wf_write: "wf_fs f \<Longrightarrow> wf_fs (snd (write_node p c f))"
proof -
  assume wf: "wf_fs f"
  then have "node_at f p \<noteq> None \<Longrightarrow> butlast p \<noteq> [] \<Longrightarrow> is_dir_node (node_at f (butlast p))"
    by (simp add: wf_fs_def)
  with wf show ?thesis
    by (auto simp: write_node_def split: option.splits node.splits
        intro!: wf_set_node dest: parent_error_None)
qed

lemma stat_None: "stat f p = None \<Longrightarrow> \<not> is_dir_node (node_at f p)"
  by (auto simp: stat_def eval_nat_numeral is_dir_node_iff split: option.splits node.splits)

lemma wf_make_dir: "wf_fs f \<Longrightarrow> wf_fs (snd (make_dir p f))"
  by (auto simp: make_dir_def split: option.splits node.splits intro!: wf_set_node dest: parent_error_None)

lemma wf_make_dirs: "wf_fs f \<Longrightarrow> wf_fs (snd (make_dirs ps f))"
proof (induction ps arbitrary: f)
  case (Cons p ps)
  then show ?case using wf_make_dir [of f p] by (auto split: prod.splits sum.splits)
qed simp

lemma sorted_longest_first: "sorted_wrt (\<lambda>p q. length q \<le> length p) (longest_first ps)"
proof -
  have "sorted (map (\<lambda>p. - int (length p)) (longest_first ps))"
    unfolding longest_first_def by (rule sorted_sort_key)
  then show ?thesis by (simp add: sorted_wrt_map)
qed

lemma wf_unlink:
  assumes "wf_fs f" "sorted_wrt (\<lambda>p q. length q \<le> length p) qs"
    "\<forall>q. under p q \<and> node_at f q \<noteq> None \<longrightarrow> q \<in> set qs" "\<forall>q \<in> set qs. under p q" "p \<noteq> []"
  shows "wf_fs (snd (unlink_all (take k qs) f))"
  using assms
proof (induction qs arbitrary: f k)
  case (Cons q qs)
  show ?case
  proof (cases k)
    case (Suc j)
    have none: "node_at f (q @ [c]) = None" for c
    proof (rule ccontr)
      assume "node_at f (q @ [c]) \<noteq> None"
      moreover have "under p (q @ [c])" using Cons.prems(4) by (auto simp: under_iff)
      ultimately have "q @ [c] \<in> set (q # qs)" using Cons.prems(3) by blast
      then have "length (q @ [c]) \<le> length q" using Cons.prems(2) by auto
      then show False by simp
    qed
    moreover have "q \<noteq> []" using Cons.prems(4,5) by (auto simp: under_iff)
    ultimately have "wf_fs (del_node q f)" using Cons.prems(1) by (intro wf_del_node) auto
    then have "wf_fs (snd (unlink_all (take j qs) (del_node q f)))"
      using Cons.prems by (intro Cons.IH) (auto simp: node_at_del_node)
    with Suc Cons.prems(1) show ?thesis by (auto split: option.splits)
  qed (use Cons in simp)
qed simp

lemma wf_unlink_tree: "wf_fs f \<Longrightarrow> p \<noteq> [] \<Longrightarrow> wf_fs (snd (unlink_all (take k (tree_of f p)) f))"
  by (rule wf_unlink) (simp_all add: set_tree_of, simp add: tree_of_def sorted_longest_first)

lemma wf_unlink_tree_all: "wf_fs f \<Longrightarrow> p \<noteq> [] \<Longrightarrow> wf_fs (snd (unlink_all (tree_of f p) f))"
  using wf_unlink_tree [of f p "length (tree_of f p)"] by simp

lemma node_at_moved_gone:
  assumes "under a p" "\<not> under b p"
  shows "node_at (map (\<lambda>(q, m). (move_path a b q, m)) f) p = None"
  using assms unfolding node_at_def
proof (induction f)
  case (Cons x f)
  have "move_path a b (fst x) \<noteq> p" using assms by (auto simp: move_path_def)
  with Cons show ?case by (cases x) auto
qed simp

lemma under_butlast: "under p q \<Longrightarrow> p \<noteq> q \<Longrightarrow> under p (butlast q)"
  by (auto simp: under_iff butlast_append)

lemma under_of_butlast: "under p (butlast q) \<Longrightarrow> under p q"
  unfolding under_iff by (cases q rule: rev_cases) auto

lemma wf_rename:
  assumes wf: "wf_fs f" and a: "a \<noteq> []" and b: "b \<noteq> []"
  shows "wf_fs (snd (rename_node a b f))"
proof -
  let ?g = "map (\<lambda>(q, m). (move_path a b q, m)) (del_node b f)"
  have "wf_fs ?g" if n: "node_at f a = Some n" and pb: "is_dir_node (node_at f (butlast b))"
    and no: "\<not> list_ex (\<lambda>(q, _). under b q \<and> q \<noteq> b) f"
    and ab: "is_dir_node (Some n) \<longrightarrow> \<not> under a b" "a \<noteq> b" for n
  proof -
    have nab: "\<not> under a b"
    proof
      assume u: "under a b"
      then obtain x where x: "butlast b = a @ x" using under_butlast [OF u ab(2)] under_iff by auto
      moreover from pb have "node_at f (butlast b) \<noteq> None" by (auto simp: is_dir_node_iff)
      ultimately have "is_dir_node (node_at f a)"
        using wf_under [OF wf, of a x] pb a by (cases "x = []") auto
      with n ab(1) u show False by simp
    qed
    have gq: "node_at ?g q = node_at f q" if "\<not> under b q" "\<not> under a q" for q
      using that node_at_moved [of b q a] by (simp add: node_at_del_node) (metis under_refl)
    show ?thesis unfolding wf_fs_def
    proof (intro allI impI)
      fix p assume p: "node_at ?g p \<noteq> None \<and> butlast p \<noteq> []"
      consider x where "p = b @ x" | "\<not> under b p" "\<not> under a p"
        using p node_at_moved_gone [of a p b "del_node b f"] under_iff [of b p] by metis
      then show "is_dir_node (node_at ?g (butlast p))"
      proof cases
        case (1 x)
        show ?thesis
        proof (cases "x = []")
          case True
          have "length (butlast b) < length b" using b by simp
          then have "\<not> under b (butlast b)" by (auto simp: under_iff dest: arg_cong [where f = length])
          moreover have "\<not> under a (butlast b)" using nab under_of_butlast by blast
          ultimately show ?thesis using gq pb 1 True by simp
        next
          case False
          have "node_at f (a @ x) \<noteq> None"
            using p 1 node_at_moved_tree [OF no nab] by simp
          moreover have "butlast (a @ x) \<noteq> []" using a False by (simp add: butlast_append)
          ultimately have "is_dir_node (node_at f (a @ butlast x))"
            using wf False unfolding wf_fs_def by (metis butlast_append)
          then show ?thesis
            using 1 False node_at_moved_tree [OF no nab, of "butlast x"] by (simp add: butlast_append)
        qed
      next
        case 2
        then have "\<not> under b (butlast p)" "\<not> under a (butlast p)"
          using under_of_butlast by blast+
        with 2 gq p wf show ?thesis by (simp add: wf_fs_def)
      qed
    qed
  qed
  then show ?thesis using wf
    by (auto simp: rename_node_def split: option.splits dest!: parent_error_None)
qed

text \<open>An archive whose entries come after the directories they lie in, as archives are written.\<close>

fun ordered_entries :: "path list \<Rightarrow> (path \<times> node) list \<Rightarrow> bool" where
  "ordered_entries ds [] \<longleftrightarrow> True"
| "ordered_entries ds ((q, n) # es) \<longleftrightarrow>
     (q \<in> set ds \<longrightarrow> is_dir_node (Some n)) \<and> q \<noteq> [] \<and> butlast q \<in> set ds \<and>
     ordered_entries (if is_dir_node (Some n) then q # ds else ds) es"

lemma wf_put_entries:
  assumes "wf_fs f" "ordered_entries ds es" "\<forall>d \<in> set ds. is_dir_node (node_at f (p @ d))"
    "\<forall>q. is_dir_node (node_at f (p @ q)) \<longrightarrow> q \<in> set ds"
  shows "wf_fs (put_entries p (take k es) f)"
  using assms
proof (induction es arbitrary: ds f k)
  case (Cons e es)
  obtain q n where e: "e = (q, n)" by fastforce
  show ?case
  proof (cases k)
    case (Suc j)
    have "wf_fs (set_node (p @ q) n f)"
    proof (rule wf_set_node)
      show "is_dir_node (Some n) \<or> \<not> is_dir_node (node_at f (p @ q))"
        using Cons.prems e by auto
    qed (use Cons.prems e in \<open>auto simp: butlast_append\<close>)
    then have "wf_fs (put_entries p (take j es) (set_node (p @ q) n f))"
      using Cons.prems e by (intro Cons.IH [of _ "if is_dir_node (Some n) then q # ds else ds"])
        (auto simp: node_at_set_node split: if_splits)
    then show ?thesis by (simp add: Suc e)
  qed (use Cons in simp)
qed simp

lemma node_at_put_entries:
  "ordered_entries ds es \<Longrightarrow> node_at (put_entries p es f) (p @ q) =
     (case map_of (rev es) q of None \<Rightarrow> node_at f (p @ q) | Some n \<Rightarrow> Some n)"
proof (induction es arbitrary: f ds)
  case (Cons e es)
  obtain r n where e: "e = (r, n)" by fastforce
  with Cons show ?case
    by (auto simp: node_at_set_node map_add_def split: option.splits if_splits)
qed simp

section \<open>Every call keeps the file system well formed\<close>

lemma keeps_wf [keeps_intros]:
  "keeps (\<lambda>w. wf_fs (fs w)) (write_file p c)"
  "keeps (\<lambda>w. wf_fs (fs w)) (create_dir_all p)"
  "keeps (\<lambda>w. wf_fs (fs w)) (symlink t p)"
  "keeps (\<lambda>w. wf_fs (fs w)) (set_permissions p m)"
  "p \<noteq> [] \<Longrightarrow> keeps (\<lambda>w. wf_fs (fs w)) (remove_dir_all p)"
  "a \<noteq> [] \<Longrightarrow> b \<noteq> [] \<Longrightarrow> keeps (\<lambda>w. wf_fs (fs w)) (rename a b)"
  "p \<noteq> [] \<Longrightarrow> keeps (\<lambda>w. wf_fs (fs w)) (remove_file p)"
proof -
  show "keeps (\<lambda>w. wf_fs (fs w)) (write_file p c)"
    unfolding write_file_def by (rule keeps_prim) (simp_all add: wf_write)
  show "keeps (\<lambda>w. wf_fs (fs w)) (create_dir_all p)"
    unfolding create_dir_all_def by (rule keeps_prim) (simp_all add: wf_make_dirs)
  show "keeps (\<lambda>w. wf_fs (fs w)) (symlink t p)"
    unfolding symlink_def
    by (rule keeps_prim) (auto split: option.splits intro!: wf_set_node dest: parent_error_None)
  show "keeps (\<lambda>w. wf_fs (fs w)) (set_permissions p m)"
  proof -
    have "wf_fs (set_node p (Dir m) f)" if "wf_fs f" "node_at f p = Some (Dir k)" for f k
      by (rule wf_set_node) (use that in \<open>auto simp: wf_fs_def\<close>)
    then show ?thesis unfolding set_permissions_def
      by (intro keeps_prim) (auto split: option.splits node.splits)
  qed
  show "p \<noteq> [] \<Longrightarrow> keeps (\<lambda>w. wf_fs (fs w)) (remove_dir_all p)"
    unfolding remove_dir_all_def
    by (rule keeps_prim) (auto simp: wf_unlink_tree wf_unlink_tree_all split: option.splits node.splits)
  show "a \<noteq> [] \<Longrightarrow> b \<noteq> [] \<Longrightarrow> keeps (\<lambda>w. wf_fs (fs w)) (rename a b)"
    unfolding rename_def by (rule keeps_prim) (simp_all add: wf_rename)
  show "p \<noteq> [] \<Longrightarrow> keeps (\<lambda>w. wf_fs (fs w)) (remove_file p)"
  proof -
    assume p: "p \<noteq> []"
    have "wf_fs (del_node p f)" if wf: "wf_fs f" and "\<not> is_dir_node (node_at f p)" for f
      using wf_absent [OF wf p that(2)] by (intro wf_del_node wf p) auto
    then show ?thesis unfolding remove_file_def
      by (intro keeps_prim) (auto split: option.splits node.splits)
  qed
qed

end
