(* ===== verification/App_Config.thy ===== *)
theory App_Config
  imports Climate_Prelude
begin

text \<open>
  The data of \<open>src/config.rs\<close>: the structs of an app definition, how a TOML table becomes one
  (the \<open>serde\<close> attributes of the structs, written out as functions on the table), and the
  merge of an override into a definition. Parsing TOML text and the names of capabilities
  belong to libraries and are parameters.
\<close>

section \<open>Floating point\<close>

text \<open>
  An \<open>f64\<close> that is finite is \<open>Finite m e\<close> with the value \<open>m * 2 ^ e\<close>. \<open>fl_round\<close> rounds such a
  value to the nearest double, ties to even.
\<close>

datatype f64 = NaN | Infinity | NegInfinity | Finite int int

fun bitlen :: "nat \<Rightarrow> nat" where
  "bitlen n = (if n = 0 then 0 else Suc (bitlen (n div 2)))"

declare bitlen.simps [simp del]

definition round_half_even :: "int \<Rightarrow> nat \<Rightarrow> int" where
  "round_half_even m k =
     (let q = m div 2 ^ k; r = 2 * (m mod 2 ^ k)
      in if r < 2 ^ k then q else if r > 2 ^ k then q + 1 else if even q then q else q + 1)"

definition fl_round :: "int \<Rightarrow> int \<Rightarrow> f64" where
  "fl_round m e =
     (let k = nat (max (int (bitlen (nat \<bar>m\<bar>)) - 53) (- 1074 - e));
          q = round_half_even \<bar>m\<bar> k
      in if int (bitlen (nat q)) + e + int k > 1024
         then (if m < 0 then NegInfinity else Infinity)
         else Finite (sgn m * q) (e + int k))"

text \<open>\<open>f64::round\<close>, half away from zero, followed by the saturating cast \<open>as i64\<close>.\<close>

definition i64_min :: int where "i64_min = - (2 ^ 63)"
definition i64_max :: int where "i64_max = 2 ^ 63 - 1"

definition round_as_i64 :: "f64 \<Rightarrow> int" where
  "round_as_i64 x =
     (case x of
        NaN \<Rightarrow> 0
      | Infinity \<Rightarrow> i64_max
      | NegInfinity \<Rightarrow> i64_min
      | Finite m e \<Rightarrow>
          let r = (if 0 \<le> e then m * 2 ^ nat e
                   else sgn m * ((\<bar>m\<bar> + 2 ^ (nat (- e) - 1)) div 2 ^ nat (- e)))
          in max i64_min (min i64_max r))"

section \<open>TOML values\<close>

datatype toml =
    TString string
  | TInteger int
  | TFloat f64
  | TBoolean bool
  | TDatetime string
  | TArray "toml list"
  | TTable "(string \<times> toml) list"

text \<open>A \<open>toml::Table\<close>: an association list whose keys are distinct.\<close>

type_synonym table = "(string \<times> toml) list"

fun put :: "string \<Rightarrow> toml \<Rightarrow> table \<Rightarrow> table" where
  "put k v [] = [(k, v)]"
| "put k v ((k', v') # t) = (if k = k' then (k, v) # t else (k', v') # put k v t)"

section \<open>The structs\<close>

record app_meta =
  name :: string
  description :: string
  license :: string

record image_config =
  reference :: string
  pull :: bool
  install :: "string option"

datatype entrypoint = Entry_String string | Entry_List "string list"

datatype network = Net_Full | Net_None | Net_Localhost | Net_Localnet

text \<open>The capabilities the sources name; the others of the library's enum are \<open>Other_Cap\<close>.\<close>

datatype capability =
    Bpf | Chown | DacOverride | DacReadSearch | Fowner | Fsetid | Perfmon | SysAdmin | SysChroot
  | SysModule | SysPacct | SysPtrace | SysRawio | SysTime | SysTtyConfig | Other_Cap string

record run_config =
  entrypoint :: "entrypoint option"
  args :: "string list"
  env :: "string list"
  mount_cwd :: bool
  mount :: "string list"
  network :: network
  capabilities :: "capability list"
  seccomp_allow :: "string list"
  seccomp_deny :: "string list"

record limits_config =
  memory :: "string option"
  swap :: "string option"
  memory_high :: "string option"
  cpu :: "f64 option"
  cpu_shares :: "int option"
  pids :: "int option"

record app_config =
  app :: app_meta
  image_cfg :: image_config
  run :: run_config
  limits :: limits_config

definition network_default :: network where "network_default = Net_None"

definition run_default :: run_config where
  "run_default = \<lparr>entrypoint = None, args = [], env = [], mount_cwd = True, mount = [],
     network = network_default, capabilities = [], seccomp_allow = [], seccomp_deny = []\<rparr>"

definition limits_default :: limits_config where
  "limits_default = \<lparr>memory = None, swap = None, memory_high = None, cpu = None,
     cpu_shares = None, pids = None\<rparr>"

section \<open>Reading a definition\<close>

fun de_string :: "toml \<Rightarrow> string res" where
  "de_string (TString s) = Inr s"
| "de_string _ = Inl (Ext ''expected a string'')"

fun de_bool :: "toml \<Rightarrow> bool res" where
  "de_bool (TBoolean b) = Inr b"
| "de_bool _ = Inl (Ext ''expected a boolean'')"

fun de_i64 :: "toml \<Rightarrow> int res" where
  "de_i64 (TInteger i) = Inr i"
| "de_i64 _ = Inl (Ext ''expected an integer'')"

fun de_f64 :: "toml \<Rightarrow> f64 res" where
  "de_f64 (TFloat x) = Inr x"
| "de_f64 (TInteger i) = Inr (fl_round i 0)"
| "de_f64 _ = Inl (Ext ''expected a number'')"

fun de_table :: "toml \<Rightarrow> table res" where
  "de_table (TTable t) = Inr t"
| "de_table _ = Inl (Ext ''expected a table'')"

fun de_strings :: "toml \<Rightarrow> string list res" where
  "de_strings (TArray vs) = map_res de_string vs"
| "de_strings _ = Inl (Ext ''expected a list'')"

text \<open>\<open>untagged\<close>: the variants are tried in order.\<close>

definition de_entrypoint :: "toml \<Rightarrow> entrypoint res" where
  "de_entrypoint v =
     (case de_string v of
        Inr s \<Rightarrow> Inr (Entry_String s)
      | Inl _ \<Rightarrow>
          (case de_strings v of
             Inr ss \<Rightarrow> Inr (Entry_List ss)
           | Inl _ \<Rightarrow> Inl (Ext ''data did not match any variant'')))"

definition de_network :: "toml \<Rightarrow> network res" where
  "de_network v = and_then (de_string v) (\<lambda>s.
     if s = ''full'' then Inr Net_Full
     else if s = ''none'' then Inr Net_None
     else if s = ''localhost'' then Inr Net_Localhost
     else if s = ''localnet'' then Inr Net_Localnet
     else Inl (Ext ''unknown variant''))"

text \<open>\<open>caps\<close> is the library's reading of a capability name.\<close>

definition de_capabilities :: "(string \<Rightarrow> capability option) \<Rightarrow> toml \<Rightarrow> capability list res" where
  "de_capabilities caps v = and_then (de_strings v)
     (map_res (\<lambda>s. case caps s of None \<Rightarrow> Inl (Ext ''unknown capability'') | Some c \<Rightarrow> Inr c))"

text \<open>\<open>size\<close>: the integer and the string form are both handed on as a string.\<close>

fun de_size :: "toml \<Rightarrow> string option res" where
  "de_size (TInteger bytes) = Inr (Some (int_str bytes))"
| "de_size (TString txt) = Inr (Some txt)"
| "de_size _ = Inl (Ext ''expected a byte count or a size'')"

definition required :: "table \<Rightarrow> string \<Rightarrow> (toml \<Rightarrow> 'a res) \<Rightarrow> 'a res" where
  "required t k f = (case map_of t k of None \<Rightarrow> Inl (Ext (''missing field '' @ k)) | Some v \<Rightarrow> f v)"

definition defaulted :: "table \<Rightarrow> string \<Rightarrow> 'a \<Rightarrow> (toml \<Rightarrow> 'a res) \<Rightarrow> 'a res" where
  "defaulted t k d f = (case map_of t k of None \<Rightarrow> Inr d | Some v \<Rightarrow> f v)"

definition some_of :: "(toml \<Rightarrow> 'a res) \<Rightarrow> toml \<Rightarrow> 'a option res" where
  "some_of f v = and_then (f v) (\<lambda>x. Inr (Some x))"

definition deny_unknown :: "string list \<Rightarrow> table \<Rightarrow> unit res" where
  "deny_unknown ks t =
     (if list_all (\<lambda>(k, _). List.member ks k) t then Inr () else Inl (Ext ''unknown field''))"

definition app_meta_of :: "table \<Rightarrow> app_meta res" where
  "app_meta_of t =
     and_then (deny_unknown [''name'', ''description'', ''license''] t) (\<lambda>_.
     and_then (required t ''name'' de_string) (\<lambda>n.
     and_then (required t ''description'' de_string) (\<lambda>d.
     and_then (required t ''license'' de_string) (\<lambda>l.
     Inr \<lparr>name = n, description = d, license = l\<rparr>))))"

definition image_config_of :: "table \<Rightarrow> image_config res" where
  "image_config_of t =
     and_then (deny_unknown [''reference'', ''pull'', ''install''] t) (\<lambda>_.
     and_then (required t ''reference'' de_string) (\<lambda>r.
     and_then (defaulted t ''pull'' True de_bool) (\<lambda>p.
     and_then (defaulted t ''install'' None (some_of de_string)) (\<lambda>i.
     Inr \<lparr>reference = r, pull = p, install = i\<rparr>))))"

definition run_keys :: "string list" where
  "run_keys = [''entrypoint'', ''args'', ''env'', ''mount-cwd'', ''mount'', ''network'',
     ''capabilities'', ''seccomp-allow'', ''seccomp-deny'']"

definition run_config_of :: "(string \<Rightarrow> capability option) \<Rightarrow> table \<Rightarrow> run_config res" where
  "run_config_of caps t =
     and_then (deny_unknown run_keys t) (\<lambda>_.
     and_then (defaulted t ''entrypoint'' None (some_of de_entrypoint)) (\<lambda>ep.
     and_then (defaulted t ''args'' [] de_strings) (\<lambda>as.
     and_then (defaulted t ''env'' [] de_strings) (\<lambda>en.
     and_then (defaulted t ''mount-cwd'' True de_bool) (\<lambda>mc.
     and_then (defaulted t ''mount'' [] de_strings) (\<lambda>m.
     and_then (defaulted t ''network'' network_default de_network) (\<lambda>nw.
     and_then (defaulted t ''capabilities'' [] (de_capabilities caps)) (\<lambda>cs.
     and_then (defaulted t ''seccomp-allow'' [] de_strings) (\<lambda>sa.
     and_then (defaulted t ''seccomp-deny'' [] de_strings) (\<lambda>sd.
     Inr \<lparr>entrypoint = ep, args = as, env = en, mount_cwd = mc, mount = m, network = nw,
          capabilities = cs, seccomp_allow = sa, seccomp_deny = sd\<rparr>))))))))))"

definition limits_keys :: "string list" where
  "limits_keys = [''memory'', ''swap'', ''memory-high'', ''cpu'', ''cpu-shares'', ''pids'']"

definition limits_config_of :: "table \<Rightarrow> limits_config res" where
  "limits_config_of t =
     and_then (deny_unknown limits_keys t) (\<lambda>_.
     and_then (defaulted t ''memory'' None de_size) (\<lambda>m.
     and_then (defaulted t ''swap'' None de_size) (\<lambda>s.
     and_then (defaulted t ''memory-high'' None de_size) (\<lambda>h.
     and_then (defaulted t ''cpu'' None (some_of de_f64)) (\<lambda>c.
     and_then (defaulted t ''cpu-shares'' None (some_of de_i64)) (\<lambda>cs.
     and_then (defaulted t ''pids'' None (some_of de_i64)) (\<lambda>p.
     Inr \<lparr>memory = m, swap = s, memory_high = h, cpu = c, cpu_shares = cs, pids = p\<rparr>)))))))"

definition app_config_of :: "(string \<Rightarrow> capability option) \<Rightarrow> table \<Rightarrow> app_config res" where
  "app_config_of caps t =
     and_then (deny_unknown [''app'', ''image'', ''run'', ''limits''] t) (\<lambda>_.
     and_then (required t ''app'' (\<lambda>v. and_then (de_table v) app_meta_of)) (\<lambda>a.
     and_then (required t ''image'' (\<lambda>v. and_then (de_table v) image_config_of)) (\<lambda>i.
     and_then (defaulted t ''run'' run_default (\<lambda>v. and_then (de_table v) (run_config_of caps))) (\<lambda>r.
     and_then (defaulted t ''limits'' limits_default (\<lambda>v. and_then (de_table v) limits_config_of)) (\<lambda>l.
     Inr \<lparr>app = a, image_cfg = i, run = r, limits = l\<rparr>)))))"

section \<open>Overrides\<close>

text \<open>The loop of \<open>merge\<close> over the keys of \<open>over\<close>, changing \<open>base\<close> in place.\<close>

function merge :: "table \<Rightarrow> table \<Rightarrow> table" where
  "merge base [] = base"
| "merge base ((key, value) # over) =
     merge (case (map_of base key, value) of
              (Some (TTable lo), TTable hi) \<Rightarrow> put key (TTable (merge lo hi)) base
            | (_, value) \<Rightarrow> put key value base) over"
  by pat_completeness auto
termination
  by (relation "measure (\<lambda>(b, t). size_list (size_prod (\<lambda>_. 0) size) t)") auto

declare merge.simps(2) [simp del]

section \<open>What a merge gives\<close>

lemma map_of_put: "map_of (put k v t) = (map_of t)(k \<mapsto> v)"
  by (induction t) auto

lemma keys_put: "fst ` set (put k v t) = insert k (fst ` set t)"
proof (induction t)
  case (Cons x t)
  then show ?case by (cases x) (simp add: insert_commute)
qed simp

lemma distinct_put: "distinct (map fst t) \<Longrightarrow> distinct (map fst (put k v t))"
proof (induction t)
  case (Cons x t)
  then show ?case by (cases x) (simp add: keys_put)
qed simp

definition merge_value :: "toml option \<Rightarrow> toml \<Rightarrow> toml" where
  "merge_value b v =
     (case (b, v) of (Some (TTable lo), TTable hi) \<Rightarrow> TTable (merge lo hi) | (_, w) \<Rightarrow> w)"

lemma merge_Cons:
  "merge base ((k, v) # over) = merge (put k (merge_value (map_of base k) v) base) over"
  by (auto simp: merge.simps merge_value_def split: option.splits toml.splits)

lemma map_of_merge:
  "distinct (map fst over) \<Longrightarrow>
   map_of (merge base over) k =
     (case map_of over k of None \<Rightarrow> map_of base k | Some v \<Rightarrow> Some (merge_value (map_of base k) v))"
proof (induction over arbitrary: base)
  case (Cons kv over)
  obtain k' v where kv: "kv = (k', v)" by fastforce
  with Cons.prems have "k' \<notin> fst ` set over" by auto
  then have "map_of over k' = None" by (simp add: map_of_eq_None_iff)
  with Cons kv show ?case by (auto simp: merge_Cons map_of_put split: option.splits)
qed simp

text \<open>The value at a path of keys.\<close>

fun toml_at :: "table \<Rightarrow> string list \<Rightarrow> toml option" where
  "toml_at t [] = Some (TTable t)"
| "toml_at t (k # ks) =
     (case map_of t k of
        None \<Rightarrow> None
      | Some (TTable u) \<Rightarrow> toml_at u ks
      | Some v \<Rightarrow> if ks = [] then Some v else None)"

fun wf_toml :: "toml \<Rightarrow> bool" where
  "wf_toml (TTable t) \<longleftrightarrow> distinct (map fst t) \<and> (\<forall>(k, v) \<in> set t. wf_toml v)"
| "wf_toml (TArray vs) \<longleftrightarrow> (\<forall>v \<in> set vs. wf_toml v)"
| "wf_toml _ \<longleftrightarrow> True"

lemma wf_tomlD: "wf_toml (TTable t) \<Longrightarrow> map_of t k = Some v \<Longrightarrow> wf_toml v"
  by (auto dest: map_of_SomeD)

definition is_table :: "toml \<Rightarrow> bool" where
  "is_table v \<longleftrightarrow> (case v of TTable _ \<Rightarrow> True | _ \<Rightarrow> False)"

text \<open>A key path the override says nothing about: it leaves the override's tables at a missing key.\<close>

fun silent :: "table \<Rightarrow> string list \<Rightarrow> bool" where
  "silent t [] = False"
| "silent t (k # ks) =
     (case map_of t k of
        None \<Rightarrow> True
      | Some (TTable u) \<Rightarrow> silent u ks
      | Some _ \<Rightarrow> False)"

lemma override_wins:
  assumes "wf_toml (TTable over)" and "toml_at over path = Some v" and "\<not> is_table v"
  shows "toml_at (merge base over) path = Some v"
  using assms
proof (induction path arbitrary: base over)
  case Nil
  then show ?case by (auto simp: is_table_def)
next
  case (Cons k ks)
  have d: "distinct (map fst over)" using Cons.prems(1) by simp
  from Cons.prems(2) obtain w where w: "map_of over k = Some w" by (auto split: option.splits)
  show ?case
  proof (cases w)
    case (TTable u)
    have "wf_toml (TTable u)" by (rule wf_tomlD [OF Cons.prems(1), where k = k]) (simp add: w TTable)
    then have ih: "toml_at (merge b u) ks = Some v" for b
      using Cons TTable w by (auto simp del: wf_toml.simps)
    have mu: "merge_value (map_of base k) (TTable u) = TTable u \<or>
        (\<exists>b. merge_value (map_of base k) (TTable u) = TTable (merge b u))"
      by (auto simp: merge_value_def split: option.splits toml.splits)
    with ih Cons.prems(2) w TTable show ?thesis by (auto simp: map_of_merge [OF d])
  qed (use Cons.prems(2) w in \<open>auto simp: map_of_merge [OF d] merge_value_def split: option.splits toml.splits\<close>)
qed

lemma silent_None: "silent t path \<Longrightarrow> toml_at t path = None \<and> path \<noteq> []"
  by (induction t path rule: silent.induct) (auto split: option.splits toml.splits)

lemma override_keeps:
  assumes "wf_toml (TTable over)" and "silent over path"
  shows "toml_at (merge base over) path = toml_at base path"
  using assms
proof (induction path arbitrary: base over)
  case (Cons k ks)
  have d: "distinct (map fst over)" using Cons.prems(1) by simp
  show ?case
  proof (cases "map_of over k")
    case None
    then show ?thesis by (simp add: map_of_merge [OF d])
  next
    case (Some w)
    then obtain u where u: "w = TTable u" "silent u ks"
      using Cons.prems(2) by (auto split: toml.splits)
    have "wf_toml (TTable u)" by (rule wf_tomlD [OF Cons.prems(1), where k = k]) (simp add: Some u)
    then have ih: "toml_at (merge b u) ks = toml_at b ks" for b
      using Cons.IH u(2) by blast
    show ?thesis
      using ih silent_None [OF u(2)] Some u(1)
      by (auto simp: map_of_merge [OF d] merge_value_def split: option.splits toml.splits)
  qed
qed simp

text \<open>
  C22: merging an override into a definition: at every key path where the override holds anything
  but a table the result holds the override's value, and at every key path the override says
  nothing about the result holds the definition's value, however deep the path.
\<close>

theorem merge_paths:
  assumes "wf_toml (TTable over)"
  shows "(\<forall>v. toml_at over path = Some v \<and> \<not> is_table v \<longrightarrow> toml_at (merge base over) path = Some v) \<and>
         (silent over path \<longrightarrow> toml_at (merge base over) path = toml_at base path)"
  using override_wins [OF assms] override_keeps [OF assms] by blast

definition demo_base :: table where
  "demo_base = [(''run'', TTable [(''network'', TString ''none''), (''args'', TArray [])]),
                (''limits'', TTable [(''pids'', TInteger 7)])]"

definition demo_over :: table where
  "demo_over = [(''run'', TTable [(''network'', TString ''full'')])]"

theorem merge_paths_witness:
  "toml_at (merge demo_base demo_over) [''run'', ''network''] = Some (TString ''full'') \<and>
   toml_at (merge demo_base demo_over) [''run'', ''args''] = Some (TArray []) \<and>
   toml_at (merge demo_base demo_over) [''limits'', ''pids''] = Some (TInteger 7)"
proof -
  have wf: "wf_toml (TTable demo_over)" by (simp add: demo_over_def)
  show ?thesis
    using merge_paths [OF wf, of "[''run'', ''network'']" demo_base]
      merge_paths [OF wf, of "[''run'', ''args'']" demo_base]
      merge_paths [OF wf, of "[''limits'', ''pids'']" demo_base]
    by (simp add: demo_over_def demo_base_def is_table_def)
qed

end
