(* ===== verification/Host.thy ===== *)
theory Host
  imports Filesystem App_Config
begin

text \<open>
  What the process finds around it and only reads: the user's directories, the environment, its
  pid, the clock; and the functions of the libraries the sources call to read a format. They are
  the fields of two records every operation that needs them takes as an argument.
\<close>

record host =
  data_dir :: "path option"
  config_dir :: "path option"
  home_dir :: "path option"
  run_time_dir :: "path option"
  temp_dir :: path
  current_dir :: "path res"
  env_var :: "string \<Rightarrow> string option"
  process_id :: nat
  nanos :: "nat \<Rightarrow> nat"
  fmt_f64 :: "f64 \<Rightarrow> string"

text \<open>The parts of an image manifest and an image configuration that the sources look at.\<close>

record descriptor =
  media_type :: string
  digest :: string
  blob_size :: int

record manifest =
  man_config :: descriptor
  man_layers :: "descriptor list"

record image_exec_config =
  img_entrypoint :: "string list option"
  img_cmd :: "string list option"
  img_env :: "string list option"
  img_working_dir :: "string option"

datatype codec = Zstd | Gzip | Plain_Tar

record libs =
  parse_reference :: "string \<Rightarrow> string option"       \<comment> \<open>\<open>Reference::from_str\<close>, as its \<open>whole()\<close>\<close>
  manifest_of :: "string \<Rightarrow> manifest res"             \<comment> \<open>\<open>serde_json::from_slice\<close>\<close>
  manifest_text :: "manifest \<Rightarrow> string res"           \<comment> \<open>\<open>serde_json::to_vec\<close>\<close>
  settings_of :: "string \<Rightarrow> image_exec_config option res" \<comment> \<open>\<open>ImageConfiguration::from_reader\<close>\<close>
  zstd_header :: "string \<Rightarrow> unit res"                 \<comment> \<open>\<open>StreamingDecoder::new\<close>\<close>
  untar :: "codec \<Rightarrow> string \<Rightarrow> (path \<times> node) list res" \<comment> \<open>the entries of an archive\<close>
  toml_of :: "string \<Rightarrow> table res"
  capability_of :: "string \<Rightarrow> capability option"

text \<open>The time since the epoch in nanoseconds, which reading it advances.\<close>

definition unique_id :: "host \<Rightarrow> string io" where
  "unique_id h w =
     (Inr (nat_str (process_id h) @ ''-'' @ nat_str (nanos h (tick w))), w\<lparr>tick := Suc (tick w)\<rparr>)"

lemma keeps_unique_id [keeps_intros]: "keeps (\<lambda>w. I (fs w)) (unique_id h)"
  by (simp add: keeps_def unique_id_def)

end
