(* ===== verification/Store.thy ===== *)
theory Store
  imports Host
begin

text \<open>
  The local image store, \<open>src/store.rs\<close>: where a digest is kept, the records under \<open>refs/\<close>, blobs,
  the removal of trees with read-only directories, and the unpacking of a layer. What downloads
  an image is in \<open>Fetch\<close>, what deletes one in \<open>Image_Gc\<close>.
\<close>

section \<open>Names\<close>

definition store_dir :: "host \<Rightarrow> path res" where
  "store_dir h = and_then (option_context ''resolving the data directory'' (data_dir h))
     (\<lambda>d. Inr (join_str (join_str d ''climate'') ''images''))"

definition is_clean :: "string \<Rightarrow> bool" where
  "is_clean s \<longleftrightarrow> s \<noteq> [] \<and> list_all is_ascii_alphanumeric s"

definition digest_path :: "string \<Rightarrow> path res" where
  "digest_path d =
     and_then (option_context (''malformed digest '' @ quoted d) (split_once (CHR '':'') d))
       (\<lambda>(algo, hex).
          if \<not> is_clean algo \<or> \<not> is_clean hex then Inl (Bail (''malformed digest '' @ quoted d))
          else Inr (join_str (path_of algo) hex))"

definition blob_path :: "host \<Rightarrow> string \<Rightarrow> path res" where
  "blob_path h d = and_then (store_dir h) (\<lambda>s. and_then (digest_path d) (\<lambda>p.
     Inr (join (join_str s ''blobs'') p)))"

definition layer_path :: "host \<Rightarrow> string \<Rightarrow> path res" where
  "layer_path h d = and_then (store_dir h) (\<lambda>s. and_then (digest_path d) (\<lambda>p.
     Inr (join (join_str s ''layers'') p)))"

definition replace_char :: "char \<Rightarrow> char \<Rightarrow> string \<Rightarrow> string" where
  "replace_char a b = map (\<lambda>c. if c = a then b else c)"

definition marker_name :: "string \<Rightarrow> string" where
  "marker_name r = replace_char (CHR ''/'') (CHR ''+'') r"

definition ref_marker :: "host \<Rightarrow> string \<Rightarrow> path res" where
  "ref_marker h r = and_then (store_dir h) (\<lambda>s. Inr (join_str (join_str s ''refs'') (marker_name r)))"

definition image_key :: "libs \<Rightarrow> app_config \<Rightarrow> string res" where
  "image_key L cfg =
     (if install (image_cfg cfg) \<noteq> None then Inr (''localhost/climate/'' @ name (app cfg))
      else option_context (''invalid image reference '' @ quoted (reference (image_cfg cfg)))
             (parse_reference L (reference (image_cfg cfg))))"

section \<open>Records and blobs\<close>

text \<open>\<open>expect\<close>: the process ends; nothing after it runs.\<close>

definition panic :: "string \<Rightarrow> 'a io" where
  "panic msg = failM (Ext (''panic: '' @ msg))"

definition create_parent :: "path \<Rightarrow> unit io" where
  "create_parent p =
     (case parent p of
        None \<Rightarrow> panic ''store path has a parent''
      | Some d \<Rightarrow> contextM (''creating '' @ path_str d) (create_dir_all d))"

definition has_ref :: "host \<Rightarrow> string \<Rightarrow> bool io" where
  "has_ref h r = bindM (liftM (ref_marker h r)) path_exists"

definition record_ref :: "host \<Rightarrow> string \<Rightarrow> string \<Rightarrow> unit io" where
  "record_ref h r d =
     bindM (liftM (ref_marker h r)) (\<lambda>p.
     bindM (create_parent p) (\<lambda>_.
     contextM (''recording ref '' @ r) (write_file p d)))"

definition has_blob :: "host \<Rightarrow> string \<Rightarrow> bool io" where
  "has_blob h d = bindM (liftM (blob_path h d)) path_exists"

definition read_blob :: "host \<Rightarrow> string \<Rightarrow> string io" where
  "read_blob h d =
     bindM (liftM (blob_path h d)) (\<lambda>p. contextM (''reading blob '' @ path_str p) (read_file p))"

definition write_blob :: "host \<Rightarrow> string \<Rightarrow> string \<Rightarrow> unit io" where
  "write_blob h d bytes =
     bindM (liftM (blob_path h d)) (\<lambda>dest.
     bindM (create_parent dest) (\<lambda>_.
     contextM (''storing blob '' @ d) (write_file dest bytes)))"

definition read_ref :: "host \<Rightarrow> string \<Rightarrow> string option io" where
  "read_ref h r =
     bindM (liftM (ref_marker h r)) (\<lambda>p.
     bindM (tryM (read_file p)) (\<lambda>res.
     case res of
       Inr d \<Rightarrow> returnM (Some d)
     | Inl e \<Rightarrow> if e = not_found then returnM None
               else failM (Context (''reading ref '' @ r) e)))"

definition has_layer :: "host \<Rightarrow> string \<Rightarrow> bool io" where
  "has_layer h d = bindM (liftM (layer_path h d)) path_exists"

definition download_name :: "string \<Rightarrow> string" where
  "download_name n = ''.download-'' @ n"

definition temp_path :: "host \<Rightarrow> string \<Rightarrow> path io" where
  "temp_path h tag =
     bindM (liftM (store_dir h)) (\<lambda>d.
     bindM (contextM (''creating '' @ path_str d) (create_dir_all d)) (\<lambda>_.
     bindM (unique_id h) (\<lambda>i.
     returnM (join_str d (download_name (tag @ ''-'' @ i))))))"

definition commit_blob :: "host \<Rightarrow> path \<Rightarrow> string \<Rightarrow> unit io" where
  "commit_blob h temp d =
     bindM (liftM (blob_path h d)) (\<lambda>dest.
     bindM (create_parent dest) (\<lambda>_.
     contextM (''storing blob '' @ d) (rename temp dest)))"

section \<open>Removing a tree\<close>

fun mode_of :: "node \<Rightarrow> 32 word" where
  "mode_of (Dir m) = m"
| "mode_of _ = 0x1A4"

text \<open>
  The recursion goes one directory deeper each time; \<open>n\<close> bounds it, and the deepest path of the
  file system, which \<open>remove_tree\<close> passes, is always enough.
\<close>

fun grant_writable :: "nat \<Rightarrow> path \<Rightarrow> unit io" where
  "grant_writable 0 dir = failM (Io ''out of fuel'')"
| "grant_writable (Suc n) dir =
     bindM (symlink_metadata dir) (\<lambda>meta.
     bindM (set_permissions dir (mode_of meta OR 0x1C0)) (\<lambda>_.
     bindM (read_dir dir) (\<lambda>names.
     forM names (\<lambda>s.
       bindM (symlink_metadata (dir @ [Normal s])) (\<lambda>entry.
       whenM (is_dir_node (Some entry)) (grant_writable n (dir @ [Normal s])))))))"

definition fs_depth :: "fs \<Rightarrow> nat" where
  "fs_depth f = foldr max (map (length \<circ> fst) f) 0"

definition remove_tree_steps :: "nat \<Rightarrow> path \<Rightarrow> unit io" where
  "remove_tree_steps n p =
     bindM (tryM (symlink_metadata p)) (\<lambda>res.
     case res of
       Inl e \<Rightarrow> if e = not_found then returnM ()
                else failM (Context (''reading '' @ path_str p) e)
     | Inr meta \<Rightarrow>
         bindM (whenM (is_dir_node (Some meta))
                  (contextM (''preparing '' @ path_str p @ '' for removal'') (grant_writable n p)))
           (\<lambda>_. contextM (''removing '' @ path_str p) (remove_dir_all p)))"

definition remove_tree :: "path \<Rightarrow> unit io" where
  "remove_tree p w = remove_tree_steps (Suc (fs_depth (fs w))) p w"

section \<open>Unpacking a layer\<close>

definition codec_of :: "string \<Rightarrow> codec option" where
  "codec_of mt =
     (if str_contains ''zstd'' mt then Some Zstd
      else if str_contains ''gzip'' mt then Some Gzip
      else if ends_with ''tar'' mt then Some Plain_Tar
      else None)"

definition stage_name :: "string \<Rightarrow> string" where
  "stage_name n = ''.extract-'' @ n"

definition staging_path :: "path \<Rightarrow> path io" where
  "staging_path dest =
     (case (parent dest, file_name dest) of
        (Some d, Some n) \<Rightarrow> returnM (join_str d (stage_name n))
      | (None, _) \<Rightarrow> panic ''layer path has a parent''
      | (_, None) \<Rightarrow> panic ''layer path has a file name'')"

definition extract_layer :: "libs \<Rightarrow> host \<Rightarrow> path \<Rightarrow> string \<Rightarrow> string \<Rightarrow> unit io" where
  "extract_layer L h temp d mt =
     bindM (liftM (layer_path h d)) (\<lambda>dest.
     bindM (create_parent dest) (\<lambda>_.
     bindM (staging_path dest) (\<lambda>staging.
     bindM (remove_tree staging) (\<lambda>_.
     bindM (contextM (''opening layer blob '' @ d) (read_file temp)) (\<lambda>content.
     bindM (case codec_of mt of
              None \<Rightarrow> failM (Bail (''unsupported layer media type '' @ quoted mt))
            | Some Zstd \<Rightarrow> contextM ''initialising zstd decoder''
                              (bindM (liftM (zstd_header L content)) (\<lambda>_. returnM Zstd))
            | Some c \<Rightarrow> returnM c) (\<lambda>c.
     bindM (contextM (''extracting layer '' @ d) (unpack_entries staging (untar L c content))) (\<lambda>_.
     contextM (''finalising layer '' @ d) (rename staging dest))))))))"

section \<open>Finding an image\<close>

record image =
  img_layers :: "string list"
  img_config :: "image_exec_config option"

definition read_manifest :: "libs \<Rightarrow> host \<Rightarrow> string \<Rightarrow> manifest option io" where
  "read_manifest L h key =
     bindM (read_ref h key) (\<lambda>r.
     case r of
       None \<Rightarrow> returnM None
     | Some d \<Rightarrow>
         bindM (read_blob h d) (\<lambda>bytes.
         bindM (contextM (''parsing cached manifest for '' @ key) (liftM (manifest_of L bytes)))
           (\<lambda>m. returnM (Some m))))"

definition image_config :: "libs \<Rightarrow> host \<Rightarrow> string \<Rightarrow> manifest \<Rightarrow> image_exec_config option io" where
  "image_config L h key m =
     bindM (read_blob h (digest (man_config m))) (\<lambda>bytes.
     contextM (''parsing image config for '' @ key) (liftM (settings_of L bytes)))"

text \<open>\<open>ensure\<close> is \<open>pull::ensure\<close>, which calls back into this component.\<close>

definition resolve_image ::
  "libs \<Rightarrow> host \<Rightarrow> (app_config \<Rightarrow> bool \<Rightarrow> bool \<Rightarrow> unit io) \<Rightarrow> app_config \<Rightarrow> image io" where
  "resolve_image L h ensure cfg =
     bindM (liftM (image_key L cfg)) (\<lambda>key.
     bindM (ensure cfg False False) (\<lambda>_.
     bindM (read_manifest L h key) (\<lambda>r.
     case r of
       None \<Rightarrow> failM (Bail (name (app cfg) @ '': image '' @ quoted (reference (image_cfg cfg))
                            @ '' is not in the store; pull it first''))
     | Some m \<Rightarrow>
         bindM (image_config L h key m) (\<lambda>config.
         returnM \<lparr>img_layers = map digest (man_layers m), img_config = config\<rparr>))))"

section \<open>Digests and references name one file each\<close>

lemma clean_plain: "is_clean s \<Longrightarrow> plain_name s \<and> CHR '':'' \<notin> set s \<and> CHR ''+'' \<notin> set s \<and> hd s \<noteq> CHR ''.''"
proof -
  have "\<not> is_ascii_alphanumeric c" if "c \<in> {CHR ''/'', CHR ''.'', CHR '':'', CHR ''+''}" for c
    using that by (auto simp: is_ascii_alphanumeric_def is_ascii_alphabetic_def is_ascii_digit_def
        is_ascii_uppercase_def is_ascii_lowercase_def)
  then show "is_clean s \<Longrightarrow> ?thesis"
    by (cases s) (auto simp: is_clean_def plain_name_def list_all_iff)
qed

lemma digest_path_Inr:
  "digest_path d = Inr p \<longleftrightarrow>
     (\<exists>a x. d = a @ CHR '':'' # x \<and> is_clean a \<and> is_clean x \<and> p = [Normal a, Normal x])"
proof
  assume "digest_path d = Inr p"
  then obtain a x where *: "split_once (CHR '':'') d = Some (a, x)" "is_clean a" "is_clean x"
    "p = join_str (path_of a) x"
    by (auto simp: digest_path_def and_then_Inr_iff split: if_splits)
  then have "p = [Normal a, Normal x]"
    using clean_plain by (simp add: join_plain path_of_plain)
  with *(1-3) show "\<exists>a x. d = a @ CHR '':'' # x \<and> is_clean a \<and> is_clean x \<and> p = [Normal a, Normal x]"
    by (metis split_once_Some)
next
  assume "\<exists>a x. d = a @ CHR '':'' # x \<and> is_clean a \<and> is_clean x \<and> p = [Normal a, Normal x]"
  then show "digest_path d = Inr p"
    using clean_plain by (auto simp: digest_path_def join_plain path_of_plain)
qed

lemma digest_path_cases: "digest_path d = Inl (Bail (''malformed digest '' @ quoted d)) \<or> (\<exists>p. digest_path d = Inr p)"
  by (auto simp: digest_path_def option_context_def split: option.splits if_splits)

definition filed :: "string \<Rightarrow> path \<Rightarrow> string \<Rightarrow> path \<Rightarrow> bool" where
  "filed area s d p \<longleftrightarrow>
     (\<exists>a x. d = a @ CHR '':'' # x \<and> is_clean a \<and> is_clean x \<and> p = s @ [Normal area, Normal a, Normal x])"

lemma plain_areas: "plain_name ''blobs''" "plain_name ''layers''" "plain_name ''refs''"
  "plain_name ''climate''" "plain_name ''images''"
  by (simp_all add: plain_name_def)

lemma join_digest: "digest_path d = Inr p \<Longrightarrow> q \<noteq> [] \<Longrightarrow> join q p = q @ p"
  by (auto simp: digest_path_Inr join_def is_absolute_def)

lemma area_join:
  "plain_name area \<Longrightarrow>
   (\<exists>x. digest_path d = Inr x \<and> join (join_str s area) x = p) \<longleftrightarrow> filed area s d p"
  using join_digest [of d _ "s @ [Normal area]"]
  by (auto simp: digest_path_Inr filed_def join_plain)

lemma blob_path_Inr: "blob_path h d = Inr p \<longleftrightarrow> (\<exists>s. store_dir h = Inr s \<and> filed ''blobs'' s d p)"
  by (simp add: blob_path_def and_then_Inr_iff area_join plain_areas)

lemma layer_path_Inr: "layer_path h d = Inr p \<longleftrightarrow> (\<exists>s. store_dir h = Inr s \<and> filed ''layers'' s d p)"
  by (simp add: layer_path_def and_then_Inr_iff area_join plain_areas)

lemma filed_inj: "filed area s d p \<Longrightarrow> filed area s d' p \<Longrightarrow> d = d'"
  by (auto simp: filed_def)

text \<open>
  C19: whatever a registry or a manifest claims, the file of a digest lies exactly two directories
  below the store's \<open>blobs\<close> or \<open>layers\<close> directory, under names of letters and digits only; different
  digests never share a file, and a digest that is not of that form is an error.
\<close>

theorem digest_confined:
  assumes "store_dir h = Inr s"
  shows "case (blob_path h d, layer_path h d) of
           (Inr b, Inr l) \<Rightarrow> filed ''blobs'' s d b \<and> filed ''layers'' s d l \<and>
             (\<forall>d'. (blob_path h d' = Inr b \<longrightarrow> d' = d) \<and> (layer_path h d' = Inr l \<longrightarrow> d' = d))
         | (Inl e, Inl e') \<Rightarrow> e = Bail (''malformed digest '' @ quoted d) \<and> e' = e
         | _ \<Rightarrow> False"
proof (cases "digest_path d")
  case (Inl e)
  with digest_path_cases [of d] assms show ?thesis by (auto simp: blob_path_def layer_path_def)
next
  case (Inr p)
  then obtain b l where "blob_path h d = Inr b" "layer_path h d = Inr l"
    using assms by (auto simp: blob_path_def layer_path_def)
  note paths = this
  then have "filed ''blobs'' s d b" "filed ''layers'' s d l"
    using assms by (auto simp: blob_path_Inr layer_path_Inr)
  moreover from this assms have "(blob_path h d' = Inr b \<longrightarrow> d' = d) \<and> (layer_path h d' = Inr l \<longrightarrow> d' = d)" for d'
    by (auto simp: blob_path_Inr layer_path_Inr dest: filed_inj)
  ultimately show ?thesis by (simp add: paths)
qed

definition demo_host :: host where
  "demo_host = \<lparr>data_dir = Some [RootDir, Normal ''d''], config_dir = Some [RootDir, Normal ''c''],
     home_dir = Some [RootDir, Normal ''h''], run_time_dir = Some [RootDir, Normal ''r''],
     temp_dir = [RootDir, Normal ''t''], current_dir = Inr [RootDir, Normal ''h'', Normal ''p''],
     env_var = (\<lambda>_. None), process_id = 7, nanos = (\<lambda>n. n), fmt_f64 = (\<lambda>_. ''x'')\<rparr>"

lemma demo_store: "store_dir demo_host = Inr [RootDir, Normal ''d'', Normal ''climate'', Normal ''images'']"
  by (simp add: store_dir_def demo_host_def join_plain plain_areas)

theorem digest_confined_witness:
  "blob_path demo_host ''a:b'' =
     Inr [RootDir, Normal ''d'', Normal ''climate'', Normal ''images'', Normal ''blobs'', Normal ''a'', Normal ''b''] \<and>
   blob_path demo_host ''a:../b'' = Inl (Bail (''malformed digest '' @ quoted ''a:../b''))"
proof -
  have "is_clean ''a''" "is_clean ''b''" "\<not> is_clean ''../b''"
    by (simp_all add: is_clean_def is_ascii_alphanumeric_def is_ascii_alphabetic_def is_ascii_digit_def
        is_ascii_uppercase_def is_ascii_lowercase_def)
  then show ?thesis
    using digest_confined [OF demo_store, of "''a:b''"] digest_confined [OF demo_store, of "''a:../b''"]
    by (auto simp: blob_path_def demo_store digest_path_def join_plain path_of_plain plain_areas
        clean_plain join_def is_absolute_def filed_def append_eq_Cons_conv split: sum.splits)
qed

text \<open>A reference of the registry holds no plus sign, so no two share a record.\<close>

lemma marker_name_inj:
  assumes "CHR ''+'' \<notin> set r" "CHR ''+'' \<notin> set r'" "marker_name r = marker_name r'"
  shows "r = r'"
  using assms
proof (induction r arbitrary: r')
  case (Cons c r)
  then show ?case by (cases r') (auto simp: marker_name_def replace_char_def split: if_splits)
qed (auto simp: marker_name_def replace_char_def)

lemma marker_name_no_slash: "CHR ''/'' \<notin> set (marker_name r)"
  by (auto simp: marker_name_def replace_char_def)

lemma marker_plain: "r \<noteq> [] \<Longrightarrow> r \<noteq> ''.'' \<Longrightarrow> r \<noteq> ''..'' \<Longrightarrow> plain_name (marker_name r)"
  using marker_name_no_slash [of r]
  by (auto simp: plain_name_def marker_name_def replace_char_def map_eq_Cons_conv split: if_splits)

lemma ref_marker_Inr:
  assumes "ref_marker h r = Inr p" "r \<noteq> []" "r \<noteq> ''.''" "r \<noteq> ''..''"
  shows "\<exists>s. store_dir h = Inr s \<and> p = s @ [Normal ''refs'', Normal (marker_name r)]"
  using assms by (auto simp: ref_marker_def and_then_Inr_iff join_plain plain_areas marker_plain)

section \<open>Trees are removed, and nothing else\<close>

context protected
begin

lemma grant_writable: "\<forall>q. under p q \<longrightarrow> \<not> P q \<Longrightarrow> keeps (\<lambda>w. I (fs w)) (grant_writable n p)"
proof (induction n arbitrary: p)
  case (Suc n)
  have "\<forall>q. under (p @ [Normal s]) q \<longrightarrow> \<not> P q" for s
    using Suc.prems by (auto simp: under_iff)
  with Suc show ?case by (auto intro!: keeps_intros set_permissions)
qed (auto intro: keeps_intros)

lemma remove_tree: "\<forall>q. under p q \<longrightarrow> \<not> P q \<Longrightarrow> keeps (\<lambda>w. I (fs w)) (remove_tree p)"
proof -
  assume "\<forall>q. under p q \<longrightarrow> \<not> P q"
  then have "keeps (\<lambda>w. I (fs w)) (remove_tree_steps n p)" for n
    unfolding remove_tree_steps_def
    by (auto intro!: keeps_intros grant_writable remove_dir_all)
  then show ?thesis by (simp add: keeps_def remove_tree_def)
qed

end

lemma keeps_wf_grant: "keeps (\<lambda>w. wf_fs (fs w)) (grant_writable n p)"
  by (induction n arbitrary: p) (auto intro!: keeps_intros)

lemma keeps_wf_remove_tree [keeps_intros]: "p \<noteq> [] \<Longrightarrow> keeps (\<lambda>w. wf_fs (fs w)) (remove_tree p)"
proof -
  assume "p \<noteq> []"
  then have "keeps (\<lambda>w. wf_fs (fs w)) (remove_tree_steps n p)" for n
    unfolding remove_tree_steps_def by (auto intro!: keeps_intros keeps_wf_grant)
  then show ?thesis by (simp add: keeps_def remove_tree_def)
qed

lemma remove_dir_all_Inr:
  "remove_dir_all p w = (Inr u, t) \<Longrightarrow> under p q \<Longrightarrow> node_at (fs t) q = None"
  unfolding remove_dir_all_def
  by (drule prim_Inr) (auto simp: unlink_all_Inr set_tree_of split: option.splits node.splits)

lemma remove_tree_Inr:
  assumes "remove_tree p w = (Inr u, t)" "wf_fs (fs w)" "p \<noteq> []" "under p q"
  shows "node_at (fs t) q = None"
proof -
  obtain n where "remove_tree_steps n p w = (Inr u, t)"
    using assms(1) by (auto simp: remove_tree_def)
  then obtain r v where r: "symlink_metadata p w = (r, v)" and
    rest: "(case r of Inl e \<Rightarrow> if e = not_found then returnM () else failM (Context (''reading '' @ path_str p) e)
      | Inr meta \<Rightarrow> bindM (whenM (is_dir_node (Some meta))
          (contextM (''preparing '' @ path_str p @ '' for removal'') (grant_writable n p)))
           (\<lambda>_. contextM (''removing '' @ path_str p) (remove_dir_all p))) v = (Inr u, t)"
    by (auto simp: remove_tree_steps_def bindM_Inr)
  show ?thesis
  proof (cases r)
    case (Inl e)
    with rest have e: "e = not_found" "t = v" by (auto simp: script_simps split: if_splits)
    have "node_at (fs w) p = None \<and> fs v = fs w"
      using r unfolding Inl e symlink_metadata_def query_def prim_def
      by (auto simp: errno_defs Let_def split: option.splits nat.splits)
    with assms(2-4) wf_absent [of "fs w" p q] e show ?thesis by auto
  next
    case (Inr m)
    with rest assms(4) show ?thesis by (auto simp: bindM_Inr dest: remove_dir_all_Inr)
  qed
qed

subsection \<open>Read-only directories do not stop it\<close>

definition no_faults :: "world \<Rightarrow> bool" where
  "no_faults w \<longleftrightarrow> fault w = (\<lambda>_. None)"

definition granted :: "bool \<Rightarrow> node option \<Rightarrow> node option" where
  "granted b n = (case n of Some (Dir m) \<Rightarrow> Some (Dir (if b then m OR 0x1C0 else m)) | _ \<Rightarrow> n)"

lemma granted_simps [simp]:
  "granted False n = n" "granted b None = None" "granted b (Some (File c)) = Some (File c)"
  "granted b (Some (Symlink t)) = Some (Symlink t)"
  "granted True (Some (Dir m)) = Some (Dir (m OR 0x1C0))"
  "is_dir_node (granted b n) = is_dir_node n" "granted b n = None \<longleftrightarrow> n = None"
  by (auto simp: granted_def split: option.splits node.splits)

lemma granted_granted [simp]: "granted b (granted c n) = granted (b \<or> c) n"
  by (auto simp: granted_def or.assoc split: option.splits node.splits)

lemma and_or_mask: "c AND b = b \<Longrightarrow> (m OR c) AND b = b" for m :: "32 word"
proof (rule bit_eqI)
  fix n assume *: "c AND b = b"
  have "bit b n \<Longrightarrow> bit c n" using arg_cong [OF *, of "\<lambda>x. bit x n"] by (simp add: bit_and_iff)
  then show "bit ((m OR c) AND b) n = bit b n" by (auto simp: bit_and_iff bit_or_iff)
qed

lemma mode_bits: "readable (m OR 0x1C0)" "writable (m OR 0x1C0)"
  by (simp_all add: readable_def writable_def and_or_mask)

definition fs_step :: "'a io \<Rightarrow> world \<Rightarrow> 'a \<Rightarrow> (path \<Rightarrow> node option) \<Rightarrow> bool" where
  "fs_step m w x g \<longleftrightarrow> (\<exists>t. m w = (Inr x, t) \<and> no_faults t \<and> node_at (fs t) = g)"

definition normal_below :: "path \<Rightarrow> (path \<Rightarrow> node option) \<Rightarrow> bool" where
  "normal_below p g \<longleftrightarrow> (\<forall>q. g (p @ q) \<noteq> None \<longrightarrow> (\<forall>c \<in> set q. \<exists>s. c = Normal s))"

lemma set_dir_names: "s \<in> set (dir_names f p) \<longleftrightarrow> node_at f (p @ [Normal s]) \<noteq> None"
proof -
  have "(child_of p q \<and> file_name q = Some s) \<longleftrightarrow> q = p @ [Normal s]" for q
    by (cases q rule: rev_cases) (auto simp: child_of_def file_name_def split: component.splits)
  then have "(case x of (q, _) \<Rightarrow> if child_of p q then file_name q else None) = Some s \<longleftrightarrow> fst x = p @ [Normal s]"
    for x :: "path \<times> node" by (cases x) auto
  then have "s \<in> set (dir_names f p) \<longleftrightarrow> (\<exists>x \<in> set f. fst x = p @ [Normal s])"
    by (simp only: dir_names_def set_filter_map mem_Collect_eq)
  also have "\<dots> \<longleftrightarrow> node_at f (p @ [Normal s]) \<noteq> None"
    unfolding node_at_def by (metis (no_types, lifting) fst_eqD image_iff map_of_eq_None_iff)
  finally show ?thesis .
qed

lemma prim_no_faults:
  "no_faults w \<Longrightarrow> prim eff part w = (fst (eff (fs w)), w\<lparr>tick := Suc (tick w), fs := snd (eff (fs w))\<rparr>)"
  by (cases "eff (fs w)") (simp add: prim_def no_faults_def Let_def)

lemma no_faults_update [simp]: "no_faults (w\<lparr>tick := n\<rparr>) = no_faults w" "no_faults (w\<lparr>fs := f\<rparr>) = no_faults w"
  by (simp_all add: no_faults_def)

lemma grant_loop:
  assumes ih: "\<And>s v m. s \<in> set xs \<Longrightarrow> no_faults v \<Longrightarrow> wf_fs (fs v) \<Longrightarrow>
      (\<forall>q. node_at (fs v) q = None \<longleftrightarrow> node_at (fs w) q = None) \<Longrightarrow>
      node_at (fs v) (p @ [Normal s]) = Some (Dir m) \<Longrightarrow>
      \<exists>t. grant_writable n (p @ [Normal s]) v = (Inr (), t) \<and> no_faults t \<and>
        (\<forall>q. node_at (fs t) q = granted (under (p @ [Normal s]) q) (node_at (fs v) q))"
    and "no_faults v" "wf_fs (fs v)" "\<forall>s \<in> set xs. node_at (fs w) (p @ [Normal s]) \<noteq> None"
    and "\<forall>q. node_at (fs v) q = granted (S q) (node_at (fs w) q)"
  shows "\<exists>t. forM xs (\<lambda>s. bindM (symlink_metadata (p @ [Normal s])) (\<lambda>entry.
          whenM (is_dir_node (Some entry)) (grant_writable n (p @ [Normal s])))) v = (Inr (), t) \<and>
        no_faults t \<and>
        (\<forall>q. node_at (fs t) q = granted (S q \<or> (\<exists>s \<in> set xs. under (p @ [Normal s]) q)) (node_at (fs w) q))"
  using assms
proof (induction xs arbitrary: v S)
  case Nil
  then show ?case by (simp add: script_simps)
next
  case (Cons s xs)
  let ?v = "v\<lparr>tick := Suc (tick v)\<rparr>"
  have "node_at (fs v) (p @ [Normal s]) \<noteq> None" using Cons.prems(4,5) by auto
  then obtain e where e: "node_at (fs v) (p @ [Normal s]) = Some e" by blast
  have meta: "symlink_metadata (p @ [Normal s]) v = (Inr e, ?v)"
    using Cons.prems(2) e by (simp add: symlink_metadata_def query_def prim_no_faults)
  obtain t where t: "whenM (is_dir_node (Some e)) (grant_writable n (p @ [Normal s])) ?v = (Inr (), t)"
    "no_faults t" "\<forall>q. node_at (fs t) q = granted (under (p @ [Normal s]) q) (node_at (fs v) q)"
    "wf_fs (fs t)"
  proof (cases "is_dir_node (Some e)")
    case True
    then obtain m where "e = Dir m" by (auto simp: is_dir_node_iff)
    then obtain t where t: "grant_writable n (p @ [Normal s]) ?v = (Inr (), t)" "no_faults t"
      "\<forall>q. node_at (fs t) q = granted (under (p @ [Normal s]) q) (node_at (fs v) q)"
      using Cons.prems(1) [of s ?v m] Cons.prems(2,3,5) e by auto
    moreover have "wf_fs (fs t)"
      using keepsD [OF keeps_wf_grant _ t(1)] Cons.prems(3) by simp
    ultimately show thesis using that True by simp
  next
    case False
    have "granted (under (p @ [Normal s]) q) (node_at (fs v) q) = node_at (fs v) q" for q
      using False e wf_absent [OF Cons.prems(3), of "p @ [Normal s]" q]
      by (cases "q = p @ [Normal s]"; cases "under (p @ [Normal s]) q")
        (auto simp: granted_def split: option.splits node.splits)
    with False that [of ?v] Cons.prems(2,3) show thesis by (simp add: script_simps)
  qed
  have "\<exists>u. forM xs (\<lambda>s. bindM (symlink_metadata (p @ [Normal s])) (\<lambda>entry.
          whenM (is_dir_node (Some entry)) (grant_writable n (p @ [Normal s])))) t = (Inr (), u) \<and>
    no_faults u \<and> (\<forall>q. node_at (fs u) q =
       granted ((S q \<or> under (p @ [Normal s]) q) \<or> (\<exists>s \<in> set xs. under (p @ [Normal s]) q)) (node_at (fs w) q))"
  proof (rule Cons.IH)
    show "\<forall>q. node_at (fs t) q = granted (S q \<or> under (p @ [Normal s]) q) (node_at (fs w) q)"
      using t(3) Cons.prems(5) by (simp add: disj_commute)
  qed (use Cons.prems(1,4) t(2,4) in auto)
  then obtain u where u: "forM xs (\<lambda>s. bindM (symlink_metadata (p @ [Normal s])) (\<lambda>entry.
          whenM (is_dir_node (Some entry)) (grant_writable n (p @ [Normal s])))) t = (Inr (), u)"
    "no_faults u" "\<forall>q. node_at (fs u) q =
       granted ((S q \<or> under (p @ [Normal s]) q) \<or> (\<exists>s \<in> set xs. under (p @ [Normal s]) q)) (node_at (fs w) q)"
    by blast
  show ?case
    by (rule exI [of _ u]) (use u in \<open>simp add: bindM_runs meta t(1) bindM_assoc disj_assoc\<close>)
qed

lemma grant_total:
  assumes "no_faults w" "wf_fs (fs w)" "node_at (fs w) p = Some (Dir m)" "p \<noteq> []"
    "normal_below p (node_at (fs w))" "\<forall>q. node_at (fs w) (p @ q) \<noteq> None \<longrightarrow> length q < n"
  shows "\<exists>t. grant_writable n p w = (Inr (), t) \<and> no_faults t \<and>
           (\<forall>q. node_at (fs t) q = granted (under p q) (node_at (fs w) q))"
  using assms
proof (induction n arbitrary: p w m)
  case 0
  then show ?case by (metis append_Nil2 less_nat_zero_code option.distinct(1))
next
  case (Suc n)
  let ?f = "set_node p (Dir (m OR 0x1C0)) (fs w)"
  let ?v = "w\<lparr>tick := Suc (Suc (Suc (tick w))), fs := ?f\<rparr>"
  have f: "node_at ?f q = granted (q = p) (node_at (fs w) q)" for q
    using Suc.prems(3) by (simp add: node_at_set_node)
  have "follow 41 ?f p = Some p" by (simp add: eval_nat_numeral node_at_set_node)
  then have "bindM (symlink_metadata p) (\<lambda>meta. bindM (set_permissions p (mode_of meta OR 0x1C0))
      (\<lambda>_. read_dir p)) w = (Inr (dir_names ?f p), ?v)"
    using Suc.prems(1,3) by (simp add: symlink_metadata_def set_permissions_def read_dir_def query_def
        bindM_def prim_no_faults node_at_set_node mode_bits)
  moreover have wfv: "wf_fs (fs ?v)"
    using Suc.prems(2,3) by (simp, intro wf_set_node) (auto simp: wf_fs_def)
  moreover have "\<exists>t. forM (dir_names ?f p) (\<lambda>s. bindM (symlink_metadata (p @ [Normal s])) (\<lambda>entry.
          whenM (is_dir_node (Some entry)) (grant_writable n (p @ [Normal s])))) ?v = (Inr (), t) \<and>
        no_faults t \<and> (\<forall>q. node_at (fs t) q =
          granted (q = p \<or> (\<exists>s \<in> set (dir_names ?f p). under (p @ [Normal s]) q)) (node_at (fs w) q))"
  proof (rule grant_loop)
    fix s v k
    assume *: "no_faults v" "wf_fs (fs v)" "\<forall>q. (node_at (fs v) q = None) = (node_at (fs w) q = None)"
      "node_at (fs v) (p @ [Normal s]) = Some (Dir k)"
    show "\<exists>t. grant_writable n (p @ [Normal s]) v = (Inr (), t) \<and> no_faults t \<and>
        (\<forall>q. node_at (fs t) q = granted (under (p @ [Normal s]) q) (node_at (fs v) q))"
    proof (rule Suc.IH)
      show "normal_below (p @ [Normal s]) (node_at (fs v))"
        using Suc.prems(5) *(3) unfolding normal_below_def by (metis Un_iff append_assoc set_append)
      show "\<forall>q. node_at (fs v) ((p @ [Normal s]) @ q) \<noteq> None \<longrightarrow> length q < n"
        using Suc.prems(6) *(3) by (metis Suc_less_eq append.assoc append_Cons append_Nil length_Cons)
    qed (use * in auto)
  qed (use Suc.prems wfv f in \<open>auto simp: set_dir_names\<close>)
  moreover have "granted (q = p \<or> (\<exists>s \<in> set (dir_names ?f p). under (p @ [Normal s]) q)) (node_at (fs w) q)
     = granted (under p q) (node_at (fs w) q)" for q
  proof (cases "under p q \<and> q \<noteq> p \<and> node_at (fs w) q \<noteq> None")
    case True
    then obtain c x where q: "q = p @ c # x" unfolding under_iff by (metis append_Nil2 list.exhaust)
    then obtain s where s: "c = Normal s" using Suc.prems(5) True unfolding normal_below_def by force
    have "node_at (fs w) (p @ [Normal s]) \<noteq> None"
      using wf_under [OF Suc.prems(2), of "p @ [Normal s]" x] True q s
      by (cases "x = []") (auto simp: is_dir_node_iff)
    then have "s \<in> set (dir_names ?f p)" by (simp add: set_dir_names f)
    moreover have "under (p @ [Normal s]) q" by (simp add: q s under_iff)
    ultimately have "\<exists>s \<in> set (dir_names ?f p). under (p @ [Normal s]) q" by blast
    with True show ?thesis by (simp only: simp_thms)
  next
    case False
    have "under (p @ [c]) q \<Longrightarrow> under p q" for c by (auto simp: under_iff)
    then have "\<not> under p q \<Longrightarrow> \<not> (q = p \<or> (\<exists>s \<in> set (dir_names ?f p). under (p @ [Normal s]) q))"
      by auto
    with False show ?thesis
      by (cases "node_at (fs w) q = None"; cases "q = p") (simp_all only: granted_simps simp_thms under_refl)
  qed
  ultimately show ?case by (simp add: bindM_runs bindM_assoc [symmetric])
qed

lemma not_under_butlast: "p \<noteq> [] \<Longrightarrow> \<not> under p (butlast p)"
proof
  assume "p \<noteq> []" "under p (butlast p)"
  then have "length p \<le> length (butlast p)" by (metis under_iff length_append le_add1)
  with \<open>p \<noteq> []\<close> show False by (cases "length p") auto
qed

lemma unlink_all_ok:
  assumes "sorted_wrt (\<lambda>p q. length q \<le> length p) qs"
    "\<forall>q \<in> set qs. q \<noteq> [] \<and> can_empty f q \<and> parent_error f q = None"
  shows "\<exists>g. unlink_all qs f = (Inr (), g)"
  using assms
proof (induction qs arbitrary: f)
  case (Cons q qs)
  have "can_empty (del_node q f) r \<and> parent_error (del_node q f) r = None" if r: "r \<in> set qs" for r
  proof -
    have "length (butlast r) < length q" using Cons.prems r by (cases r) auto
    then have "butlast r \<noteq> q" by auto
    then show ?thesis using Cons.prems(2) r
      by (auto simp: can_empty_def parent_error_def node_at_del_node)
  qed
  then have "\<exists>g. unlink_all qs (del_node q f) = (Inr (), g)"
    using Cons.prems by (intro Cons.IH) auto
  with Cons.prems show ?case by simp
qed simp

lemma fs_depth_bound: "node_at f q \<noteq> None \<Longrightarrow> length q \<le> fs_depth f"
proof -
  assume "node_at f q \<noteq> None"
  then have "q \<in> fst ` set f" unfolding node_at_def by (metis map_of_eq_None_iff)
  then show ?thesis unfolding fs_depth_def by (induction f) (auto simp: le_max_iff_disj image_iff)
qed

lemma remove_dir_all_total:
  assumes "no_faults w" "wf_fs (fs w)" "p \<noteq> []" "node_at (fs w) p \<noteq> None" "\<not> is_file_node (node_at (fs w) p)"
    "\<forall>q m. under p q \<and> node_at (fs w) q = Some (Dir m) \<longrightarrow> readable m \<and> writable m"
    "parent_error (fs w) p = None"
  shows "\<exists>t. remove_dir_all p w = (Inr (), t) \<and> no_faults t \<and>
           (\<forall>q. node_at (fs t) q = (if under p q then None else node_at (fs w) q))"
proof -
  have "\<exists>g. unlink_all (tree_of (fs w) p) (fs w) = (Inr (), g)"
  proof (rule unlink_all_ok)
    show "sorted_wrt (\<lambda>p q. length q \<le> length p) (tree_of (fs w) p)"
      by (simp add: tree_of_def sorted_longest_first)
    show "\<forall>q \<in> set (tree_of (fs w) p). q \<noteq> [] \<and> can_empty (fs w) q \<and> parent_error (fs w) q = None"
    proof
      fix q assume "q \<in> set (tree_of (fs w) p)"
      then have q: "under p q" "node_at (fs w) q \<noteq> None" by (auto simp: set_tree_of)
      then have ne: "q \<noteq> []" using assms(3) by (auto simp: under_iff)
      have "parent_error (fs w) q = None"
      proof (cases "q = p")
        case False
        then have u: "under p (butlast q)" using q(1) by (simp add: under_butlast)
        then have "butlast q \<noteq> []" using assms(3) by (auto simp: under_iff)
        then obtain m where "node_at (fs w) (butlast q) = Some (Dir m)"
          using assms(2) q(2) by (auto simp: wf_fs_def is_dir_node_iff)
        then show ?thesis using assms(6) u by (simp add: parent_error_def)
      qed (use assms(7) in simp)
      with ne q(1) assms(6) show "q \<noteq> [] \<and> can_empty (fs w) q \<and> parent_error (fs w) q = None"
        by (auto simp: can_empty_def split: option.splits node.splits)
    qed
  qed
  then obtain g where g: "unlink_all (tree_of (fs w) p) (fs w) = (Inr (), g)" by blast
  then have "node_at g q = (if under p q then None else node_at (fs w) q)" for q
    by (auto simp: unlink_all_Inr set_tree_of)
  with g assms(1,4,5) show ?thesis
    by (auto simp: remove_dir_all_def prim_no_faults is_file_node_def split: option.splits node.splits)
qed

text \<open>
  C13: \<open>remove_tree\<close> removes a tree whatever permissions its directories have, and only that tree:
  when no system call fails and the directory the tree lies in can be written to, it succeeds,
  nothing is left at or below the path, every other path is as before, and a missing path is no
  error. The bound on the recursion that makes directories writable is always enough.
\<close>

theorem remove_tree_total:
  assumes "no_faults w" "wf_fs (fs w)" "p \<noteq> []" "\<not> is_file_node (node_at (fs w) p)"
    "normal_below p (node_at (fs w))" "node_at (fs w) p \<noteq> None \<longrightarrow> parent_error (fs w) p = None"
  shows "\<exists>t. remove_tree p w = (Inr (), t) \<and> no_faults t \<and>
           (\<forall>q. node_at (fs t) q = (if under p q then None else node_at (fs w) q))"
proof -
  let ?n = "Suc (fs_depth (fs w))"
  let ?v = "w\<lparr>tick := Suc (tick w)\<rparr>"
  have meta: "tryM (symlink_metadata p) w =
      (Inr (case node_at (fs w) p of None \<Rightarrow> Inl not_found | Some n \<Rightarrow> Inr n), ?v)"
    using assms(1) by (simp add: tryM_def symlink_metadata_def query_def prim_no_faults)
  show ?thesis
  proof (cases "node_at (fs w) p")
    case None
    then have "under p q \<Longrightarrow> node_at (fs w) q = None" for q
      using wf_absent [OF assms(2,3)] by (cases "q = p") auto
    with meta None assms(1) show ?thesis
      by (auto simp: remove_tree_def remove_tree_steps_def bindM_runs script_simps)
  next
    case (Some n)
    let ?pre = "whenM (is_dir_node (Some n))
                  (contextM (''preparing '' @ path_str p @ '' for removal'') (grant_writable ?n p))"
    have "\<exists>v. ?pre ?v = (Inr (), v) \<and> no_faults v \<and> wf_fs (fs v) \<and>
        (\<forall>q. node_at (fs v) q = granted (under p q) (node_at (fs w) q))"
    proof (cases "is_dir_node (Some n)")
      case True
      have "length q < ?n" if "node_at (fs ?v) (p @ q) \<noteq> None" for q
        using fs_depth_bound [of "fs w" "p @ q"] that by simp
      then obtain t where t: "grant_writable ?n p ?v = (Inr (), t)" "no_faults t"
        "\<forall>q. node_at (fs t) q = granted (under p q) (node_at (fs w) q)"
        using grant_total [of ?v p _ ?n] assms Some True by (auto simp: is_dir_node_iff)
      moreover have "wf_fs (fs t)" using keepsD [OF keeps_wf_grant _ t(1)] assms(2) by simp
      ultimately show ?thesis using True by (simp add: contextM_def)
    next
      case False
      have "granted (under p q) (node_at (fs w) q) = node_at (fs w) q" for q
        using False Some wf_absent [OF assms(2,3), of q]
        by (cases "q = p"; cases "under p q") (auto simp: granted_def split: option.splits node.splits)
      with False assms(1,2) show ?thesis by (simp add: script_simps)
    qed
    then obtain v where v: "?pre ?v = (Inr (), v)" "no_faults v" "wf_fs (fs v)"
      "\<forall>q. node_at (fs v) q = granted (under p q) (node_at (fs w) q)" by blast
    have "\<exists>t. remove_dir_all p v = (Inr (), t) \<and> no_faults t \<and>
           (\<forall>q. node_at (fs t) q = (if under p q then None else node_at (fs v) q))"
    proof (rule remove_dir_all_total)
      show "\<forall>q m. under p q \<and> node_at (fs v) q = Some (Dir m) \<longrightarrow> readable m \<and> writable m"
        using v(4) mode_bits by (auto simp: granted_def split: option.splits node.splits if_splits)
      have "\<not> under p (butlast p)"
        using assms(3) not_under_butlast by blast
      then show "parent_error (fs v) p = None"
        using assms(6) Some v(4) by (simp add: parent_error_def)
      show "\<not> is_file_node (node_at (fs v) p)"
        using assms(4) v(4) by (auto simp: is_file_node_def granted_def split: option.splits node.splits)
    qed (use v assms Some in auto)
    then obtain t where "remove_dir_all p v = (Inr (), t)" "no_faults t"
      "\<forall>q. node_at (fs t) q = (if under p q then None else node_at (fs v) q)" by blast
    with meta v Some show ?thesis
      by (auto simp: remove_tree_def remove_tree_steps_def bindM_runs contextM_def)
  qed
qed

definition demo_world :: "fs \<Rightarrow> world" where
  "demo_world f = \<lparr>fs = f, tick = 0, fault = (\<lambda>_. None), stderr = [], stdout = []\<rparr>"

definition demo_locked :: fs where
  "demo_locked = [([RootDir], Dir 0x1ED), ([RootDir, Normal ''l''], Dir 0x16D),
     ([RootDir, Normal ''l'', Normal ''x''], Dir 0), ([RootDir, Normal ''l'', Normal ''x'', Normal ''f''], File ''text''),
     ([RootDir, Normal ''k''], File ''kept'')]"

theorem remove_tree_total_witness:
  "\<exists>t. remove_tree [RootDir, Normal ''l''] (demo_world demo_locked) = (Inr (), t) \<and>
       node_at (fs t) [RootDir, Normal ''l'', Normal ''x'', Normal ''f''] = None \<and>
       node_at (fs t) [RootDir, Normal ''k''] = Some (File ''kept'')"
proof -
  have "wf_fs demo_locked"
    by (auto simp: wf_fs_def node_at_def demo_locked_def split: if_splits)
  moreover have "normal_below [RootDir, Normal ''l''] (node_at demo_locked)"
    by (auto simp: normal_below_def node_at_def demo_locked_def split: if_splits)
  ultimately show ?thesis
    using remove_tree_total [of "demo_world demo_locked" "[RootDir, Normal ''l'']"]
    by (force simp: demo_world_def no_faults_def is_file_node_def parent_error_def writable_def
        demo_locked_def node_at_def under_def)
qed

end
