(* ===== verification/Limits.thy ===== *)
theory Limits
  imports App_Config
begin

text \<open>
  The resource limits of \<open>src/spec.rs\<close>: \<open>parse_memory\<close>, \<open>parse_size\<close> and \<open>resources\<close>, which
  turn the \<open>[limits]\<close> section into the resources of the runtime spec. An \<open>i64\<close> is an \<open>int\<close>
  whose range every parse and checked operation tests.
\<close>

section \<open>Sizes\<close>

definition is_i64 :: "int \<Rightarrow> bool" where
  "is_i64 v \<longleftrightarrow> i64_min \<le> v \<and> v \<le> i64_max"

definition i64_checked_mul :: "int \<Rightarrow> int \<Rightarrow> int option" where
  "i64_checked_mul a b = (if is_i64 (a * b) then Some (a * b) else None)"

definition i64_checked_add :: "int \<Rightarrow> int \<Rightarrow> int option" where
  "i64_checked_add a b = (if is_i64 (a + b) then Some (a + b) else None)"

definition i64_parse :: "string \<Rightarrow> int res" where
  "i64_parse s = (case parse_signed 64 s of None \<Rightarrow> Inl (Ext ''invalid integer'') | Some v \<Rightarrow> Inr v)"

definition multiplier :: "string \<Rightarrow> int option" where
  "multiplier u =
     (if List.member ['''', ''b''] u then Some 1
      else if List.member [''k'', ''kb'', ''kib''] u then Some 1024
      else if List.member [''m'', ''mb'', ''mib''] u then Some (1024 * 1024)
      else if List.member [''g'', ''gb'', ''gib''] u then Some (1024 * 1024 * 1024)
      else if List.member [''t'', ''tb'', ''tib''] u then Some (1024 * 1024 * 1024 * 1024)
      else None)"

definition parse_memory :: "string \<Rightarrow> string \<Rightarrow> int res" where
  "parse_memory key value =
     (let digits = trim_end_matches is_ascii_alphabetic value in
      and_then (with_context (key @ '' limit '' @ quoted value @ '' is not a whole number of bytes'')
                  (i64_parse digits)) (\<lambda>amount.
      if amount < 0 then Inl (Bail (key @ '' limit '' @ quoted value @ '' must not be negative''))
      else let unit = map to_ascii_lowercase (drop (length digits) value) in
        case multiplier unit of
          None \<Rightarrow> Inl (Bail (key @ '' limit '' @ quoted value @ '': '' @ quoted unit
                            @ '' is not a known unit (b, k, m, g, t)''))
        | Some m \<Rightarrow>
            option_context (key @ '' limit '' @ quoted value @ '' is too large'')
              (i64_checked_mul amount m)))"

definition parse_size :: "string \<Rightarrow> string \<Rightarrow> int res" where
  "parse_size key value =
     and_then (parse_memory key value) (\<lambda>size.
     if size = 0 then Inl (Bail (key @ '' limit '' @ quoted value @ '' must be greater than zero''))
     else Inr size)"

section \<open>The resources of the runtime spec\<close>

record linux_memory =
  mem_limit :: int
  mem_swap :: "int option"

record linux_cpu =
  cpu_quota :: "int option"
  cpu_period :: "int option"
  cpu_share_count :: "int option"

record linux_resources =
  res_memory :: "linux_memory option"
  res_unified :: "(string \<times> string) list option"
  res_cpu :: "linux_cpu option"
  res_pids :: "int option"

definition CPU_PERIOD :: int where "CPU_PERIOD = 100000"
definition CPU_SHARES_LOW :: int where "CPU_SHARES_LOW = 2"
definition CPU_SHARES_HIGH :: int where "CPU_SHARES_HIGH = 262144"

text \<open>\<open>cpu <= 0.0 || cpu.is_nan()\<close> and \<open>cpu * CPU_PERIOD as f64\<close>.\<close>

fun cpu_refused :: "f64 \<Rightarrow> bool" where
  "cpu_refused NaN = True"
| "cpu_refused Infinity = False"
| "cpu_refused NegInfinity = True"
| "cpu_refused (Finite m e) = (m \<le> 0)"

fun times_period :: "f64 \<Rightarrow> f64" where
  "times_period (Finite m e) = fl_round (m * CPU_PERIOD) e"
| "times_period x = x"

definition opt_res :: "('a \<Rightarrow> 'b res) \<Rightarrow> 'a option \<Rightarrow> 'b option res" where
  "opt_res f x = (case x of None \<Rightarrow> Inr None | Some v \<Rightarrow> and_then (f v) (\<lambda>y. Inr (Some y)))"

definition memory_limits :: "limits_config \<Rightarrow> int option \<Rightarrow> linux_memory option res" where
  "memory_limits l mem =
     (case mem of
        Some m \<Rightarrow>
          (case swap l of
             None \<Rightarrow> Inr (Some \<lparr>mem_limit = m, mem_swap = None\<rparr>)
           | Some sw \<Rightarrow>
               and_then (parse_memory ''swap'' sw) (\<lambda>s.
               and_then (option_context ''the memory and swap limits added together are too large''
                           (i64_checked_add m s)) (\<lambda>total.
               Inr (Some \<lparr>mem_limit = m, mem_swap = Some total\<rparr>))))
      | None \<Rightarrow>
          (case swap l of
             None \<Rightarrow> Inr None
           | Some sw \<Rightarrow>
               Inl (Bail (''swap limit '' @ quoted sw @ '' needs a memory limit to sit on top of''))))"

definition unified_limits :: "limits_config \<Rightarrow> int option \<Rightarrow> (string \<times> string) list option res" where
  "unified_limits l mem =
     (case memory_high l of
        None \<Rightarrow> Inr None
      | Some value \<Rightarrow>
          and_then (parse_size ''memory-high'' value) (\<lambda>high.
          if (case mem of None \<Rightarrow> False | Some m \<Rightarrow> high \<ge> m)
          then Inl (Bail (''memory-high '' @ quoted value
                         @ '' must be below the memory limit to have any effect''))
          else Inr (Some [(''memory.high'', int_str high)])))"

text \<open>\<open>fmt\<close> prints an \<open>f64\<close>, which only the message of a refused limit does.\<close>

definition cpu_quota_of :: "(f64 \<Rightarrow> string) \<Rightarrow> f64 \<Rightarrow> int res" where
  "cpu_quota_of fmt c =
     (if cpu_refused c then Inl (Bail (''cpu limit '' @ fmt c @ '' must be greater than zero''))
      else Inr (round_as_i64 (times_period c)))"

definition cpu_shares_of :: "int \<Rightarrow> int res" where
  "cpu_shares_of s =
     (if \<not> (CPU_SHARES_LOW \<le> s \<and> s \<le> CPU_SHARES_HIGH)
      then Inl (Bail (''cpu-shares '' @ int_str s @ '' must be between '' @ int_str CPU_SHARES_LOW
                     @ '' and '' @ int_str CPU_SHARES_HIGH))
      else Inr s)"

definition cpu_limits :: "(f64 \<Rightarrow> string) \<Rightarrow> limits_config \<Rightarrow> linux_cpu option res" where
  "cpu_limits fmt l =
     (if cpu l \<noteq> None \<or> cpu_shares l \<noteq> None
      then and_then (opt_res (cpu_quota_of fmt) (cpu l)) (\<lambda>q.
           and_then (opt_res cpu_shares_of (cpu_shares l)) (\<lambda>s.
           Inr (Some \<lparr>cpu_quota = q, cpu_period = map_option (\<lambda>_. CPU_PERIOD) q,
                      cpu_share_count = s\<rparr>)))
      else Inr None)"

definition pids_limit :: "int \<Rightarrow> int res" where
  "pids_limit p =
     (if p \<le> 0 then Inl (Bail (''pids limit '' @ int_str p @ '' must be greater than zero'')) else Inr p)"

definition resources :: "(f64 \<Rightarrow> string) \<Rightarrow> limits_config \<Rightarrow> linux_resources option res" where
  "resources fmt l =
     (if memory l = None \<and> swap l = None \<and> memory_high l = None \<and> cpu l = None \<and>
         cpu_shares l = None \<and> pids l = None
      then Inr None
      else
        and_then (opt_res (parse_size ''memory'') (memory l)) (\<lambda>mem.
        and_then (memory_limits l mem) (\<lambda>m.
        and_then (unified_limits l mem) (\<lambda>u.
        and_then (cpu_limits fmt l) (\<lambda>c.
        and_then (opt_res pids_limit (pids l)) (\<lambda>p.
        Inr (Some \<lparr>res_memory = m, res_unified = u, res_cpu = c, res_pids = p\<rparr>)))))))"

section \<open>Sizes are read exactly\<close>

lemma i64_range: "is_i64 v \<longleftrightarrow> - (2 ^ 63) \<le> v \<and> v < 2 ^ 63"
  by (auto simp: is_i64_def i64_min_def i64_max_def)

lemma parse_signed_nat_str_large:
  "2 ^ (bits - 1) \<le> int n \<Longrightarrow> parse_signed bits (nat_str n) = None"
  using nat_str_head [of n] digits_val_nat_str [of n] by (auto simp: parse_signed_def)

lemma nat_str_last_digit: "\<not> is_ascii_alphabetic (last (nat_str n))"
  by (meson digit_not_sign last_in_set nat_str_digits nat_str_nonempty)

lemma trim_nat_str:
  "\<forall>c \<in> set u. is_ascii_alphabetic c \<Longrightarrow>
   trim_end_matches is_ascii_alphabetic (nat_str n @ u) = nat_str n"
  by (rule trim_end_matches_append) (simp_all add: nat_str_last_digit)

lemma parse_memory_exact:
  assumes "\<forall>c \<in> set u. is_ascii_alphabetic c"
  shows "parse_memory key (nat_str n @ u) =
    (let what = key @ '' limit '' @ quoted (nat_str n @ u); v = map to_ascii_lowercase u in
     if 2 ^ 63 \<le> n then Inl (Context (what @ '' is not a whole number of bytes'') (Ext ''invalid integer''))
     else case multiplier v of
       None \<Rightarrow> Inl (Bail (what @ '': '' @ quoted v @ '' is not a known unit (b, k, m, g, t)''))
     | Some m \<Rightarrow> if int n * m < 2 ^ 63 then Inr (int n * m)
                 else Inl (Bail (what @ '' is too large'')))"
proof -
  have m: "multiplier v = Some m \<Longrightarrow> 0 < m" for v m
    by (auto simp: multiplier_def split: if_splits)
  have "0 \<le> int n * m" if "0 < m" for m using that by simp
  then have "- (2 ^ 63) \<le> int n * m" if "0 < m" for m using that by (smt (verit) zero_le_power)
  moreover have "i64_parse (nat_str n) = (if 2 ^ 63 \<le> n then Inl (Ext ''invalid integer'') else Inr (int n))"
    using parse_signed_nat_str [of n 64] parse_signed_nat_str_large [of 64 n]
    by (auto simp: i64_parse_def)
  ultimately show ?thesis
    using m by (auto simp: parse_memory_def trim_nat_str [OF assms] Let_def i64_checked_mul_def
        i64_range option_context_def split: option.splits)
qed



section \<open>What accepted limits are worth\<close>

lemma parse_memory_range: "parse_memory key value = Inr v \<Longrightarrow> 0 \<le> v \<and> v \<le> i64_max"
  by (auto simp: parse_memory_def Let_def and_then_Inr_iff i64_checked_mul_def is_i64_def
      multiplier_def split: if_splits option.splits)

lemma parse_size_range: "parse_size key value = Inr v \<Longrightarrow> 0 < v \<and> v \<le> i64_max \<and> parse_memory key value = Inr v"
  using parse_memory_range by (fastforce simp: parse_size_def and_then_Inr_iff split: if_splits)

lemma opt_res_Inr: "opt_res f x = Inr y \<longleftrightarrow> (case x of None \<Rightarrow> y = None | Some v \<Rightarrow> (\<exists>w. y = Some w \<and> f v = Inr w))"
  by (auto simp: opt_res_def and_then_Inr_iff split: option.splits)

text \<open>What the resources of the runtime spec may hold at all.\<close>

definition sane_memory :: "limits_config \<Rightarrow> linux_memory \<Rightarrow> bool" where
  "sane_memory l m \<longleftrightarrow>
     (\<exists>v. memory l = Some v \<and> parse_memory ''memory'' v = Inr (mem_limit m)) \<and>
     0 < mem_limit m \<and> mem_limit m \<le> i64_max \<and>
     (case swap l of
        None \<Rightarrow> mem_swap m = None
      | Some sw \<Rightarrow> (\<exists>s. parse_memory ''swap'' sw = Inr s \<and> mem_swap m = Some (mem_limit m + s) \<and>
                        mem_limit m + s \<le> i64_max))"

definition sane_cpu :: "limits_config \<Rightarrow> linux_cpu \<Rightarrow> bool" where
  "sane_cpu l c \<longleftrightarrow>
     (case cpu l of
        None \<Rightarrow> cpu_quota c = None \<and> cpu_period c = None
      | Some x \<Rightarrow> \<not> cpu_refused x \<and> cpu_quota c = Some (round_as_i64 (times_period x)) \<and>
                  cpu_period c = Some 100000) \<and>
     cpu_share_count c = cpu_shares l \<and>
     (\<forall>s. cpu_shares l = Some s \<longrightarrow> 2 \<le> s \<and> s \<le> 262144)"

definition sane_high :: "linux_resources \<Rightarrow> int \<Rightarrow> bool" where
  "sane_high r h \<longleftrightarrow> 0 < h \<and> h \<le> i64_max \<and> (\<forall>m. res_memory r = Some m \<longrightarrow> h < mem_limit m)"

lemma memory_limits_Inr:
  assumes "opt_res (parse_size ''memory'') (memory l) = Inr mem" "memory_limits l mem = Inr m"
  shows "(m = None \<longleftrightarrow> memory l = None \<and> swap l = None) \<and> map_option mem_limit m = mem \<and>
         (\<forall>x. m = Some x \<longrightarrow> sane_memory l x)"
  using assms parse_size_range
  by (fastforce simp: memory_limits_def opt_res_Inr sane_memory_def and_then_Inr_iff
      i64_checked_add_def is_i64_def split: option.splits if_splits)

lemma cpu_limits_Inr:
  assumes "cpu_limits fmt l = Inr c"
  shows "(c = None \<longleftrightarrow> cpu l = None \<and> cpu_shares l = None) \<and> (\<forall>x. c = Some x \<longrightarrow> sane_cpu l x)"
  using assms
  by (cases "cpu l"; cases "cpu_shares l")
    (auto simp: cpu_limits_def opt_res_Inr sane_cpu_def and_then_Inr_iff cpu_quota_of_def
      cpu_shares_of_def CPU_PERIOD_def CPU_SHARES_LOW_def CPU_SHARES_HIGH_def split: if_splits)

lemma unified_limits_Inr:
  assumes "unified_limits l mem = Inr u"
  shows "case memory_high l of None \<Rightarrow> u = None | Some v \<Rightarrow>
           (\<exists>h. parse_memory ''memory-high'' v = Inr h \<and> u = Some [(''memory.high'', int_str h)] \<and>
                0 < h \<and> h \<le> i64_max \<and> (\<forall>m. mem = Some m \<longrightarrow> h < m))"
proof (cases "memory_high l")
  case (Some v)
  then obtain h where "parse_size ''memory-high'' v = Inr h" "u = Some [(''memory.high'', int_str h)]"
    "\<not> (case mem of None \<Rightarrow> False | Some m \<Rightarrow> m \<le> h)"
    using assms by (auto simp: unified_limits_def and_then_Inr_iff split: if_splits)
  with parse_size_range [of "''memory-high''" v h] Some show ?thesis by (auto split: option.splits)
qed (use assms in \<open>simp add: unified_limits_def\<close>)

text \<open>
  C23: limits that are accepted are handed to the runtime as they were written: the memory limit
  is the positive size of its setting, swap is memory and swap together and still an \<open>i64\<close>,
  \<open>memory.high\<close> is positive and below the memory limit, CPU shares are in the accepted range, the
  pids limit is positive, and a part is present exactly when the definition sets it.
\<close>

theorem resources_sound:
  assumes "resources fmt l = Inr (Some r)"
  shows "(\<forall>m. res_memory r = Some m \<longrightarrow> sane_memory l m) \<and> (res_memory r = None \<longleftrightarrow> memory l = None) \<and>
         (case memory_high l of
            None \<Rightarrow> res_unified r = None
          | Some v \<Rightarrow> (\<exists>h. parse_memory ''memory-high'' v = Inr h \<and> sane_high r h \<and>
                            res_unified r = Some [(''memory.high'', int_str h)])) \<and>
         (\<forall>c. res_cpu r = Some c \<longrightarrow> sane_cpu l c) \<and>
         (res_cpu r = None \<longleftrightarrow> cpu l = None \<and> cpu_shares l = None) \<and>
         res_pids r = pids l \<and> (\<forall>p. pids l = Some p \<longrightarrow> 0 < p)"
proof -
  obtain mem m u c p where *: "opt_res (parse_size ''memory'') (memory l) = Inr mem"
    "memory_limits l mem = Inr m" "unified_limits l mem = Inr u" "cpu_limits fmt l = Inr c"
    "opt_res pids_limit (pids l) = Inr p"
    "r = \<lparr>res_memory = m, res_unified = u, res_cpu = c, res_pids = p\<rparr>"
    using assms by (auto simp: resources_def and_then_Inr_iff split: if_splits)
  have mem: "m = None \<longleftrightarrow> memory l = None" "mem = map_option mem_limit m"
    using memory_limits_Inr [OF *(1,2)] *(1,2)
    by (auto simp: opt_res_Inr memory_limits_def split: option.splits)
  have "p = pids l \<and> (\<forall>q. pids l = Some q \<longrightarrow> 0 < q)"
    using *(5) by (auto simp: opt_res_Inr pids_limit_def split: option.splits if_splits)
  then show ?thesis
    using memory_limits_Inr [OF *(1,2)] cpu_limits_Inr [OF *(4)] unified_limits_Inr [OF *(3)] mem
    by (auto simp: *(6) sane_high_def split: option.splits)
qed

definition demo_limits :: limits_config where
  "demo_limits = limits_default\<lparr>memory := Some ''2k'', swap := Some ''0'', pids := Some 7,
     cpu_shares := Some 1024, cpu := Some (Finite 1 (- 1))\<rparr>"

lemma demo_limits_resources:
  "resources fmt demo_limits =
     Inr (Some \<lparr>res_memory = Some \<lparr>mem_limit = 2048, mem_swap = Some 2048\<rparr>, res_unified = None,
       res_cpu = Some \<lparr>cpu_quota = Some 50000, cpu_period = Some 100000, cpu_share_count = Some 1024\<rparr>,
       res_pids = Some 7\<rparr>)"
proof -
  have n: "nat_str 2 = ''2''" "nat_str 0 = ''0''" by (simp_all add: nat_str.simps)
  have k: "\<forall>c \<in> set ''k''. is_ascii_alphabetic c"
    by (simp add: is_ascii_alphabetic_def is_ascii_uppercase_def is_ascii_lowercase_def)
  have "map to_ascii_lowercase ''k'' = ''k''"
    by (simp add: to_ascii_lowercase_def is_ascii_uppercase_def)
  then have "parse_memory ''memory'' ''2k'' = Inr 2048" "parse_memory ''swap'' ''0'' = Inr 0"
    using parse_memory_exact [OF k, of "''memory''" 2] parse_memory_exact [of "[]" "''swap''" 0]
    by (simp_all add: n multiplier_def Let_def del: list.map)
  moreover have "bitlen 100000 = 17" by (simp add: bitlen.simps)
  then have "times_period (Finite 1 (- 1)) = Finite 100000 (- 1)"
    by (simp add: fl_round_def round_half_even_def CPU_PERIOD_def Let_def)
  ultimately show ?thesis
    by (simp add: resources_def demo_limits_def limits_default_def opt_res_def parse_size_def
        memory_limits_def unified_limits_def cpu_limits_def cpu_quota_of_def cpu_shares_of_def
        pids_limit_def i64_checked_add_def is_i64_def i64_min_def i64_max_def CPU_PERIOD_def
        CPU_SHARES_LOW_def CPU_SHARES_HIGH_def round_as_i64_def Let_def)
qed

theorem resources_sound_witness:
  "sane_memory demo_limits \<lparr>mem_limit = 2048, mem_swap = Some 2048\<rparr> \<and>
   sane_cpu demo_limits \<lparr>cpu_quota = Some 50000, cpu_period = Some 100000, cpu_share_count = Some 1024\<rparr>"
  using resources_sound [OF demo_limits_resources] by simp

text \<open>A CPU limit above zero can still round to a quota of zero.\<close>

lemma tiny_cpu_limit:
  "cpu_limits fmt (limits_default\<lparr>cpu := Some (Finite 1 (- 20))\<rparr>) =
     Inr (Some \<lparr>cpu_quota = Some 0, cpu_period = Some 100000, cpu_share_count = None\<rparr>)"
proof -
  have "bitlen 100000 = 17" by (simp add: bitlen.simps)
  then show ?thesis
    by (simp add: cpu_limits_def limits_default_def opt_res_def cpu_quota_of_def fl_round_def
        round_half_even_def CPU_PERIOD_def round_as_i64_def i64_min_def i64_max_def Let_def)
qed

end
