(* ===== verification/Localnet.thy ===== *)
theory Localnet
  imports Climate_Prelude
begin

text \<open>
  \<open>src/localnet.rs\<close>: the LAN relay of \<open>network = "localnet"\<close>. The host's routing table is
  parsed from the two \<open>/proc/net\<close> texts (\<open>v4_route\<close>, \<open>v6_route\<close>, \<open>routes\<close>), \<open>egress\<close>
  decides whether an address is on a network of the host itself, and the relays connect
  through a socket held to the interface \<open>egress\<close> approved. Addresses and the \<open>u32\<close>
  arithmetic keep their width. System calls appear as the trace of calls made, each of which
  the environment may let fail.
\<close>

section \<open>Addresses and routes\<close>

datatype ip_addr = V4 "32 word" | V6 "128 word"

record route =
  net :: ip_addr
  prefix :: "32 word"
  gateway :: "ip_addr option"
  reject :: bool
  device :: string

definition RTF_UP :: "32 word" where "RTF_UP = 0x1"
definition RTF_GATEWAY :: "32 word" where "RTF_GATEWAY = 0x2"
definition RTF_REJECT :: "32 word" where "RTF_REJECT = 0x200"

text \<open>\<open>u128::checked_shr\<close>.\<close>

definition checked_shr :: "128 word \<Rightarrow> 32 word \<Rightarrow> 128 word option" where
  "checked_shr x n = (if unat n < 128 then Some (drop_bit (unat n) x) else None)"

definition same_prefix :: "128 word \<Rightarrow> 128 word \<Rightarrow> 32 word \<Rightarrow> 32 word \<Rightarrow> bool" where
  "same_prefix a b width pre =
     ((case checked_shr (a XOR b) (width - pre) of Some x \<Rightarrow> x | None \<Rightarrow> 0) = 0)"

fun route_contains :: "route \<Rightarrow> ip_addr \<Rightarrow> bool" where
  "route_contains r ip =
     (case (net r, ip) of
        (V4 n, V4 i) \<Rightarrow> same_prefix (ucast n) (ucast i) 32 (prefix r)
      | (V6 n, V6 i) \<Rightarrow> same_prefix n i 128 (prefix r)
      | _ \<Rightarrow> False)"

definition on_link :: "route \<Rightarrow> bool" where
  "on_link r \<longleftrightarrow> gateway r = None \<and> \<not> reject r \<and> prefix r > 0 \<and> device r \<noteq> ''lo''"

section \<open>Parsing the kernel's tables\<close>

definition hex32 :: "string \<Rightarrow> 32 word option" where
  "hex32 field = map_option of_nat (parse_unsigned 32 16 field)"

text \<open>
  \<open>to_ne_bytes\<close> depends on the machine: \<open>Little\<close> for the targets that are built
  (\<open>x86_64\<close>, \<open>aarch64\<close>), \<open>Big\<close> for the others.
\<close>

datatype endian = Little | Big

definition be_bytes :: "32 word \<Rightarrow> 8 word list" where
  "be_bytes w = map (\<lambda>i. ucast (drop_bit (8 * i) w)) [3, 2, 1, 0]"

definition to_ne_bytes :: "endian \<Rightarrow> 32 word \<Rightarrow> 8 word list" where
  "to_ne_bytes e w = (case e of Big \<Rightarrow> be_bytes w | Little \<Rightarrow> rev (be_bytes w))"

text \<open>\<open>Ipv4Addr::from([u8; 4])\<close>: the octets from the most significant one.\<close>

definition ipv4_from_octets :: "8 word list \<Rightarrow> 32 word" where
  "ipv4_from_octets bs = foldl (\<lambda>acc b. push_bit 8 acc OR ucast b) 0 bs"

definition v4_field :: "endian \<Rightarrow> string \<Rightarrow> ip_addr option" where
  "v4_field e field = do {
     w \<leftarrow> hex32 field;
     Some (V4 (ipv4_from_octets (to_ne_bytes e w)))
   }"

text \<open>\<open>u32::count_ones\<close>.\<close>

definition count_ones :: "32 word \<Rightarrow> 32 word" where
  "count_ones w = of_nat (length (filter (bit w) [0..<32]))"

definition v4_route :: "endian \<Rightarrow> string \<Rightarrow> route option" where
  "v4_route e line =
     (let fields = split_whitespace line in do {
        f3 \<leftarrow> get 3 fields;
        flags \<leftarrow> hex32 f3;
        (if flags AND RTF_UP = 0 then None
         else do {
           f1 \<leftarrow> get 1 fields;
           n \<leftarrow> v4_field e f1;
           f7 \<leftarrow> get 7 fields;
           m \<leftarrow> hex32 f7;
           gw \<leftarrow> (if flags AND RTF_GATEWAY \<noteq> 0
                  then do { f2 \<leftarrow> get 2 fields; Some (v4_field e f2) }
                  else Some None);
           d \<leftarrow> get 0 fields;
           Some \<lparr>net = n, prefix = count_ones m, gateway = gw,
                 reject = (flags AND RTF_REJECT \<noteq> 0), device = d\<rparr>
         })
      })"

definition v6_field :: "string \<Rightarrow> ip_addr option" where
  "v6_field field = map_option (\<lambda>n. V6 (of_nat n)) (parse_unsigned 128 16 field)"

definition v6_route :: "string \<Rightarrow> route option" where
  "v6_route line =
     (let fields = split_whitespace line in do {
        f8 \<leftarrow> get 8 fields;
        flags \<leftarrow> hex32 f8;
        (if flags AND RTF_UP = 0 then None
         else do {
           f0 \<leftarrow> get 0 fields;
           n \<leftarrow> v6_field f0;
           f1 \<leftarrow> get 1 fields;
           p \<leftarrow> hex32 f1;
           gw \<leftarrow> (if flags AND RTF_GATEWAY \<noteq> 0
                  then do { f4 \<leftarrow> get 4 fields; Some (v6_field f4) }
                  else Some None);
           d \<leftarrow> get 9 fields;
           Some \<lparr>net = n, prefix = p, gateway = gw,
                 reject = (flags AND RTF_REJECT \<noteq> 0), device = d\<rparr>
         })
      })"

text \<open>A text that could not be read is \<open>None\<close>, and counts as empty (\<open>unwrap_or_default\<close>).\<close>

definition text_of :: "string option \<Rightarrow> string" where
  "text_of t = (case t of None \<Rightarrow> [] | Some s \<Rightarrow> s)"

definition routes :: "endian \<Rightarrow> string option \<Rightarrow> string option \<Rightarrow> route list" where
  "routes e v4 v6 =
     filter_map (v4_route e) (drop 1 (lines (text_of v4)))
     @ filter_map v6_route (lines (text_of v6))"

section \<open>The egress decision\<close>

fun is_unicast :: "ip_addr \<Rightarrow> bool" where
  "is_unicast (V4 a) = (\<not> (a = 0 \<or> a = - 1 \<or> drop_bit 28 a = 0xE))"
| "is_unicast (V6 a) = (\<not> (a = 0 \<or> drop_bit 120 a = 0xFF))"

definition matching :: "route list \<Rightarrow> ip_addr \<Rightarrow> route list" where
  "matching tbl ip = filter (\<lambda>r. route_contains r ip) tbl"

text \<open>\<open>Iterator::max\<close> over the prefixes.\<close>

fun longest :: "route list \<Rightarrow> 32 word option" where
  "longest [] = None"
| "longest (r # rs) =
     (case longest rs of None \<Rightarrow> Some (prefix r) | Some m \<Rightarrow> Some (max (prefix r) m))"

definition egress :: "route list \<Rightarrow> ip_addr \<Rightarrow> string option" where
  "egress tbl ip =
     (if \<not> is_unicast ip then None
      else do {
        l \<leftarrow> longest (matching tbl ip);
        (let best = filter (\<lambda>r. prefix r = l) (matching tbl ip)
         in if list_all on_link best then map_option device (get 0 best) else None)
      })"

section \<open>The container's resolv.conf\<close>

text \<open>\<open>Display\<close> of the two address types.\<close>

definition ipv4_str :: "32 word \<Rightarrow> string" where
  "ipv4_str a = join_on ''.'' (map (\<lambda>b. nat_str (unat b)) (be_bytes a))"

definition segments :: "128 word \<Rightarrow> nat list" where
  "segments a = map (\<lambda>i. unat (take_bit 16 (drop_bit (16 * i) a))) [7, 6, 5, 4, 3, 2, 1, 0]"

fun hex_digits :: "nat \<Rightarrow> string" where
  "hex_digits n = (if n < 16 then [digit_char n] else hex_digits (n div 16) @ [digit_char (n mod 16)])"

declare hex_digits.simps [simp del]

text \<open>
  The longest run of zero segments, the first of the longest ones: \<open>(start, length)\<close>.
  The scan keeps the current run and the longest so far.
\<close>

fun zero_run :: "nat \<Rightarrow> nat \<times> nat \<Rightarrow> nat \<times> nat \<Rightarrow> nat list \<Rightarrow> nat \<times> nat" where
  "zero_run i cur best [] = best"
| "zero_run i (cs, cl) (bs, bl) (s # ss) =
     (if s = 0
      then (let cur = (if cl = 0 then i else cs, cl + 1)
            in zero_run (i + 1) cur (if snd cur > bl then cur else (bs, bl)) ss)
      else zero_run (i + 1) (0, 0) (bs, bl) ss)"

definition ipv6_str :: "128 word \<Rightarrow> string" where
  "ipv6_str a =
     (let ss = segments a; hex = (\<lambda>xs. join_on '':'' (map hex_digits xs))
      in if take 6 ss = [0, 0, 0, 0, 0, 0xFFFF]
         then ''::ffff:'' @ ipv4_str (ucast a)
         else case zero_run 0 (0, 0) (0, 0) ss of (b, l) \<Rightarrow>
           if l > 1 then hex (take b ss) @ ''::'' @ hex (drop (b + l) ss) else hex ss)"

fun ip_str :: "ip_addr \<Rightarrow> string" where
  "ip_str (V4 a) = ipv4_str a"
| "ip_str (V6 a) = ipv6_str a"

text \<open>\<open>is_unicast_link_local\<close>: \<open>fe80::/10\<close>.\<close>

fun link_local :: "ip_addr \<Rightarrow> bool" where
  "link_local (V4 a) = False"
| "link_local (V6 a) = (drop_bit 118 a = 0x3FA)"

definition name_server :: "route \<Rightarrow> string option" where
  "name_server r =
     (case gateway r of
        None \<Rightarrow> None
      | Some g \<Rightarrow> if prefix r = 0 \<and> \<not> link_local g
                  then Some (''nameserver '' @ ip_str g) else None)"

definition search_line :: "string \<Rightarrow> string option" where
  "search_line l = (if starts_with ''search'' l \<or> starts_with ''domain'' l then Some l else None)"

definition resolv_conf :: "route list \<Rightarrow> string option \<Rightarrow> string" where
  "resolv_conf tbl host =
     concat (map (\<lambda>l. l @ [newline])
       (filter_map name_server tbl @ filter_map search_line (lines (text_of host))))"

section \<open>Setting up the TUN device\<close>

type_synonym u8 = "8 word"

text \<open>\<open>ifreq\<close>: 16 name slots, zeroed, filled from the front and never past the end.\<close>

definition ifreq :: "u8 list \<Rightarrow> u8 list" where
  "ifreq name = take 16 name @ replicate (16 - length name) 0"

definition TUN_NAME :: "u8 list" where "TUN_NAME = map of_char ''tun0''"
definition TUN_V4 :: "32 word" where "TUN_V4 = ipv4_from_octets [198, 18, 0, 1]"
definition TUN_V6 :: "128 word" where "TUN_V6 = 0xfdc11a7e000000000000000000000001"
definition MTU :: "16 word" where "MTU = 1500"
definition IFF_UP :: "16 word" where "IFF_UP = 0x1"
definition IFF_TUN :: "16 word" where "IFF_TUN = 0x1"
definition IFF_NO_PI :: "16 word" where "IFF_NO_PI = 0x1000"

text \<open>The bytes of \<open>sin_addr\<close> are the octets themselves, whatever the byte order.\<close>

definition sockaddr_v4 :: "32 word \<Rightarrow> u8 list" where
  "sockaddr_v4 a = be_bytes a"

datatype net_call =
    Socket_inet
  | Socket_inet6
  | Open_tun
  | Get_flags "u8 list"
  | Set_flags "u8 list" "16 word"
  | Tun_set_iff "u8 list" "16 word"
  | Set_addr4 "u8 list" "u8 list"
  | Add_route4 "u8 list" "u8 list" "16 word" "u8 list"
  | Name_to_index "u8 list"
  | Set_addr6 "128 word" nat "32 word"

text \<open>The kernel's answers are the parameter \<open>sys\<close> of each script.\<close>

definition bring_up ::
  "(net_call trace \<Rightarrow> net_call \<Rightarrow> 32 word res) \<Rightarrow> u8 list \<Rightarrow> (net_call trace, unit) script" where
  "bring_up sys name =
     bindM (call sys Socket_inet) (\<lambda>_.
     bindM (call sys (Get_flags (ifreq name))) (\<lambda>fl.
     bindM (call sys (Set_flags (ifreq name) (ucast fl OR IFF_UP))) (\<lambda>_.
     returnM ())))"

definition add_v6_address ::
  "(net_call trace \<Rightarrow> net_call \<Rightarrow> 32 word res) \<Rightarrow> 32 word \<Rightarrow> (net_call trace, unit) script" where
  "add_v6_address sys index =
     bindM (call sys Socket_inet6) (\<lambda>_.
     bindM (call sys (Set_addr6 TUN_V6 0 index)) (\<lambda>_.
     returnM ()))"

definition create_tun ::
  "(net_call trace \<Rightarrow> net_call \<Rightarrow> 32 word res) \<Rightarrow> (net_call trace, 32 word) script" where
  "create_tun sys =
     bindM (call sys Open_tun) (\<lambda>tun.
     bindM (call sys (Tun_set_iff (ifreq TUN_NAME) (IFF_TUN OR IFF_NO_PI))) (\<lambda>_.
     bindM (call sys Socket_inet) (\<lambda>_.
     bindM (call sys (Set_addr4 (ifreq TUN_NAME) (sockaddr_v4 TUN_V4))) (\<lambda>_.
     bindM (bring_up sys TUN_NAME) (\<lambda>_.
     bindM (call sys (Add_route4 (sockaddr_v4 0) (sockaddr_v4 0) (ucast RTF_UP) (ifreq TUN_NAME))) (\<lambda>_.
     bindM (call sys (Name_to_index TUN_NAME)) (\<lambda>index.
     bindM (ignoreM (add_v6_address sys index)) (\<lambda>_.
     returnM tun))))))))"

section \<open>The relays\<close>

text \<open>
  What a relay does to the host: the sockets it makes and the bytes it passes on. \<open>eg\<close> is the
  decision of \<open>egress\<close> at the moment of the connection, \<open>ok\<close> says which calls succeed.
\<close>

datatype host_call =
    New_tcp_v4
  | New_tcp_v6
  | Bind_udp_any_v4
  | Bind_udp_any_v6
  | Bind_device string
  | Connect ip_addr "16 word"
  | Send "u8 list"

datatype inside_call = Inside_shutdown | Inside_write "u8 list"

definition new_tcp :: "ip_addr \<Rightarrow> host_call" where
  "new_tcp ip = (case ip of V4 _ \<Rightarrow> New_tcp_v4 | V6 _ \<Rightarrow> New_tcp_v6)"

definition connect_tcp ::
  "(ip_addr \<Rightarrow> string option) \<Rightarrow> (host_call trace \<Rightarrow> host_call \<Rightarrow> unit res) \<Rightarrow>
   ip_addr \<times> 16 word \<Rightarrow> (host_call trace, unit) script" where
  "connect_tcp eg ok target =
     (case eg (fst target) of
        None \<Rightarrow> (\<lambda>tr. (Inl (Io ''permission denied''), tr))
      | Some dev \<Rightarrow>
          bindM (call ok (new_tcp (fst target))) (\<lambda>_.
          bindM (call ok (Bind_device dev)) (\<lambda>_.
          call ok (Connect (fst target) (snd target)))))"

text \<open>\<open>Some\<close> what is done to the container's side instead of relaying, \<open>None\<close> when the two
  sides are joined.\<close>

definition relay_tcp ::
  "(ip_addr \<Rightarrow> string option) \<Rightarrow> (host_call trace \<Rightarrow> host_call \<Rightarrow> unit res) \<Rightarrow>
   ip_addr \<times> 16 word \<Rightarrow> inside_call option \<times> host_call trace" where
  "relay_tcp eg ok target =
     (case connect_tcp eg ok target [] of
        (Inr _, tr) \<Rightarrow> (None, tr)
      | (Inl _, tr) \<Rightarrow> (Some Inside_shutdown, tr))"

text \<open>What \<open>tokio::select!\<close> finds ready, in the order it finds it; an error ends the flow.\<close>

datatype udp_event = From_inside "u8 list res" | From_outside "u8 list res"

fun udp_loop ::
  "(host_call trace \<Rightarrow> host_call \<Rightarrow> unit res) \<Rightarrow> (inside_call \<Rightarrow> unit res) \<Rightarrow> udp_event list \<Rightarrow>
   inside_call list \<Rightarrow> host_call trace \<Rightarrow> inside_call list \<times> host_call trace" where
  "udp_loop ok ins [] up tr = (up, tr)"
| "udp_loop ok ins (From_inside (Inl e) # evs) up tr = (up, tr)"
| "udp_loop ok ins (From_inside (Inr bs) # evs) up tr =
     (if bs = [] then (up, tr)
      else (case ok tr (Send bs) of
              Inl _ \<Rightarrow> (up, tr @ [Send bs])
            | Inr _ \<Rightarrow> udp_loop ok ins evs up (tr @ [Send bs])))"
| "udp_loop ok ins (From_outside (Inl e) # evs) up tr = (up, tr)"
| "udp_loop ok ins (From_outside (Inr bs) # evs) up tr =
     (case ins (Inside_write bs) of
        Inl _ \<Rightarrow> (up @ [Inside_write bs], tr)
      | Inr _ \<Rightarrow> udp_loop ok ins evs (up @ [Inside_write bs]) tr)"

definition bind_any :: "ip_addr \<Rightarrow> host_call" where
  "bind_any ip = (case ip of V4 _ \<Rightarrow> Bind_udp_any_v4 | V6 _ \<Rightarrow> Bind_udp_any_v6)"

definition relay_udp ::
  "(ip_addr \<Rightarrow> string option) \<Rightarrow> (host_call trace \<Rightarrow> host_call \<Rightarrow> unit res) \<Rightarrow>
   (inside_call \<Rightarrow> unit res) \<Rightarrow> ip_addr \<times> 16 word \<Rightarrow> udp_event list \<Rightarrow>
   inside_call list \<times> host_call trace" where
  "relay_udp eg ok ins target evs =
     (case eg (fst target) of
        None \<Rightarrow> ([], [])
      | Some dev \<Rightarrow>
          (case bindM (call ok (bind_any (fst target))) (\<lambda>_.
                bindM (call ok (Bind_device dev)) (\<lambda>_.
                call ok (Connect (fst target) (snd target)))) [] of
             (Inl _, tr) \<Rightarrow> ([], tr)
           | (Inr _, tr) \<Rightarrow> udp_loop ok ins evs [] tr))"

text \<open>One stream the stack accepted; anything but TCP and UDP is dropped.\<close>

datatype stack_stream =
    Tcp "ip_addr \<times> 16 word"
  | Udp "ip_addr \<times> 16 word" "udp_event list"
  | Other_stream

definition relay_stream ::
  "(ip_addr \<Rightarrow> string option) \<Rightarrow> (host_call trace \<Rightarrow> host_call \<Rightarrow> unit res) \<Rightarrow>
   (inside_call \<Rightarrow> unit res) \<Rightarrow> stack_stream \<Rightarrow> host_call trace" where
  "relay_stream eg ok ins st =
     (case st of
        Tcp target \<Rightarrow> snd (relay_tcp eg ok target)
      | Udp target evs \<Rightarrow> snd (relay_udp eg ok ins target evs)
      | Other_stream \<Rightarrow> [])"

text \<open>\<open>relay\<close>: every stream of the accept loop, each with the decision of its own moment.\<close>

definition relay ::
  "(host_call trace \<Rightarrow> host_call \<Rightarrow> unit res) \<Rightarrow> (inside_call \<Rightarrow> unit res) \<Rightarrow>
   (route list \<times> stack_stream) list \<Rightarrow> host_call trace list" where
  "relay ok ins sts = map (\<lambda>(tbl, st). relay_stream (egress tbl) ok ins st) sts"

section \<open>The routing decision\<close>

lemma unat_drop_bit_div: "unat (drop_bit n (x::'a::len word)) = unat x div 2 ^ n"
  by (metis drop_bit_eq_div unat_drop_bit_eq)

lemma xor_eq_0: "(a::'a::len word) XOR b = 0 \<longleftrightarrow> a = b"
  by (metis xor.assoc xor.left_neutral xor_self_eq)

lemma drop_bit_xor_0:
  "drop_bit n ((a::'a::len word) XOR b) = 0 \<longleftrightarrow> unat a div 2 ^ n = unat b div 2 ^ n"
  by (metis drop_bit_xor unat_drop_bit_div word_unat_eq_iff xor_eq_0)

text \<open>Shifting out \<open>w - p\<close> bits compares the first \<open>p\<close> of the \<open>w\<close> bits.\<close>

lemma same_prefix_spec:
  assumes "p \<le> w" "unat w \<le> 128" 
  shows "same_prefix a b w p \<longleftrightarrow>
    unat a div 2 ^ (unat w - unat p) = unat b div 2 ^ (unat w - unat p)"
proof (cases "unat (w - p) < 128")
  case True
  with assms show ?thesis
    by (simp add: same_prefix_def checked_shr_def unat_sub drop_bit_xor_0 word_le_nat_alt del: drop_bit_xor)
next
  case False
  have "unat w - unat p = 128" using False assms by (simp add: unat_sub word_le_nat_alt)
  moreover have "unat a < 2 ^ 128" "unat b < 2 ^ 128" 
    using unsigned_less [of a] unsigned_less [of b] by simp_all
  ultimately show ?thesis using False
    by (simp add: same_prefix_def checked_shr_def)
qed

text \<open>The parsed routes have a prefix no longer than their address.\<close>

fun width :: "ip_addr \<Rightarrow> nat" where
  "width (V4 _) = 32" | "width (V6 _) = 128"

fun ip_nat :: "ip_addr \<Rightarrow> nat" where
  "ip_nat (V4 a) = unat a" | "ip_nat (V6 a) = unat a"

definition wf_route :: "route \<Rightarrow> bool" where
  "wf_route r \<longleftrightarrow> unat (prefix r) \<le> width (net r)"

text \<open>Independent of the shifts: the address lies in the network \<open>net/prefix\<close>.\<close>

definition covers :: "route \<Rightarrow> ip_addr \<Rightarrow> bool" where
  "covers r ip \<longleftrightarrow> width (net r) = width ip \<and>
     ip_nat (net r) div 2 ^ (width ip - unat (prefix r)) = ip_nat ip div 2 ^ (width ip - unat (prefix r))"

lemma unat_ucast_32_128 [simp]: "unat (ucast (x :: 32 word) :: 128 word) = unat x"
  using unsigned_less [of x, where ?'a = nat] by (simp add: unsigned_ucast_eq take_bit_nat_eq_self_iff)

lemma route_contains_covers: "wf_route r \<Longrightarrow> route_contains r ip \<longleftrightarrow> covers r ip"
  by (cases "net r"; cases ip)
     (simp_all add: route_contains.simps wf_route_def covers_def same_prefix_spec word_le_nat_alt)

declare route_contains.simps [simp del]

lemma longest_Max: "longest rs = (if rs = [] then None else Some (Max (prefix ` set rs)))"
  by (induction rs) (auto simp: )

definition most_specific :: "route list \<Rightarrow> ip_addr \<Rightarrow> route \<Rightarrow> bool" where
  "most_specific tbl ip r \<longleftrightarrow> r \<in> set tbl \<and> covers r ip \<and>
     (\<forall>r' \<in> set tbl. covers r' ip \<longrightarrow> prefix r' \<le> prefix r)"


lemma matching_spec:
  "\<forall>r \<in> set tbl. wf_route r \<Longrightarrow> matching tbl ip = filter (\<lambda>r. covers r ip) tbl"
  by (simp add: matching_def route_contains_covers cong: filter_cong)

lemma best_spec:
  assumes "\<forall>r \<in> set tbl. wf_route r" and "longest (matching tbl ip) = Some l"
  shows "filter (\<lambda>r. prefix r = l) (matching tbl ip) = filter (most_specific tbl ip) tbl"
proof -
  have m: "matching tbl ip = filter (\<lambda>r. covers r ip) tbl"
    using assms(1) by (rule matching_spec)
  have ne: "{r \<in> set tbl. covers r ip} \<noteq> {}" and l: "l = Max (prefix ` {r \<in> set tbl. covers r ip})"
    using assms(2) by (auto simp: longest_Max m filter_empty_conv split: if_splits)
  have "covers r ip \<and> prefix r = l \<longleftrightarrow> most_specific tbl ip r" if "r \<in> set tbl" for r
  proof
    assume "covers r ip \<and> prefix r = l"
    with that l show "most_specific tbl ip r"
      by (auto simp: most_specific_def)
  next
    assume r: "most_specific tbl ip r"
    then have "l = prefix r" unfolding l
      by (intro Max_eqI) (auto simp: most_specific_def)
    with r show "covers r ip \<and> prefix r = l" by (simp add: most_specific_def)
  qed
  then show ?thesis
    by (simp add: m conj_commute cong: filter_cong)
qed

lemma most_specific_exists:
  assumes "r \<in> set tbl" and "covers r ip"
  shows "\<exists>r'. most_specific tbl ip r'"
proof -
  define P where "P = prefix ` {r \<in> set tbl. covers r ip}"
  have fin: "finite P" and ne: "P \<noteq> {}" using assms by (auto simp: P_def)
  then have "Max P \<in> P" by (rule Max_in)
  then obtain r' where r': "r' \<in> set tbl" "covers r' ip" "prefix r' = Max P"
    by (auto simp: P_def)
  have "prefix q \<le> prefix r'" if "q \<in> set tbl" "covers q ip" for q
    unfolding r'(3) using fin that by (intro Max_ge) (auto simp: P_def)
  with r' show ?thesis by (auto simp: most_specific_def)
qed

lemma egress_spec:
  assumes "\<forall>r \<in> set tbl. wf_route r"
  shows "egress tbl ip = Some dev \<longleftrightarrow>
    is_unicast ip \<and>
    (\<exists>r rs. filter (most_specific tbl ip) tbl = r # rs \<and> device r = dev) \<and>
    (\<forall>r. most_specific tbl ip r \<longrightarrow>
        gateway r = None \<and> \<not> reject r \<and> 0 < prefix r \<and> device r \<noteq> ''lo'')"
proof (cases "longest (matching tbl ip)")
  case None
  then have "filter (\<lambda>r. covers r ip) tbl = []"
    using matching_spec [OF assms, of ip] by (simp add: longest_Max split: if_splits)
  then have "filter (most_specific tbl ip) tbl = []"
    by (auto simp: filter_empty_conv most_specific_def)
  with None show ?thesis by (simp add: egress_def)
next
  case (Some l)
  have all: "list_all on_link (filter (most_specific tbl ip) tbl) \<longleftrightarrow>
      (\<forall>r. most_specific tbl ip r \<longrightarrow> on_link r)"
    by (auto simp: list_all_iff most_specific_def)
  have eq: "egress tbl ip = Some dev \<longleftrightarrow> is_unicast ip \<and>
      list_all on_link (filter (most_specific tbl ip) tbl) \<and>
      map_option device (get 0 (filter (most_specific tbl ip) tbl)) = Some dev"
    using Some by (simp add: egress_def best_spec [OF assms Some] Let_def)
  show ?thesis
    unfolding eq all unfolding on_link_def
    by (cases "filter (most_specific tbl ip) tbl") (auto simp: get_def)
qed


section \<open>Reading the kernel's tables back\<close>

lemma from_be_bytes: "ipv4_from_octets (be_bytes w) = w"
proof (rule bit_word_eqI)
  fix n assume "n < LENGTH(32)"
  then consider "n < 8" | "8 \<le> n" "n < 16" | "16 \<le> n" "n < 24" | "24 \<le> n" "n < 32"
    by fastforce
  then show "bit (ipv4_from_octets (be_bytes w)) n = bit w n"
    by cases (simp_all add: ipv4_from_octets_def be_bytes_def bit_simps; arith)+
qed

lemma bit_u8_above: "8 \<le> n \<Longrightarrow> \<not> bit (a :: 8 word) n"
  by (auto dest: bit_imp_le_length)

lemma bit_from_octets:
  "bit (ipv4_from_octets [a, b, c, d]) n \<longleftrightarrow> n < 32 \<and>
    (if n < 8 then bit d n else if n < 16 then bit c (n - 8)
     else if n < 24 then bit b (n - 16) else bit a (n - 24))"
  by (auto simp: ipv4_from_octets_def bit_simps bit_u8_above)

lemma be_bytes_from: "be_bytes (ipv4_from_octets [a, b, c, d]) = [a, b, c, d]"
proof -
  let ?w = "ipv4_from_octets [a, b, c, d]"
  have "(ucast (drop_bit k ?w) :: 8 word) = x"
    if "\<And>n. n < 8 \<Longrightarrow> bit ?w (k + n) = bit x n" for k and x :: "8 word"
    using that by (intro bit_word_eqI) (simp add: bit_simps)
  from this [of 24 a] this [of 16 b] this [of 8 c] this [of 0 d]
  show ?thesis by (simp add: be_bytes_def bit_from_octets)
qed

text \<open>
  The routes as the kernel prints them: an address is the four octets read as one word of the
  machine, in eight hex digits.
\<close>

definition ne_word :: "endian \<Rightarrow> 32 word \<Rightarrow> 32 word" where
  "ne_word e a = ipv4_from_octets (to_ne_bytes e a)"

lemma ne_word_ne_bytes: "ipv4_from_octets (to_ne_bytes e (ne_word e a)) = a"
proof (cases e)
  case Little
  obtain b3 b2 b1 b0 where b: "be_bytes a = [b3, b2, b1, b0]" by (simp add: be_bytes_def)
  then have "ne_word e a = ipv4_from_octets [b0, b1, b2, b3]"
    using Little by (simp add: ne_word_def to_ne_bytes_def)
  then show ?thesis
    using Little by (simp add: to_ne_bytes_def be_bytes_from) (metis b from_be_bytes)
qed (simp add: ne_word_def to_ne_bytes_def from_be_bytes)

definition hex8 :: "32 word \<Rightarrow> string" where
  "hex8 w = hex_pad 8 (unat w)"

lemma hex32_hex8 [simp]: "hex32 (hex8 w) = Some w"
  using unsigned_less [of w, where ?'a = nat]
  by (simp add: hex32_def hex8_def parse_hex_pad)

lemma v4_field_hex8 [simp]: "v4_field e (hex8 (ne_word e a)) = Some (V4 a)"
  by (simp add: v4_field_def ne_word_ne_bytes)

definition tab :: char where "tab = CHR 0x09"

definition netmask :: "nat \<Rightarrow> 32 word" where
  "netmask p = NOT (mask (32 - p))"

lemma count_ones_card: "count_ones w = of_nat (card {n. n < 32 \<and> bit w n})"
proof -
  have "card {n. n < 32 \<and> bit w n} = card (set (filter (bit w) [0..<32]))"
    by (rule arg_cong [where f = card]) auto
  also have "\<dots> = length (filter (bit w) [0..<32])"
    by (rule distinct_card) simp
  finally show ?thesis by (simp add: count_ones_def)
qed

definition byte_flip :: "nat \<Rightarrow> nat" where
  "byte_flip n = (if n < 8 then n + 24 else if n < 16 then n + 8
                  else if n < 24 then n - 8 else n - 24)"

lemma byte_flip: "n < 32 \<Longrightarrow> byte_flip n < 32" "n < 32 \<Longrightarrow> byte_flip (byte_flip n) = n"
  by (auto simp: byte_flip_def)

lemma bit_ne_word_Little: "n < 32 \<Longrightarrow> bit (ne_word Little w) n = bit w (byte_flip n)"
  by (auto simp: ne_word_def to_ne_bytes_def be_bytes_def bit_from_octets byte_flip_def bit_simps
      add.commute)

lemma count_ones_ne_word: "count_ones (ne_word e w) = count_ones w"
proof (cases e)
  case Little
  have "bij_betw byte_flip {n. n < 32 \<and> bit (ne_word Little w) n} {n. n < 32 \<and> bit w n}"
    by (rule bij_betw_byWitness [where f' = byte_flip])
       (auto simp: byte_flip bit_ne_word_Little)
  with Little show ?thesis by (simp add: count_ones_card bij_betw_same_card)
qed (simp add: ne_word_def to_ne_bytes_def from_be_bytes)

lemma count_ones_netmask: "p \<le> 32 \<Longrightarrow> count_ones (netmask p) = of_nat p"
proof -
  assume "p \<le> 32"
  then have "{n. n < 32 \<and> bit (netmask p) n} = {32 - p..<32}"
    by (auto simp: netmask_def bit_simps)
  with \<open>p \<le> 32\<close> show ?thesis by (simp add: count_ones_card)
qed

definition proc_route_line :: "endian \<Rightarrow> string \<Rightarrow> 32 word \<Rightarrow> 32 word \<Rightarrow> 32 word \<Rightarrow> nat \<Rightarrow> string \<Rightarrow> string" where
  "proc_route_line e dev dst gw flags p rest =
     join_on [tab] [dev, hex8 (ne_word e dst), hex8 (ne_word e gw), hex8 flags,
       ''0'', ''0'', ''0'', hex8 (ne_word e (netmask p)), rest]"

lemma count_ones_bound: "unat (count_ones w) \<le> 32"
proof -
  have "length (filter (bit w) [0..<32]) \<le> 32"
    using length_filter_le [of "bit w" "[0..<32]"] by simp
  then show ?thesis
    by (simp add: count_ones_def unsigned_of_nat order_trans [OF take_bit_nat_less_eq_self])
qed

lemma is_ws_tab [simp]: "is_ws tab" by (simp add: is_ws_def tab_def)

lemma hex_pad_word: "0 < k \<Longrightarrow> is_word (hex_pad k n)"
  using set_hex_pad by (cases k) (auto simp: is_word_def hex_upper_plain)

lemma hex8_word [simp]: "is_word (hex8 w)"
  by (simp add: hex8_def hex_pad_word)

lemma zero_word [simp]: "is_word ''0''"
  by (simp add: is_word_def is_ws_def)

text \<open>C30: a.\<close>

theorem v4_route_roundtrip:
  assumes "is_word dev" "is_word rest" "p \<le> 32"
  shows "v4_route e (proc_route_line e dev dst gw flags p rest) =
    (if flags AND RTF_UP = 0 then None
     else Some \<lparr>net = V4 dst, prefix = of_nat p,
       gateway = (if flags AND RTF_GATEWAY \<noteq> 0 then Some (V4 gw) else None),
       reject = (flags AND RTF_REJECT \<noteq> 0), device = dev\<rparr>)"
proof -
  have "split_whitespace (proc_route_line e dev dst gw flags p rest) =
     [dev, hex8 (ne_word e dst), hex8 (ne_word e gw), hex8 flags,
       ''0'', ''0'', ''0'', hex8 (ne_word e (netmask p)), rest]"
    unfolding proc_route_line_def using assms by (intro split_whitespace_join) auto
  then show ?thesis
    using assms(3) by (simp add: v4_route_def get_def Let_def count_ones_netmask count_ones_ne_word)
qed

lemma v4_route_wf: "v4_route e line = Some r \<Longrightarrow> wf_route r"
  by (auto simp: v4_route_def wf_route_def v4_field_def count_ones_bound Let_def
      split: if_splits bind_splits)

section \<open>The relays connect only where the decision allows\<close>

text \<open>
  The interface between the decision and the relays: whatever decides, each address it approves
  is allowed on the interface it names.
\<close>

locale lan_guard =
  fixes eg :: "ip_addr \<Rightarrow> string option"
    and allowed :: "ip_addr \<Rightarrow> string \<Rightarrow> bool"
  assumes guard: "eg ip = Some dev \<Longrightarrow> allowed ip dev"
begin

definition held_step :: "host_call list \<Rightarrow> host_call \<Rightarrow> bool" where
  "held_step tr c \<longleftrightarrow>
     (case c of
        Connect ip p \<Rightarrow> \<exists>dev. Bind_device dev \<in> set tr \<and> allowed ip dev
      | Send bs \<Rightarrow> \<exists>ip p. Connect ip p \<in> set tr
      | _ \<Rightarrow> True)"

lemma connect_held:
  "each_after held_step (snd (connect_tcp eg ok target []))"
  by (auto simp: connect_tcp_def held_step_def new_tcp_def bindM_def script_simps dest: guard
      split: option.splits ip_addr.splits sum.splits)

lemma udp_loop_held:
  "each_after held_step tr \<Longrightarrow> Connect ip p \<in> set tr \<Longrightarrow>
   each_after held_step (snd (udp_loop ok ins evs up tr))"
  by (induction ok ins evs up tr rule: udp_loop.induct)
     (auto simp: held_step_def split: sum.splits)

lemma relay_udp_held: "each_after held_step (snd (relay_udp eg ok ins target evs))"
  by (auto simp: relay_udp_def held_step_def bind_any_def bindM_def script_simps dest: guard
      intro!: udp_loop_held
      split: option.splits ip_addr.splits sum.splits prod.splits)

lemma relay_stream_held: "each_after held_step (relay_stream eg ok ins st)"
  using connect_held relay_udp_held
  by (auto simp: relay_stream_def relay_tcp_def split: stack_stream.splits prod.splits sum.splits)
     (metis snd_conv)+

end

definition directly_on :: "route list \<Rightarrow> ip_addr \<Rightarrow> string \<Rightarrow> bool" where
  "directly_on tbl ip dev \<longleftrightarrow> is_unicast ip \<and>
     (\<exists>r. most_specific tbl ip r \<and> device r = dev) \<and>
     (\<forall>r. most_specific tbl ip r \<longrightarrow>
        gateway r = None \<and> \<not> reject r \<and> 0 < prefix r \<and> device r \<noteq> ''lo'')"

lemma egress_directly_on:
  "egress tbl ip = Some dev \<Longrightarrow> (\<forall>r \<in> set tbl. wf_route r) \<longrightarrow> directly_on tbl ip dev"
  by (auto simp: egress_spec directly_on_def filter_eq_Cons_iff)

interpretation lan: lan_guard "egress tbl"
  "\<lambda>ip dev. (\<forall>r \<in> set tbl. wf_route r) \<longrightarrow> directly_on tbl ip dev" for tbl
  by unfold_locales (rule egress_directly_on)


definition demo_table :: "route list" where
  "demo_table =
    [\<lparr>net = V4 0, prefix = 0, gateway = Some (V4 0xC0A80101), reject = False, device = ''eth0''\<rparr>,
     \<lparr>net = V4 0xC0A80100, prefix = 24, gateway = None, reject = False, device = ''eth0''\<rparr>,
     \<lparr>net = V4 0x7F000000, prefix = 8, gateway = None, reject = False, device = ''lo''\<rparr>]"

text \<open>
  C3: \<open>egress\<close> approves an address exactly when it is a unicast address, some route covers it,
  and every most specific route that covers it is on link: no gateway, no reject route, not
  the default route and not loopback. The interface it names is that of a most specific route.
  So a destination the host would hand to a gateway is always refused.
\<close>

theorem egress_decides:
  assumes "\<forall>r \<in> set tbl. wf_route r"
  shows "(egress tbl ip \<noteq> None \<longleftrightarrow>
            is_unicast ip \<and> (\<exists>r \<in> set tbl. covers r ip) \<and>
            (\<forall>r. most_specific tbl ip r \<longrightarrow> on_link r)) \<and>
         (\<forall>dev. egress tbl ip = Some dev \<longrightarrow> (\<exists>r. most_specific tbl ip r \<and> device r = dev))"
proof -
  have "(\<exists>r \<in> set tbl. covers r ip) \<longleftrightarrow> filter (most_specific tbl ip) tbl \<noteq> []"
    using most_specific_exists by (fastforce simp: filter_empty_conv most_specific_def)
  then show ?thesis
    using egress_spec [OF assms, of ip]
    by (auto simp: on_link_def neq_Nil_conv filter_eq_Cons_iff)
qed

theorem egress_decides_witness:
  "egress demo_table (V4 0xC0A80107) = Some ''eth0'' \<and>
   (\<exists>r. most_specific demo_table (V4 0xC0A80107) r \<and> device r = ''eth0'' \<and> on_link r) \<and>
   egress demo_table (V4 0x08080808) = None"
proof -
  have wf: "\<forall>r \<in> set demo_table. wf_route r" by (simp add: demo_table_def wf_route_def)
  have e: "egress demo_table (V4 0xC0A80107) = Some ''eth0''"
      "egress demo_table (V4 0x08080808) = None"
    by code_simp+
  from egress_decides [OF wf, of "V4 0xC0A80107"] e show ?thesis by auto
qed


theorem v4_route_roundtrip_witness:
  "v4_route Little (proc_route_line Little ''eth0'' 0xC0A80100 0 1 24 ''0'') =
     Some \<lparr>net = V4 0xC0A80100, prefix = 24, gateway = None, reject = False, device = ''eth0''\<rparr>"
proof -
  have d: "is_word ''eth0''" by (simp add: is_word_def is_ws_def)
  from v4_route_roundtrip [OF d zero_word, of 24 Little "0xC0A80100" 0 1] show ?thesis
    by (simp add: RTF_UP_def RTF_GATEWAY_def RTF_REJECT_def)
qed

definition route_ready :: "net_call list \<Rightarrow> net_call \<Rightarrow> bool" where
  "route_ready tr c \<longleftrightarrow>
     (case c of
        Add_route4 d g f n \<Rightarrow>
          Tun_set_iff (ifreq TUN_NAME) (IFF_TUN OR IFF_NO_PI) \<in> set tr \<and>
          Set_addr4 (ifreq TUN_NAME) (sockaddr_v4 TUN_V4) \<in> set tr \<and>
          (\<exists>fl. Set_flags (ifreq TUN_NAME) (fl OR IFF_UP) \<in> set tr)
      | _ \<Rightarrow> True)"

lemma add_v6_address_ready:
  "triple (each_after route_ready) (add_v6_address sys i)
     (\<lambda>_. each_after route_ready) (each_after route_ready)"
  unfolding add_v6_address_def
  by (rule tripleI)
     (auto simp: bindM_Inr bindM_Inl script_simps route_ready_def)

lemma create_tun_ready:
  "triple (\<lambda>tr. each_after route_ready tr \<and> {} \<subseteq> set tr) (create_tun sys)
     (\<lambda>_. each_after route_ready) (each_after route_ready)"
  unfolding create_tun_def bring_up_def bindM_assoc bindM_simps
  apply (rule triple_bind [OF triple_call], (auto simp: route_ready_def)[1])+
  apply (rule triple_weaken [OF triple_bind [OF triple_ignore [OF add_v6_address_ready] triple_return]])
    apply auto
  done

text \<open>C.\<close>

theorem default_route_last:
  assumes "i < length (snd (create_tun sys []))"
    and "snd (create_tun sys []) ! i = Add_route4 d g f n"
  shows "let before = set (take i (snd (create_tun sys []))) in
    Tun_set_iff (ifreq TUN_NAME) (IFF_TUN OR IFF_NO_PI) \<in> before \<and>
    Set_addr4 (ifreq TUN_NAME) (sockaddr_v4 TUN_V4) \<in> before \<and>
    (\<exists>fl. Set_flags (ifreq TUN_NAME) (fl OR IFF_UP) \<in> before)"
proof -
  have "each_after route_ready (snd (create_tun sys []))"
    by (rule triple_snd [OF create_tun_ready]) simp
  with assms show ?thesis by (auto simp: each_after_def route_ready_def Let_def)
qed

theorem default_route_last_witness:
  "let tr = snd (create_tun (\<lambda>_ _. Inr 3) []) in
     tr ! 7 = Add_route4 (sockaddr_v4 0) (sockaddr_v4 0) (ucast RTF_UP) (ifreq TUN_NAME) \<and>
     Set_addr4 (ifreq TUN_NAME) (sockaddr_v4 TUN_V4) \<in> set (take 7 tr)"
proof -
  let ?tr = "snd (create_tun (\<lambda>_ _. Inr 3) [])"
  have "7 < length ?tr"
    "?tr ! 7 = Add_route4 (sockaddr_v4 0) (sockaddr_v4 0) (ucast RTF_UP) (ifreq TUN_NAME)"
    by (simp_all add: create_tun_def bring_up_def add_v6_address_def bindM_def script_simps)
  from default_route_last [OF this] this show ?thesis by (simp add: Let_def)
qed

end
