(* ===== verification/Launch_Spec.thy ===== *)
theory Launch_Spec
  imports Store Limits Localnet
begin

text \<open>
  \<open>src/spec.rs\<close> beyond the resource limits: from an app definition and an image to the runtime
  spec of one container. The OCI structs are records; their builders only fail when a required
  field is missing, which the sources never do. \<open>Spec::rootless\<close> is a parameter.
\<close>

section \<open>The runtime spec\<close>

record oci_mount =
  mt_destination :: path
  mt_type :: "string option"
  mt_source :: "path option"
  mt_options :: "string list option"

record oci_caps =
  bounding :: "capability set"
  effective :: "capability set"
  inheritable :: "capability set"
  permitted :: "capability set"
  ambient :: "capability set"

record oci_process =
  proc_terminal :: bool
  proc_cwd :: path
  proc_args :: "string list"
  proc_env :: "string list"
  no_new_privileges :: bool
  proc_caps :: oci_caps
  rlimits :: "(string \<times> nat \<times> nat) list"

datatype namespace_type = Ns_Network | Other_Ns string

record oci_linux =
  lin_namespaces :: "namespace_type list option"
  lin_resources :: "linux_resources option"
  lin_cgroups_path :: "path option"

record oci_hook =
  hook_path :: path
  hook_args :: "string list"

record oci_spec =
  spec_root :: "(path \<times> bool) option"
  spec_process :: "oci_process option"
  spec_mounts :: "oci_mount list option"
  spec_linux :: "oci_linux option"
  spec_hooks :: "oci_hook list option"

text \<open>What the program was compiled for: the \<open>cfg\<close> attributes of the sources.\<close>

datatype target_arch = Target_X86_64 | Target_Aarch64 | Target_Other

record target =
  arch_of :: target_arch
  byte_order :: endian
  systemd :: bool

text \<open>\<open>MountPoint\<close>: a path to create in the stub layer.\<close>

record mount_point =
  point_path :: path
  point_is_file :: bool
  point_contents :: string

definition point_dir :: "path \<Rightarrow> mount_point" where
  "point_dir p = \<lparr>point_path = p, point_is_file = False, point_contents = []\<rparr>"

definition point_file :: "path \<Rightarrow> mount_point" where
  "point_file p = \<lparr>point_path = p, point_is_file = True, point_contents = []\<rparr>"

definition point_generated :: "path \<Rightarrow> string \<Rightarrow> mount_point" where
  "point_generated p c = \<lparr>point_path = p, point_is_file = True, point_contents = c\<rparr>"

lemma point_simps [simp]:
  "point_path (point_dir p) = p" "point_path (point_file p) = p" "point_path (point_generated p c) = p"
  by (simp_all add: point_dir_def point_file_def point_generated_def)

section \<open>Constants\<close>

definition DEFAULT_PATH :: string where
  "DEFAULT_PATH = ''PATH=/usr/local/sbin:/usr/local/bin:/usr/sbin:/usr/bin:/sbin:/bin''"

definition TMPFS_DIRS :: "(string \<times> string) list" where
  "TMPFS_DIRS = [(''/tmp'', ''1777''), (''/run'', ''0755''), (''/var/tmp'', ''1777'')]"

definition DEFAULT_MOUNT_DIRS :: "string list" where
  "DEFAULT_MOUNT_DIRS = [''/proc'', ''/dev'', ''/sys'']"

definition HOST_NET_FILES :: "string list" where
  "HOST_NET_FILES = [''/etc/resolv.conf'', ''/etc/hosts'']"

section \<open>Command and environment\<close>

definition image_list :: "(image_exec_config \<Rightarrow> 'a list option) \<Rightarrow> image_exec_config option \<Rightarrow> 'a list" where
  "image_list f img =
     (case img of None \<Rightarrow> [] | Some c \<Rightarrow> (case f c of None \<Rightarrow> [] | Some xs \<Rightarrow> xs))"

definition command :: "run_config \<Rightarrow> image_exec_config option \<Rightarrow> string list \<Rightarrow> string list" where
  "command r img user_args =
     (let extra = args r @ user_args;
          argv = (case entrypoint r of
                    Some (Entry_String s) \<Rightarrow> [s]
                  | Some (Entry_List l) \<Rightarrow> l
                  | None \<Rightarrow> image_list img_entrypoint img)
      in if entrypoint r = None \<and> extra = [] then argv @ image_list img_cmd img
         else argv @ extra)"

definition env_entry :: "host \<Rightarrow> string \<Rightarrow> string option" where
  "env_entry h entry =
     (if CHR ''='' \<in> set entry then Some entry
      else map_option (\<lambda>value. entry @ ''='' @ value) (env_var h entry))"

definition environment :: "host \<Rightarrow> run_config \<Rightarrow> image_exec_config option \<Rightarrow> string list" where
  "environment h r img =
     (let env = image_list img_env img @ filter_map (env_entry h) (env r)
      in if list_ex (starts_with ''PATH='') env then env else env @ [DEFAULT_PATH])"

section \<open>Mounts\<close>

definition tmpfs :: "path \<Rightarrow> string \<Rightarrow> oci_mount" where
  "tmpfs destination mode =
     \<lparr>mt_destination = destination, mt_type = Some ''tmpfs'', mt_source = Some (path_of ''tmpfs''),
      mt_options = Some [''nosuid'', ''nodev'', ''mode='' @ mode]\<rparr>"

definition bind_mount :: "path \<Rightarrow> path \<Rightarrow> bool \<Rightarrow> oci_mount" where
  "bind_mount source destination readonly =
     \<lparr>mt_destination = destination, mt_type = Some ''bind'', mt_source = Some source,
      mt_options = Some [''rbind'', if readonly then ''ro'' else ''rw'']\<rparr>"

definition host_dir :: "host \<Rightarrow> run_config \<Rightarrow> path option res" where
  "host_dir h r =
     (if mount_cwd r
      then and_then (with_context ''resolving current directory'' (current_dir h)) (\<lambda>d. Inr (Some d))
      else Inr None)"

definition expand_path :: "host \<Rightarrow> string \<Rightarrow> path res" where
  "expand_path h path =
     and_then
       (if path = ''~'' \<or> starts_with ''~/'' path
        then and_then (option_context ''resolving the home directory'' (home_dir h)) (\<lambda>home.
               Inr (join_str home (dropWhile (\<lambda>c. c = CHR ''/'') (dropWhile (\<lambda>c. c = CHR ''~'') path))))
        else Inr (path_of path))
       (\<lambda>expanded.
          if is_absolute expanded then Inr expanded
          else Inl (Bail (''mount path '' @ quoted path @ '' is not absolute'')))"

definition mount_fields :: "string \<Rightarrow> (string \<times> string \<times> string option) res" where
  "mount_fields entry =
     (case split_on (CHR '':'') entry of
        [source] \<Rightarrow> Inr (source, source, None)
      | [source, d] \<Rightarrow>
          if d = ''ro'' \<or> d = ''rw'' then Inr (source, source, Some d) else Inr (source, d, None)
      | [source, d, access] \<Rightarrow> Inr (source, d, Some access)
      | _ \<Rightarrow> Inl (Bail (''mount '' @ quoted entry @ '' has more than three '' @ quoted '':'' @ '' separated fields'')))"

definition mount_readonly :: "string \<Rightarrow> string option \<Rightarrow> bool res" where
  "mount_readonly entry access =
     (case access of
        None \<Rightarrow> Inr False
      | Some a \<Rightarrow>
          if a = ''ro'' then Inr True
          else if a = ''rw'' then Inr False
          else Inl (Bail (''mount '' @ quoted entry @ '': expected '' @ quoted ''ro'' @ '' or ''
                 @ quoted ''rw'' @ '', not '' @ quoted a)))"

definition parse_mount :: "string \<Rightarrow> (string \<times> string \<times> bool) res" where
  "parse_mount entry =
     and_then (mount_fields entry) (\<lambda>(source, destination, access).
     and_then (mount_readonly entry access) (\<lambda>readonly.
     Inr (source, destination, readonly)))"

definition create_source :: "path \<Rightarrow> bool \<Rightarrow> unit io" where
  "create_source p as_dir =
     (if as_dir then contextM (''creating '' @ path_str p) (create_dir_all p)
      else
        bindM (case parent p of
                 None \<Rightarrow> returnM ()
               | Some d \<Rightarrow> contextM (''creating '' @ path_str d) (create_dir_all d)) (\<lambda>_.
        contextM (''creating '' @ path_str p) (write_file p [])))"

definition refuse_root :: error where
  "refuse_root = Bail ''refusing to mount / (the whole host filesystem) into the container''"

definition extra_mount :: "host \<Rightarrow> string \<Rightarrow> (path \<times> path \<times> bool) io" where
  "extra_mount h entry =
     bindM (liftM (parse_mount entry)) (\<lambda>(source_text, destination, readonly).
     bindM (liftM (expand_path h source_text)) (\<lambda>source.
     if source = [RootDir] then failM refuse_root
     else
       bindM (path_exists source) (\<lambda>there.
       bindM (if there then returnM ()
              else if readonly
                then failM (Bail (path_str source @ '' does not exist and is shared read-only''))
                else create_source source (ends_with ''/'' source_text)) (\<lambda>_.
       bindM (liftM (expand_path h destination)) (\<lambda>destination.
       returnM (source, destination, readonly))))))"

definition extra_mounts :: "host \<Rightarrow> run_config \<Rightarrow> (path \<times> path \<times> bool) list io" where
  "extra_mounts h r = mapM (extra_mount h) (mount r)"

text \<open>\<open>spec::check\<close>.\<close>

definition check_mount :: "host \<Rightarrow> string \<Rightarrow> unit res" where
  "check_mount h entry =
     and_then (parse_mount entry) (\<lambda>(source, destination, _).
     and_then (expand_path h source) (\<lambda>p.
     if p = [RootDir] then Inl refuse_root
     else and_then (expand_path h destination) (\<lambda>_. Inr ())))"

definition check_definition :: "host \<Rightarrow> app_config \<Rightarrow> unit res" where
  "check_definition h cfg =
     and_then (resources (fmt_f64 h) (limits cfg)) (\<lambda>_.
     and_then (map_res (check_mount h) (mount (run cfg))) (\<lambda>_. Inr ()))"

definition check_host_dir :: "host \<Rightarrow> run_config \<Rightarrow> unit io" where
  "check_host_dir h r =
     bindM (liftM (host_dir h r)) (\<lambda>dir.
     case dir of
       None \<Rightarrow> returnM ()
     | Some d \<Rightarrow>
         if d = [RootDir]
         then failM (Bail (''refusing to bind-mount / (the whole host filesystem) into the container; ''
                @ ''run from a working directory, or set run.mount-cwd = false to share none''))
         else if home_dir h = Some d
           then eprint (''warning: running from your home directory bind-mounts all of it ''
                  @ ''read-write into the container'')
           else returnM ())"

fun existing :: "path list \<Rightarrow> path list io" where
  "existing [] = returnM []"
| "existing (p # ps) =
     bindM (path_exists p) (\<lambda>there.
     bindM (existing ps) (\<lambda>rest. returnM (if there then p # rest else rest)))"

definition host_net_files :: "run_config \<Rightarrow> path list io" where
  "host_net_files r =
     (if network r \<noteq> Net_Full then returnM [] else existing (map path_of HOST_NET_FILES))"

text \<open>\<open>localnet::resolv_conf\<close> over the files it reads.\<close>

definition read_text :: "path \<Rightarrow> string option io" where
  "read_text p = bindM (tryM (read_file p)) (\<lambda>r.
     returnM (case r of Inl _ \<Rightarrow> None | Inr s \<Rightarrow> Some s))"

definition host_resolv_conf :: "target \<Rightarrow> string io" where
  "host_resolv_conf T =
     bindM (read_text (path_of ''/proc/net/route'')) (\<lambda>v4.
     bindM (read_text (path_of ''/proc/net/ipv6_route'')) (\<lambda>v6.
     bindM (read_text (path_of ''/etc/resolv.conf'')) (\<lambda>conf.
     returnM (resolv_conf (routes (byte_order T) v4 v6) conf))))"

definition mountpoints :: "target \<Rightarrow> host \<Rightarrow> app_config \<Rightarrow> mount_point list io" where
  "mountpoints T h cfg =
     (let r = run cfg;
          fixed = map (\<lambda>d. point_dir (path_of d)) (DEFAULT_MOUNT_DIRS @ map fst TMPFS_DIRS)
      in bindM (liftM (host_dir h r)) (\<lambda>shared.
         bindM (extra_mounts h r) (\<lambda>ms.
         bindM (mapM (\<lambda>(source, destination, _).
                  bindM (is_file source) (\<lambda>f.
                  returnM (if f then point_file destination else point_dir destination))) ms) (\<lambda>extra.
         bindM (host_net_files r) (\<lambda>net.
         bindM (if network r = Net_Localnet
                then bindM (host_resolv_conf T) (\<lambda>c.
                     returnM [point_generated (path_of ''/etc/resolv.conf'') c])
                else returnM []) (\<lambda>conf.
         returnM (fixed @ (case shared of None \<Rightarrow> [] | Some d \<Rightarrow> [point_dir d])
                  @ extra @ map point_file net @ conf)))))))"

section \<open>Building the spec\<close>

definition capabilities_spec :: "run_config \<Rightarrow> oci_caps" where
  "capabilities_spec r =
     (let wanted = set (capabilities r)
      in \<lparr>bounding = wanted, effective = wanted, inheritable = wanted, permitted = wanted,
          ambient = wanted\<rparr>)"

definition start_dir :: "host \<Rightarrow> run_config \<Rightarrow> image_exec_config option \<Rightarrow> path res" where
  "start_dir h r img =
     and_then (host_dir h r) (\<lambda>shared.
     case shared of
       Some _ \<Rightarrow> with_context ''resolving current directory'' (current_dir h)
     | None \<Rightarrow>
         Inr (case img of
                None \<Rightarrow> path_of ''/''
              | Some c \<Rightarrow> (case img_working_dir c of None \<Rightarrow> path_of ''/'' | Some d \<Rightarrow> path_of d)))"

definition process_spec ::
  "host \<Rightarrow> run_config \<Rightarrow> image_exec_config option \<Rightarrow> string list \<Rightarrow> path \<Rightarrow> bool \<Rightarrow> oci_process" where
  "process_spec h r img argv cwd tty =
     \<lparr>proc_terminal = tty, proc_cwd = cwd, proc_args = argv, proc_env = environment h r img,
      no_new_privileges = True, proc_caps = capabilities_spec r, rlimits = []\<rparr>"

definition run_mounts :: "host \<Rightarrow> run_config \<Rightarrow> oci_mount list io" where
  "run_mounts h r =
     bindM (liftM (host_dir h r)) (\<lambda>shared.
     bindM (extra_mounts h r) (\<lambda>ms.
     bindM (host_net_files r) (\<lambda>net.
     returnM (map (\<lambda>(d, mode). tmpfs (path_of d) mode) TMPFS_DIRS
              @ (case shared of None \<Rightarrow> [] | Some d \<Rightarrow> [bind_mount d d False])
              @ map (\<lambda>(source, destination, readonly). bind_mount source destination readonly) ms
              @ map (\<lambda>f. bind_mount f f True) net))))"

definition with_network :: "network \<Rightarrow> oci_linux \<Rightarrow> oci_linux" where
  "with_network n linux =
     (case n of
        Net_Full \<Rightarrow> linux
      | _ \<Rightarrow> linux\<lparr>lin_namespaces :=
               Some ((case lin_namespaces linux of None \<Rightarrow> [] | Some ns \<Rightarrow> ns) @ [Ns_Network])\<rparr>)"

definition with_resources :: "target \<Rightarrow> linux_resources option \<Rightarrow> oci_linux \<Rightarrow> oci_linux io" where
  "with_resources T res linux =
     (if systemd T then returnM (linux\<lparr>lin_resources := res\<rparr>)
      else if res \<noteq> None
        then bindM (eprint (''warning: [limits] ignored, as climate was built without the systemd feature''))
               (\<lambda>_. returnM linux)
        else returnM linux)"

definition build_spec ::
  "(nat \<Rightarrow> nat \<Rightarrow> oci_spec) \<Rightarrow> target \<Rightarrow> host \<Rightarrow> app_config \<Rightarrow> image_exec_config option \<Rightarrow> path \<Rightarrow>
   string list \<Rightarrow> nat \<Rightarrow> nat \<Rightarrow> bool \<Rightarrow> oci_spec io" where
  "build_spec rootless T h cfg img root user_args uid gid tty =
     (let r = run cfg; base = rootless uid gid; argv = command r img user_args
      in if argv = []
         then failM (Bail (name (app cfg)
                @ '': image has no entrypoint or command and none was configured''))
         else
           bindM (liftM (start_dir h r img)) (\<lambda>cwd.
           bindM (run_mounts h r) (\<lambda>added.
           case spec_linux base of
             None \<Rightarrow> panic ''rootless spec has a linux object''
           | Some linux \<Rightarrow>
               bindM (liftM (resources (fmt_f64 h) (limits cfg))) (\<lambda>res.
               bindM (with_resources T res (with_network (network r) linux)) (\<lambda>linux.
               returnM (base\<lparr>
                 spec_root := Some (root, False),
                 spec_process := Some (process_spec h r img argv cwd tty),
                 spec_mounts := Some ((case spec_mounts base of None \<Rightarrow> [] | Some ms \<Rightarrow> ms) @ added),
                 spec_linux := Some linux\<rparr>))))))"

section \<open>Reading a mount entry\<close>

text \<open>The five forms the documentation of \<open>run.mount\<close> lists, fields without a colon.\<close>

definition mount_forms :: "string \<Rightarrow> string \<Rightarrow> (string \<times> bool) list" where
  "mount_forms s d =
     (if s = d then [(s, False), (s @ '':ro'', True), (s @ '':rw'', False)] else [])
     @ (if d \<noteq> ''ro'' \<and> d \<noteq> ''rw'' then [(s @ '':'' @ d, False)] else [])
     @ [(s @ '':'' @ d @ '':ro'', True), (s @ '':'' @ d @ '':rw'', False)]"

lemma split_fields:
  "split_on (CHR '':'') e = pieces \<longleftrightarrow> pieces \<noteq> [] \<and> e = join_on '':'' pieces \<and> (\<forall>f \<in> set pieces. CHR '':'' \<notin> set f)"
  using join_split_on split_join_on split_on_pieces split_on_nonempty by metis

lemma mount_fields_Inr:
  "mount_fields e = Inr (s, d, a) \<longleftrightarrow>
     split_on (CHR '':'') e = [s] \<and> d = s \<and> a = None
   \<or> (\<exists>f. (f = ''ro'' \<or> f = ''rw'') \<and> split_on (CHR '':'') e = [s, f] \<and> d = s \<and> a = Some f)
   \<or> d \<noteq> ''ro'' \<and> d \<noteq> ''rw'' \<and> split_on (CHR '':'') e = [s, d] \<and> a = None
   \<or> (\<exists>f. split_on (CHR '':'') e = [s, d, f] \<and> a = Some f)"
  unfolding mount_fields_def by (auto split: list.splits)

lemma mount_readonly_Inr:
  "mount_readonly e a = Inr r \<longleftrightarrow> a = None \<and> \<not> r \<or> a = Some ''ro'' \<and> r \<or> a = Some ''rw'' \<and> \<not> r"
  unfolding mount_readonly_def by (auto split: option.splits)

lemma parse_mount_Inr:
  "parse_mount e = Inr (s, d, r) \<longleftrightarrow>
     (\<exists>a. mount_fields e = Inr (s, d, a) \<and> mount_readonly e a = Inr r)"
  unfolding parse_mount_def by (auto simp: and_then_Inr_iff)

text \<open>
  C33: a mount entry is accepted exactly when it is one of the documented forms over fields that
  hold no colon, and is then read as that form says: the host path, the path inside, read-only.
\<close>

theorem parse_mount_forms:
  "parse_mount e = Inr (s, d, r) \<longleftrightarrow>
     CHR '':'' \<notin> set s \<and> CHR '':'' \<notin> set d \<and> List.member (mount_forms s d) (e, r)"
  unfolding parse_mount_Inr mount_fields_Inr mount_readonly_Inr split_fields mount_forms_def
  by auto

section \<open>What is shared does not depend on the file system\<close>

text \<open>The mount an entry stands for, without the checks on what exists.\<close>

definition mount_target :: "host \<Rightarrow> string \<Rightarrow> (path \<times> path \<times> bool) res" where
  "mount_target h entry =
     and_then (parse_mount entry) (\<lambda>(source, destination, readonly).
     and_then (expand_path h source) (\<lambda>p.
     if p = [RootDir] then Inl refuse_root
     else and_then (expand_path h destination) (\<lambda>q. Inr (p, q, readonly))))"

lemma check_mount_target: "check_mount h e = and_then (mount_target h e) (\<lambda>_. Inr ())"
  unfolding check_mount_def mount_target_def
  by (auto simp: and_then_def split: sum.splits)

lemma bindM_liftM: "bindM (liftM r) f = (case r of Inl e \<Rightarrow> failM e | Inr x \<Rightarrow> f x)"
  by (auto split: sum.splits)

lemma extra_mount_Inr: "extra_mount h e w = (Inr m, t) \<Longrightarrow> mount_target h e = Inr m"
  unfolding extra_mount_def mount_target_def bindM_liftM
  by (auto simp: bindM_Inr script_simps and_then_def split: sum.splits if_splits)

lemma mapM_Inr: "mapM f xs w = (Inr ys, t) \<Longrightarrow> (\<And>x y v u. f x v = (Inr y, u) \<Longrightarrow> P x y) \<Longrightarrow> list_all2 P xs ys"
proof (induction xs arbitrary: ys w)
  case (Cons x xs)
  from Cons.prems(1) obtain y w1 zs where
    "f x w = (Inr y, w1)" "mapM f xs w1 = (Inr zs, t)" "ys = y # zs"
    by (auto simp: script_simps bindM_Inr)
  with Cons.IH [of w1 zs] Cons.prems(2) show ?case by auto
qed (simp add: script_simps)

lemma extra_mounts_Inr:
  assumes "extra_mounts h r w = (Inr ms, t)"
  shows "map_res (mount_target h) (mount r) = Inr ms"
proof -
  have "list_all2 (\<lambda>e m. mount_target h e = Inr m) (mount r) ms"
    by (rule mapM_Inr [OF assms [unfolded extra_mounts_def]]) (rule extra_mount_Inr)
  then show ?thesis by (simp add: map_res_Inr_iff)
qed

lemma mount_target_not_root: "mount_target h e = Inr (p, q, r) \<Longrightarrow> p \<noteq> [RootDir]"
  unfolding mount_target_def by (auto simp: and_then_Inr_iff split: if_splits)

lemma existing_Inr: "existing ps w = (Inr qs, t) \<Longrightarrow> set qs \<subseteq> set ps"
  by (induction ps arbitrary: w qs) (auto simp: script_simps bindM_Inr split: if_splits, blast+)

lemma host_net_files_Inr:
  "host_net_files r w = (Inr qs, t) \<Longrightarrow>
   set qs \<subseteq> (if network r = Net_Full then set (map path_of HOST_NET_FILES) else {})"
  using existing_Inr [of "map path_of HOST_NET_FILES" w qs t]
  unfolding host_net_files_def by (auto simp: script_simps split: if_splits)

lemma run_mounts_Inr:
  assumes "run_mounts h r w = (Inr added, t)"
  obtains shared ms net where
    "host_dir h r = Inr shared" "map_res (mount_target h) (mount r) = Inr ms"
    "set net \<subseteq> (if network r = Net_Full then set (map path_of HOST_NET_FILES) else {})"
    "added = map (\<lambda>(d, mode). tmpfs (path_of d) mode) TMPFS_DIRS
       @ (case shared of None \<Rightarrow> [] | Some d \<Rightarrow> [bind_mount d d False])
       @ map (\<lambda>(s, d, ro). bind_mount s d ro) ms @ map (\<lambda>f. bind_mount f f True) net"
proof -
  from assms obtain shared ms net w1 w2 w3 where
    1: "host_dir h r = Inr shared" and 2: "extra_mounts h r w1 = (Inr ms, w2)"
    and 3: "host_net_files r w2 = (Inr net, w3)"
    and 4: "added = map (\<lambda>(d, mode). tmpfs (path_of d) mode) TMPFS_DIRS
       @ (case shared of None \<Rightarrow> [] | Some d \<Rightarrow> [bind_mount d d False])
       @ map (\<lambda>(s, d, ro). bind_mount s d ro) ms @ map (\<lambda>f. bind_mount f f True) net"
    unfolding run_mounts_def bindM_liftM
    by (auto simp: bindM_Inr script_simps split: sum.splits)
  show ?thesis by (rule that [OF 1 extra_mounts_Inr [OF 2] host_net_files_Inr [OF 3] 4])
qed

lemma with_resources_Inr:
  "with_resources T res l w = (Inr l', t) \<Longrightarrow> l' = (if systemd T then l\<lparr>lin_resources := res\<rparr> else l)"
  unfolding with_resources_def by (auto simp: script_simps bindM_Inr eprint_def split: if_splits)

definition added_to :: "oci_spec \<Rightarrow> oci_spec \<Rightarrow> oci_mount list \<Rightarrow> bool" where
  "added_to base s added \<longleftrightarrow>
     spec_mounts s = Some ((case spec_mounts base of None \<Rightarrow> [] | Some ms \<Rightarrow> ms) @ added)"

lemma build_spec_Inr:
  assumes "build_spec rootless T h cfg img root user_args uid gid tty w = (Inr s, t)"
  shows "\<exists>cwd added linux res w1.
    command (run cfg) img user_args \<noteq> [] \<and> start_dir h (run cfg) img = Inr cwd \<and>
    run_mounts h (run cfg) w = (Inr added, w1) \<and> spec_linux (rootless uid gid) = Some linux \<and>
    resources (fmt_f64 h) (limits cfg) = Inr res \<and>
    spec_process s = Some (process_spec h (run cfg) img (command (run cfg) img user_args) cwd tty) \<and>
    added_to (rootless uid gid) s added \<and> spec_root s = Some (root, False) \<and>
    spec_linux s = Some (if systemd T then (with_network (network (run cfg)) linux)\<lparr>lin_resources := res\<rparr>
       else with_network (network (run cfg)) linux)"
proof -
  have a: "command (run cfg) img user_args \<noteq> []" using assms
    by (auto simp: build_spec_def Let_def script_simps split: if_splits)
  with assms obtain cwd w1 added w2 where
    b: "start_dir h (run cfg) img = Inr cwd" "run_mounts h (run cfg) w = (Inr added, w1)"
    and c: "(case spec_linux (rootless uid gid) of
             None \<Rightarrow> panic ''rootless spec has a linux object''
           | Some linux \<Rightarrow>
               bindM (liftM (resources (fmt_f64 h) (limits cfg))) (\<lambda>res.
               bindM (with_resources T res (with_network (network (run cfg)) linux)) (\<lambda>linux.
               returnM ((rootless uid gid)\<lparr>
                 spec_root := Some (root, False),
                 spec_process := Some (process_spec h (run cfg) img (command (run cfg) img user_args) cwd tty),
                 spec_mounts := Some ((case spec_mounts (rootless uid gid) of None \<Rightarrow> [] | Some ms \<Rightarrow> ms) @ added),
                 spec_linux := Some linux\<rparr>)))) w1 = (Inr s, t)"
    unfolding build_spec_def Let_def
    by (cases "start_dir h (run cfg) img") (auto simp: bindM_Inr script_simps)
  from c obtain linux res where d: "spec_linux (rootless uid gid) = Some linux"
    "resources (fmt_f64 h) (limits cfg) = Inr res"
    by (cases "resources (fmt_f64 h) (limits cfg)")
      (auto simp: panic_def script_simps split: option.splits)
  with c obtain l w3 where
    "with_resources T res (with_network (network (run cfg)) linux) w1 = (Inr l, w3)"
    and e: "s = (rootless uid gid)\<lparr>
                 spec_root := Some (root, False),
                 spec_process := Some (process_spec h (run cfg) img (command (run cfg) img user_args) cwd tty),
                 spec_mounts := Some ((case spec_mounts (rootless uid gid) of None \<Rightarrow> [] | Some ms \<Rightarrow> ms) @ added),
                 spec_linux := Some l\<rparr>"
    by (auto simp: bindM_Inr script_simps)
  from with_resources_Inr [OF this(1)] this(2) a b d show ?thesis
    by (simp add: added_to_def)
qed

section \<open>What a container is given\<close>

definition confined :: "run_config \<Rightarrow> oci_spec \<Rightarrow> bool" where
  "confined r s \<longleftrightarrow>
     (\<exists>p. spec_process s = Some p \<and> proc_args p \<noteq> [] \<and> no_new_privileges p \<and>
        (\<forall>field \<in> {bounding, effective, inheritable, permitted, ambient}.
           field (proc_caps p) = set (capabilities r))) \<and>
     (network r = Net_Full \<or>
        (\<exists>l ns. spec_linux s = Some l \<and> lin_namespaces l = Some ns \<and> Ns_Network \<in> set ns))"

lemma with_network_private:
  "network r \<noteq> Net_Full \<Longrightarrow>
   \<exists>ns. lin_namespaces (with_network (network r) l) = Some ns \<and> Ns_Network \<in> set ns"
  unfolding with_network_def by (cases "network r") auto

lemma check_host_dir_Inr:
  "check_host_dir h r w = (Inr (), t) \<Longrightarrow> host_dir h r \<noteq> Inr (Some [RootDir])"
  unfolding check_host_dir_def bindM_liftM by (auto simp: script_simps split: sum.splits)

lemma host_net_not_root: "p \<in> set (map path_of HOST_NET_FILES) \<Longrightarrow> p \<noteq> [RootDir]"
  by (auto simp: HOST_NET_FILES_def path_of_def component_of_def starts_with_def)

lemma tmpfs_source: "mt_source (tmpfs d m) \<noteq> Some [RootDir]"
  by (simp add: tmpfs_def path_of_def component_of_def starts_with_def)

lemma run_mounts_not_root:
  assumes "run_mounts h r w = (Inr added, t)" "host_dir h r \<noteq> Inr (Some [RootDir])" "m \<in> set added"
  shows "mt_source m \<noteq> Some [RootDir]"
  using assms(1)
proof (cases rule: run_mounts_Inr)
  case (1 shared ms net)
  have targets: "p \<noteq> [RootDir]" if "(p, q, ro) \<in> set ms" for p q ro
  proof -
    from 1(2) that obtain e where "mount_target h e = Inr (p, q, ro)"
      by (auto simp: map_res_Inr_iff list_all2_conv_all_nth in_set_conv_nth)
    then show ?thesis by (rule mount_target_not_root)
  qed
  have net: "p \<noteq> [RootDir]" if "p \<in> set net" for p
    using 1(3) that by (intro host_net_not_root) (auto split: if_splits)
  from assms(3) 1(4) consider d md where "m = tmpfs d md" | d where "shared = Some d" "m = bind_mount d d False"
    | p q ro where "(p, q, ro) \<in> set ms" "m = bind_mount p q ro" | f where "f \<in> set net" "m = bind_mount f f True"
    by (auto split: option.splits)
  then show ?thesis
    by cases (use assms(2) 1(1) targets net tmpfs_source in \<open>auto simp: bind_mount_def\<close>)
qed

text \<open>
  C20: a container that \<open>AppConfig::run\<close> builds has a command, cannot gain privileges, holds in all
  five sets exactly the capabilities its definition asks for, has a network namespace of its own
  unless it asked for the host's, and shares no path that is written as the host's root.
\<close>

theorem build_confines:
  assumes "check_host_dir h (run cfg) v = (Inr (), v')"
    and "build_spec rootless T h cfg img root user_args uid gid tty w = (Inr s, t)"
  shows "confined (run cfg) s \<and>
    (\<exists>added. added_to (rootless uid gid) s added \<and>
       (\<forall>m \<in> set added. mt_source m \<noteq> Some [RootDir]))"
proof -
  from build_spec_Inr [OF assms(2)] obtain cwd added linux res w1 where
    a: "command (run cfg) img user_args \<noteq> []" and b: "run_mounts h (run cfg) w = (Inr added, w1)"
    and p: "spec_process s = Some (process_spec h (run cfg) img (command (run cfg) img user_args) cwd tty)"
    and m: "added_to (rootless uid gid) s added"
    and l: "spec_linux s = Some (if systemd T then (with_network (network (run cfg)) linux)\<lparr>lin_resources := res\<rparr>
       else with_network (network (run cfg)) linux)" by blast
  have "confined (run cfg) s"
    using a p l with_network_private [of "run cfg" linux]
    by (auto simp: confined_def process_spec_def capabilities_spec_def Let_def)
  with m run_mounts_not_root [OF b check_host_dir_Inr [OF assms(1)]] show ?thesis by blast
qed

section \<open>Every mount has something to be mounted onto\<close>

lemma tmpfs_destination [simp]: "mt_destination (tmpfs d m) = d"
  by (simp add: tmpfs_def)

lemma bind_destination [simp]: "mt_destination (bind_mount s d ro) = d"
  by (simp add: bind_mount_def)

lemma mountpoints_Inr:
  assumes "mountpoints T h cfg w = (Inr ps, t)"
  obtains shared ms where "host_dir h (run cfg) = Inr shared"
    "map_res (mount_target h) (mount (run cfg)) = Inr ms"
    "path_of ` fst ` set TMPFS_DIRS \<subseteq> point_path ` set ps"
    "\<forall>d. shared = Some d \<longrightarrow> d \<in> point_path ` set ps"
    "\<forall>(s, d, ro) \<in> set ms. d \<in> point_path ` set ps"
proof -
  from assms obtain shared ms w1 w2 extra w3 net w4 conf where
    1: "host_dir h (run cfg) = Inr shared" and 2: "extra_mounts h (run cfg) w1 = (Inr ms, w2)"
    and 3: "mapM (\<lambda>(source, destination, _).
              bindM (is_file source) (\<lambda>f.
              returnM (if f then point_file destination else point_dir destination))) ms w2 = (Inr extra, w3)"
    and 4: "ps = map (\<lambda>d. point_dir (path_of d)) (DEFAULT_MOUNT_DIRS @ map fst TMPFS_DIRS)
        @ (case shared of None \<Rightarrow> [] | Some d \<Rightarrow> [point_dir d]) @ extra @ map point_file net @ conf"
    unfolding mountpoints_def Let_def bindM_liftM
    by (auto simp: bindM_Inr script_simps split: sum.splits)
  have "list_all2 (\<lambda>(s, d, ro) p. point_path p = d) ms extra"
    by (rule mapM_Inr [OF 3]) (auto simp: bindM_Inr script_simps split: prod.splits)
  then have "\<forall>(s, d, ro) \<in> set ms. d \<in> point_path ` set extra"
    by (fastforce simp: list_all2_conv_all_nth in_set_conv_nth)
  moreover have "point_path ` set extra \<subseteq> point_path ` set ps" using 4 by auto
  ultimately have e: "\<forall>(s, d, ro) \<in> set ms. d \<in> point_path ` set ps" by blast
  have "(\<lambda>d. point_dir (path_of d)) ` fst ` set TMPFS_DIRS \<subseteq> set ps" using 4 by auto
  then have "point_path ` (\<lambda>d. point_dir (path_of d)) ` fst ` set TMPFS_DIRS \<subseteq> point_path ` set ps"
    by (rule image_mono)
  then have f: "path_of ` fst ` set TMPFS_DIRS \<subseteq> point_path ` set ps"
    by (simp add: image_image)
  have "\<forall>d. shared = Some d \<longrightarrow> d \<in> point_path ` set ps" using 4 by auto
  with 1 extra_mounts_Inr [OF 2] e f show ?thesis by (intro that) auto
qed

text \<open>
  C27: once \<open>mountpoints\<close> has been asked, every mount that \<open>build\<close> adds, however the file system
  changed in between, lands on a path of the stub layer, except for the two host files that only
  a container on the host's network shares.
\<close>

theorem mountpoints_cover:
  assumes "mountpoints T h cfg w = (Inr ps, w')"
    and "build_spec rootless T h cfg img root user_args uid gid tty v = (Inr s, t)"
  shows "\<exists>added. added_to (rootless uid gid) s added \<and>
    (\<forall>m \<in> set added. mt_destination m \<in> point_path ` set ps \<or>
       network (run cfg) = Net_Full \<and> mt_destination m \<in> path_of ` set HOST_NET_FILES)"
proof -
  from build_spec_Inr [OF assms(2)] obtain added w1 where
    b: "run_mounts h (run cfg) v = (Inr added, w1)" and m: "added_to (rootless uid gid) s added"
    by blast
  from b obtain shared ms net where r: "host_dir h (run cfg) = Inr shared"
    "map_res (mount_target h) (mount (run cfg)) = Inr ms"
    "set net \<subseteq> (if network (run cfg) = Net_Full then set (map path_of HOST_NET_FILES) else {})"
    "added = map (\<lambda>(d, mode). tmpfs (path_of d) mode) TMPFS_DIRS
       @ (case shared of None \<Rightarrow> [] | Some d \<Rightarrow> [bind_mount d d False])
       @ map (\<lambda>(s, d, ro). bind_mount s d ro) ms @ map (\<lambda>f. bind_mount f f True) net"
    by (rule run_mounts_Inr)
  from assms(1) have
    p: "path_of ` fst ` set TMPFS_DIRS \<subseteq> point_path ` set ps"
    "\<forall>d. shared = Some d \<longrightarrow> d \<in> point_path ` set ps"
    "\<forall>(s, d, ro) \<in> set ms. d \<in> point_path ` set ps"
    by (rule mountpoints_Inr; use r in auto)+
  have "mt_destination x \<in> point_path ` set ps \<or>
      network (run cfg) = Net_Full \<and> mt_destination x \<in> path_of ` set HOST_NET_FILES"
    if "x \<in> set added" for x
  proof -
    from that r(4) consider d md where "(d, md) \<in> set TMPFS_DIRS" "mt_destination x = path_of d"
      | d where "shared = Some d" "mt_destination x = d"
      | p q ro where "(p, q, ro) \<in> set ms" "mt_destination x = q"
      | f where "f \<in> set net" "mt_destination x = f"
      by (auto split: option.splits)
    then show ?thesis
    proof cases
      case 1
      then have "path_of d \<in> path_of ` fst ` set TMPFS_DIRS" by force
      with 1 p(1) show ?thesis by auto
    qed (use p r(3) in \<open>auto split: if_splits\<close>)
  qed
  with m show ?thesis by blast
qed

section \<open>A container\<close>

definition demo_app :: "string list \<Rightarrow> app_config" where
  "demo_app shares =
     \<lparr>app = \<lparr>name = ''sh'', description = ''a shell'', license = ''MIT''\<rparr>,
      image_cfg = \<lparr>reference = ''sh'', pull = True, install = None\<rparr>,
      run = run_default\<lparr>entrypoint := Some (Entry_String ''sh''), mount := shares\<rparr>,
      limits = limits_default\<rparr>"

definition demo_rootless :: "nat \<Rightarrow> nat \<Rightarrow> oci_spec" where
  "demo_rootless uid gid =
     \<lparr>spec_root = None, spec_process = None, spec_mounts = None,
      spec_linux = Some \<lparr>lin_namespaces = Some [Other_Ns ''user''], lin_resources = None, lin_cgroups_path = None\<rparr>,
      spec_hooks = None\<rparr>"

definition demo_target :: target where
  "demo_target = \<lparr>arch_of = Target_X86_64, byte_order = Little, systemd = True\<rparr>"

lemma demo_app_simps [simp]:
  "entrypoint (run (demo_app xs)) = Some (Entry_String ''sh'')" "args (run (demo_app xs)) = []"
  "mount (run (demo_app xs)) = xs" "mount_cwd (run (demo_app xs))"
  "network (run (demo_app xs)) = Net_None" "limits (demo_app xs) = limits_default"
  by (simp_all add: demo_app_def run_default_def network_default_def)

lemma demo_host_dirs:
  "home_dir demo_host = Some [RootDir, Normal ''h'']"
  "current_dir demo_host = Inr [RootDir, Normal ''h'', Normal ''p'']"
  by (simp_all add: demo_host_def)

lemma demo_dir: "host_dir demo_host (run (demo_app xs)) = Inr (Some [RootDir, Normal ''h'', Normal ''p''])"
  by (simp add: host_dir_def demo_host_def)

lemma demo_check: "check_host_dir demo_host (run (demo_app xs)) w = (Inr (), w)"
  by (simp add: check_host_dir_def bindM_liftM demo_dir script_simps demo_host_dirs)

lemma demo_resources: "resources f limits_default = Inr None"
  by (simp add: resources_def limits_default_def)

lemma demo_build:
  "\<exists>s. build_spec demo_rootless demo_target demo_host (demo_app []) None [RootDir, Normal ''m''] [] 0 0 False w
     = (Inr s, w)"
  by (simp add: build_spec_def command_def start_dir_def demo_dir run_mounts_def bindM_liftM extra_mounts_def
      host_net_files_def demo_rootless_def demo_resources with_resources_def demo_target_def script_simps
      demo_host_dirs bindM_def)

theorem build_confines_witness:
  "\<exists>s t. build_spec demo_rootless demo_target demo_host (demo_app []) None [RootDir, Normal ''m''] [] 0 0 False
     (demo_world []) = (Inr s, t) \<and> confined (run (demo_app [])) s"
  using demo_build [of "demo_world []"] build_confines [OF demo_check] by fast

lemma demo_points:
  "\<exists>ps. mountpoints demo_target demo_host (demo_app []) w = (Inr ps, w)"
  by (simp add: mountpoints_def bindM_liftM demo_dir extra_mounts_def host_net_files_def script_simps)

theorem mountpoints_cover_witness:
  "\<exists>ps s t added. mountpoints demo_target demo_host (demo_app []) (demo_world []) = (Inr ps, demo_world []) \<and>
     build_spec demo_rootless demo_target demo_host (demo_app []) None [RootDir, Normal ''m''] [] 0 0 False
       (demo_world []) = (Inr s, t) \<and> added_to (demo_rootless 0 0) s added \<and>
     (\<forall>m \<in> set added. mt_destination m \<in> point_path ` set ps)"
proof -
  from demo_build [of "demo_world []"] demo_points [of "demo_world []"] obtain s ps where
    b: "build_spec demo_rootless demo_target demo_host (demo_app []) None [RootDir, Normal ''m''] [] 0 0 False
       (demo_world []) = (Inr s, demo_world [])"
    and p: "mountpoints demo_target demo_host (demo_app []) (demo_world []) = (Inr ps, demo_world [])" by auto
  from mountpoints_cover [OF p b] b p show ?thesis by auto
qed

section \<open>What the check says of a run\<close>

lemma asking_no_faults: "no_faults w \<Longrightarrow> asking q w = (Inr (q (fs w)), w\<lparr>tick := Suc (tick w)\<rparr>)"
  by (simp add: asking_def query_def prim_no_faults bindM_def tryM_def returnM_def)

lemma extra_mount_there:
  assumes "no_faults w" "\<And>p q r. mount_target h e = Inr (p, q, r) \<Longrightarrow> stat (fs w) p \<noteq> None"
    and "mount_target h e = Inr m"
  shows "extra_mount h e w = (Inr m, w\<lparr>tick := Suc (tick w)\<rparr>)"
proof -
  obtain p q r where m: "m = (p, q, r)" by (cases m)
  from assms(3) m obtain s d where "parse_mount e = Inr (s, d, r)" "expand_path h s = Inr p"
    "p \<noteq> [RootDir]" "expand_path h d = Inr q"
    unfolding mount_target_def by (auto simp: and_then_Inr_iff split: if_splits)
  with assms m show ?thesis
    by (simp add: extra_mount_def bindM_liftM path_exists_def asking_no_faults bindM_def script_simps)
qed

lemma extra_mounts_there:
  assumes "no_faults w" "\<forall>e \<in> set es. \<forall>p q r. mount_target h e = Inr (p, q, r) \<longrightarrow> stat (fs w) p \<noteq> None"
    and "map_res (mount_target h) es = Inr ms"
  shows "\<exists>t. mapM (extra_mount h) es w = (Inr ms, t)"
  using assms
proof (induction es arbitrary: w ms)
  case (Cons e es)
  from Cons.prems(3) obtain m ms' where m: "mount_target h e = Inr m" "ms = m # ms'"
    "map_res (mount_target h) es = Inr ms'"
    by (auto simp: and_then_Inr_iff split: sum.splits)
  have x: "extra_mount h e w = (Inr m, w\<lparr>tick := Suc (tick w)\<rparr>)"
    using Cons.prems(1,2) m(1) by (intro extra_mount_there) auto
  from Cons.IH [OF _ _ m(3), of "w\<lparr>tick := Suc (tick w)\<rparr>"] Cons.prems(1,2)
  obtain t where "mapM (extra_mount h) es (w\<lparr>tick := Suc (tick w)\<rparr>) = (Inr ms', t)" by auto
  with x m(2) show ?case by (simp add: bindM_runs script_simps)
qed (simp add: script_simps)

lemma map_res_check:
  "(\<exists>us. map_res (check_mount h) es = Inr us) \<longleftrightarrow> (\<exists>ms. map_res (mount_target h) es = Inr ms)"
  by (induction es) (auto simp: check_mount_target and_then_def split: sum.splits)




end
