(* ===== verification/Session.thy ===== *)
theory Session
  imports Launch_Spec
begin

text \<open>
  One run of a container: \<open>run\<close> of \<open>src/runtime.rs\<close>, the guards it holds while the app runs, and
  the bridge and forwarder of \<open>src/forward.rs\<close> it starts. What such a run does is the calls it
  makes, in their order; what a call answers is up to the environment \<open>sys\<close>. An answer that
  is a number is given as such, a question is answered with 1 for yes, and a call without a
  result answers anything. The destructors are written out where the values go out of scope.
\<close>

section \<open>Calls\<close>

datatype terminal_call =
    Get_Terminal | Set_Raw | Restore_Terminal
  | Resize_Pipe | Resize_Nonblock | Clone_Master | Spawn_Resizer | Install_Winch
  | Store_Resize bool | Default_Winch | Close_Resize | Join_Resizer
  | Resize_Master | Spawn_Pump | Join_Output

datatype bridge_call =
    Accept_Hook | Receive_Namespaces
  | Socket_Pair | Spawn_Helper bool | Close_Sources | Receive_Ready
  | Start_Relay | Quit_Pipe | Spawn_Loop int
  | Kill_Helper | Stop_Relay | Close_Quit | Join_Loop | Reap_Helper

datatype run_call =
    Terminal terminal_call | Bridge bridge_call
  | Cgroup2_There | Create_Dir path | Bind_Socket path | Current_Exe
  | Save_Spec path oci_spec | Become_Subreaper | Install_Handler int | Set_Root_Path path
  | Stdout_Null | Stderr_Null | Discard_Pipe
  | Build_Container path bool | Accept_Console | Receive_Master | Container_Pid
  | Store_Pid int | Swap_Pending | Swap_Forwarded | Kill int int
  | Start_Container | Wait_Child int | Delete_Container | Remove_Bundle path | Close_Master

type_synonym answers = "run_call trace \<Rightarrow> run_call \<Rightarrow> int res"
type_synonym 'a steps = "(run_call trace, 'a) script"

text \<open>A value that lives while \<open>m\<close> runs: its destructor runs whether \<open>m\<close> succeeds or not.\<close>

definition scoped :: "unit steps \<Rightarrow> 'a steps \<Rightarrow> 'a steps" where
  "scoped d m tr = (case m tr of (r, tr') \<Rightarrow> (r, snd (d tr')))"

text \<open>\<open>let _ = \<close> of a call.\<close>

definition drop_call :: "answers \<Rightarrow> run_call \<Rightarrow> unit steps" where
  "drop_call sys c = ignoreM (call sys c)"

text \<open>A question that always has an answer.\<close>

definition ask :: "answers \<Rightarrow> run_call \<Rightarrow> int steps" where
  "ask sys c tr = (Inr (case sys tr c of Inl _ \<Rightarrow> 0 | Inr n \<Rightarrow> n), tr @ [c])"

definition SIGINT :: int where "SIGINT = 2"
definition SIGTERM :: int where "SIGTERM = 15"

section \<open>Waiting\<close>

text \<open>
  What \<open>wait\<close> of the kernel reports, one event after the other. When the list is at its end no
  child is left, which the kernel reports as \<open>ECHILD\<close>.
\<close>

datatype wait_status = Exit_Code int | Killed_By int | Still_There

datatype wait_event = Reaped int wait_status | Nothing_Yet | Wait_Interrupted | Wait_Failed error

fun wait :: "int \<Rightarrow> wait_event list \<Rightarrow> int res" where
  "wait pid [] = Inl (Bail ''the container exited but its exit status was lost'')"
| "wait pid (Reaped p st # es) =
     (if p = pid
      then (case st of
              Exit_Code code \<Rightarrow> Inr code
            | Killed_By sig \<Rightarrow> Inr (128 + sig)
            | Still_There \<Rightarrow> wait pid es)
      else wait pid es)"
| "wait pid (Nothing_Yet # es) = wait pid es"
| "wait pid (Wait_Interrupted # es) = wait pid es"
| "wait pid (Wait_Failed e # es) = Inl (Context ''waiting for the container'' e)"

section \<open>Guards\<close>

definition enable_raw :: "answers \<Rightarrow> unit steps" (* RawMode::enable *) where
  "enable_raw sys =
     bindM (contextM ''reading terminal settings'' (call sys (Terminal Get_Terminal))) (\<lambda>_.
     bindM (contextM ''enabling raw terminal mode'' (call sys (Terminal Set_Raw))) (\<lambda>_. returnM ()))"

definition drop_raw :: "answers \<Rightarrow> unit steps" where
  "drop_raw sys = drop_call sys (Terminal Restore_Terminal)"

definition install_resize :: "answers \<Rightarrow> unit steps" (* ResizeForwarder::install *) where
  "install_resize sys =
     bindM (contextM ''creating the resize pipe'' (call sys (Terminal Resize_Pipe))) (\<lambda>_.
     bindM (contextM ''making the resize pipe non-blocking'' (call sys (Terminal Resize_Nonblock))) (\<lambda>_.
     bindM (contextM ''duplicating the pty master for resizes'' (call sys (Terminal Clone_Master))) (\<lambda>_.
     bindM (drop_call sys (Terminal Spawn_Resizer)) (\<lambda>_.
     bindM (contextM ''installing the SIGWINCH handler'' (call sys (Terminal Install_Winch))) (\<lambda>_.
     drop_call sys (Terminal (Store_Resize True)))))))"

definition drop_resize :: "answers \<Rightarrow> unit steps" where
  "drop_resize sys =
     bindM (drop_call sys (Terminal Default_Winch)) (\<lambda>_.
     bindM (drop_call sys (Terminal (Store_Resize False))) (\<lambda>_.
     bindM (drop_call sys (Terminal Close_Resize)) (\<lambda>_.
     drop_call sys (Terminal Join_Resizer))))"

definition into_master :: "answers \<Rightarrow> unit steps" (* ConsoleSocket::into_master *) where
  "into_master sys =
     bindM (contextM ''accepting the console socket connection'' (call sys Accept_Console)) (\<lambda>_.
     bindM (contextM ''receiving the pty master over the console socket'' (call sys Receive_Master)) (\<lambda>n.
     bindM (if n = 0 then failM (Bail ''console socket carried no pty master fd'') else returnM ()) (\<lambda>_.
     drop_call sys (Terminal Resize_Master))))"

section \<open>The loopback bridge\<close>

definition HOOK_SOCKET :: string where "HOOK_SOCKET = ''loopback.sock''"
definition HOOK_ARG :: string where "HOOK_ARG = ''__lo-hook''"
definition HELPER_ARG :: string where "HELPER_ARG = ''__lo-helper''"
definition LOCALNET_ARG :: string where "LOCALNET_ARG = ''localnet''"

definition bind_bridge :: "answers \<Rightarrow> path \<Rightarrow> path steps" (* Bridge::bind *) where
  "bind_bridge sys bundle =
     (let p = join_str bundle HOOK_SOCKET in
      bindM (contextM (''binding loopback socket '' @ path_str p) (call sys (Bind_Socket p))) (\<lambda>_.
      returnM p))"

text \<open>The executable's path is the environment's; only the hook's arguments are the code's.\<close>

definition install_hook :: "answers \<Rightarrow> path \<Rightarrow> path \<Rightarrow> oci_spec \<Rightarrow> oci_spec steps" where
  "install_hook sys exe socket s =
     bindM (contextM ''resolving the CLImate executable'' (call sys Current_Exe)) (\<lambda>_.
     returnM (s\<lparr>spec_hooks := Some [\<lparr>hook_path = exe,
        hook_args = [''climate'', HOOK_ARG, path_str socket]\<rparr>]\<rparr>))"

text \<open>\<open>relay\<close>, \<open>quit\<close> and \<open>thread\<close> are still \<open>None\<close> where the start failed before they were set.\<close>

definition drop_forwarder :: "answers \<Rightarrow> bool \<Rightarrow> bool \<Rightarrow> bool \<Rightarrow> unit steps" where
  "drop_forwarder sys relaying quit thread =
     bindM (drop_call sys (Bridge Kill_Helper)) (\<lambda>_.
     bindM (whenM relaying (drop_call sys (Bridge Stop_Relay))) (\<lambda>_.
     bindM (whenM quit (drop_call sys (Bridge Close_Quit))) (\<lambda>_.
     bindM (whenM thread (drop_call sys (Bridge Join_Loop))) (\<lambda>_.
     drop_call sys (Bridge Reap_Helper)))))"

text \<open>A forwarder that fails to start is dropped as far as it was set up.\<close>

definition or_drop :: "unit steps \<Rightarrow> 'a steps \<Rightarrow> 'a steps" where
  "or_drop d m tr = (case m tr of (Inl e, tr') \<Rightarrow> (Inl e, snd (d tr')) | (Inr x, tr') \<Rightarrow> (Inr x, tr'))"

definition start_forwarder :: "answers \<Rightarrow> int \<Rightarrow> bool \<Rightarrow> unit steps" (* Forwarder::start *) where
  "start_forwarder sys pid localnet =
     bindM (contextM ''creating the loopback helper's socket'' (call sys (Bridge Socket_Pair))) (\<lambda>_.
     bindM (contextM ''resolving the CLImate executable'' (call sys Current_Exe)) (\<lambda>_.
     bindM (contextM ''starting the container's loopback helper'' (call sys (Bridge (Spawn_Helper localnet)))) (\<lambda>_.
     bindM (drop_call sys (Bridge Close_Sources)) (\<lambda>_.
     bindM (or_drop (drop_forwarder sys False False False)
        (bindM (contextM ''waiting for the container's loopback helper'' (call sys (Bridge Receive_Ready))) (\<lambda>tun.
         whenM localnet
           (bindM (if tun = 0 then failM (Bail ''the helper did not pass the TUN device'') else returnM ())
              (\<lambda>_. bindM (call sys (Bridge Start_Relay)) (\<lambda>_. returnM ())))))) (\<lambda>_.
     bindM (or_drop (drop_forwarder sys localnet False False)
        (contextM ''creating the forwarding shutdown pipe'' (call sys (Bridge Quit_Pipe)))) (\<lambda>_.
     drop_call sys (Bridge (Spawn_Loop pid))))))))"

definition start_bridge :: "answers \<Rightarrow> int \<Rightarrow> bool \<Rightarrow> unit steps" (* Bridge::start *) where
  "start_bridge sys pid localnet =
     bindM (contextM ''waiting for the container's loopback hook'' (call sys (Bridge Accept_Hook))) (\<lambda>_.
     bindM (contextM ''receiving the container's namespaces'' (call sys (Bridge Receive_Namespaces))) (\<lambda>n.
     bindM (if n = 2 then returnM ()
            else failM (Bail ''the loopback hook did not pass both namespaces'')) (\<lambda>_.
     start_forwarder sys pid localnet)))"

section \<open>The run\<close>

definition check_cgroup2 :: "answers \<Rightarrow> unit steps" where
  "check_cgroup2 sys =
     bindM (ask sys Cgroup2_There) (\<lambda>there.
     if there = 0
     then failM (Bail (''no cgroup v2 filesystem at /sys/fs/cgroup; on OpenRC enable it with ''
            @ ''`rc-update add cgroups boot && rc-service cgroups start` (as root)''))
     else returnM ())"

definition install_signal_forwarding :: "answers \<Rightarrow> unit steps" where
  "install_signal_forwarding sys =
     forM [SIGINT, SIGTERM] (\<lambda>n.
       bindM (contextM (''installing the handler for signal '' @ int_str n) (call sys (Install_Handler n)))
         (\<lambda>_. returnM ()))"

definition discard_if_null :: "answers \<Rightarrow> run_call \<Rightarrow> unit steps" where
  "discard_if_null sys stream =
     bindM (ask sys stream) (\<lambda>null.
     whenM (null \<noteq> 0)
       (bindM (contextM ''creating a discard pipe'' (call sys Discard_Pipe)) (\<lambda>_. returnM ())))"

text \<open>The signal that arrived while the container was being created.\<close>

definition deliver_pending :: "answers \<Rightarrow> int \<Rightarrow> unit steps" where
  "deliver_pending sys pid =
     bindM (ask sys Swap_Pending) (\<lambda>pending.
     whenM (pending > 0)
       (bindM (ask sys Swap_Forwarded) (\<lambda>before.
        whenM (before = 0) (drop_call sys (Kill pid pending)))))"

text \<open>Without systemd, an absolute cgroup path.\<close>

definition own_cgroup :: "target \<Rightarrow> string \<Rightarrow> oci_spec \<Rightarrow> oci_spec" where
  "own_cgroup T ident s =
     (if systemd T then s
      else case spec_linux s of
        None \<Rightarrow> s
      | Some l \<Rightarrow> s\<lparr>spec_linux := Some (l\<lparr>lin_cgroups_path := Some (join_str [RootDir] ident)\<rparr>)\<rparr>)"

text \<open>The closure of \<open>run\<close>; \<open>_resize\<close>, \<open>_raw\<close> and \<open>_forward\<close> are dropped in this order at its end.\<close>

definition run_app :: "answers \<Rightarrow> wait_event list \<Rightarrow> int \<Rightarrow> bool \<Rightarrow> network \<Rightarrow> int steps" where
  "run_app sys evs pid tty nw =
     (let bridged = (nw = Net_Localhost \<or> nw = Net_Localnet); local = (nw = Net_Localnet) in
      bindM (whenM bridged (start_bridge sys pid local)) (\<lambda>_.
      scoped (whenM bridged (drop_forwarder sys local True True))
        (bindM (contextM ''starting the container'' (call sys Start_Container)) (\<lambda>_.
         bindM (whenM tty (enable_raw sys)) (\<lambda>_.
         scoped (whenM tty (drop_raw sys))
           (bindM (whenM tty (install_resize sys)) (\<lambda>_.
            scoped (whenM tty (drop_resize sys))
              (bindM (whenM tty (drop_call sys (Terminal Spawn_Pump))) (\<lambda>_.
               bindM (drop_call sys (Wait_Child pid)) (\<lambda>_.
               bindM (liftM (wait pid evs)) (\<lambda>code.
               bindM (whenM tty (drop_call sys (Terminal Join_Output))) (\<lambda>_.
               returnM code))))))))))))"

text \<open>The end of a run, from the moment the container's pid is published.\<close>

definition finish_run :: "answers \<Rightarrow> wait_event list \<Rightarrow> path \<Rightarrow> int \<Rightarrow> bool \<Rightarrow> network \<Rightarrow> int steps" where
  "finish_run sys evs bundle pid tty nw =
     bindM (deliver_pending sys pid) (\<lambda>_.
     bindM (tryM (run_app sys evs pid tty nw)) (\<lambda>result.
     bindM (drop_call sys (Store_Pid 0)) (\<lambda>_.
     bindM (drop_call sys Delete_Container) (\<lambda>_.
     bindM (drop_call sys (Remove_Bundle bundle)) (\<lambda>_.
     bindM (whenM tty (drop_call sys Close_Master)) (\<lambda>_.
     liftM result))))))"

definition run_container ::
  "answers \<Rightarrow> wait_event list \<Rightarrow> target \<Rightarrow> path \<Rightarrow> path \<Rightarrow> string \<Rightarrow> oci_spec \<Rightarrow> bool \<Rightarrow> network \<Rightarrow> int steps" where
  "run_container sys evs T exe base ident s tty nw =
     (let bundle = join_str (join_str base ''bundles'') ident; state_root = join_str base ''containers'';
          bridged = (nw = Net_Localhost \<or> nw = Net_Localnet) in
      bindM (check_cgroup2 sys) (\<lambda>_.
      bindM (contextM (''creating '' @ path_str bundle) (call sys (Create_Dir bundle))) (\<lambda>_.
      bindM (contextM (''creating '' @ path_str state_root) (call sys (Create_Dir state_root))) (\<lambda>_.
      bindM (if bridged
             then bindM (bind_bridge sys bundle) (\<lambda>socket. install_hook sys exe socket s)
             else returnM s) (\<lambda>s.
      bindM (contextM ''writing the runtime spec''
        (call sys (Save_Spec (join_str bundle ''config.json'') (own_cgroup T ident s)))) (\<lambda>_.
      bindM (contextM ''becoming a child subreaper'' (call sys Become_Subreaper)) (\<lambda>_.
      bindM (install_signal_forwarding sys) (\<lambda>_.
      bindM (whenM tty (let p = join_str bundle ''console.sock'' in
               bindM (contextM (''binding console socket '' @ path_str p) (call sys (Bind_Socket p)))
                 (\<lambda>_. returnM ()))) (\<lambda>_.
      bindM (contextM ''setting the container state path'' (call sys (Set_Root_Path state_root))) (\<lambda>_.
      bindM (discard_if_null sys Stdout_Null) (\<lambda>_.
      bindM (discard_if_null sys Stderr_Null) (\<lambda>_.
      bindM (contextM ''creating the container'' (call sys (Build_Container bundle tty))) (\<lambda>_.
      bindM (whenM tty (into_master sys)) (\<lambda>_.
      bindM (call sys Container_Pid) (\<lambda>pid.
      bindM (if pid \<le> 0 then failM (Bail ''container has an invalid pid'') else returnM ()) (\<lambda>_.
      bindM (drop_call sys (Store_Pid pid)) (\<lambda>_.
      finish_run sys evs bundle pid tty nw)))))))))))))))))"

section \<open>What is done is undone\<close>

text \<open>
  \<open>settled sys a b\<close>: every call \<open>a\<close> that succeeded has a call \<open>b\<close> after it. A step \<open>opens\<close> the
  invariant when it may leave it broken, but only if it succeeds; one that \<open>settles\<close> it
  establishes it from anywhere, and one that \<open>recovers\<close> it does so if it fails.
\<close>

definition settled :: "answers \<Rightarrow> run_call \<Rightarrow> run_call \<Rightarrow> run_call trace \<Rightarrow> bool" where
  "settled sys a b tr \<longleftrightarrow>
     (\<forall>i < length tr. tr ! i = a \<and> (\<exists>x. sys (take i tr) a = Inr x) \<longrightarrow>
        (\<exists>j. i < j \<and> j < length tr \<and> tr ! j = b))"

definition infallible :: "'a steps \<Rightarrow> bool" where
  "infallible m \<longleftrightarrow> (\<forall>s. \<exists>x t. m s = (Inr x, t))"

definition opens :: "(run_call trace \<Rightarrow> bool) \<Rightarrow> 'a steps \<Rightarrow> bool" where
  "opens I m \<longleftrightarrow> triple I m (\<lambda>_ _. True) I"

definition settles :: "(run_call trace \<Rightarrow> bool) \<Rightarrow> 'a steps \<Rightarrow> bool" where
  "settles I m \<longleftrightarrow> triple (\<lambda>_. True) m (\<lambda>_. I) I"

definition recovers :: "(run_call trace \<Rightarrow> bool) \<Rightarrow> 'a steps \<Rightarrow> bool" where
  "recovers I m \<longleftrightarrow> triple (\<lambda>_. True) m (\<lambda>_ _. True) I"

lemma settled_Nil [simp]: "settled sys a b []"
  by (simp add: settled_def)

lemma settled_other:
  assumes "settled sys a b tr" "c \<noteq> a \<or> (\<exists>e. sys tr a = Inl e)"
  shows "settled sys a b (tr @ [c])"
  unfolding settled_def
proof (intro allI impI)
  fix i assume i: "i < length (tr @ [c])"
    and h: "(tr @ [c]) ! i = a \<and> (\<exists>x. sys (take i (tr @ [c])) a = Inr x)"
  have "i < length tr"
    using i h assms(2) by (cases "i = length tr") (auto simp: nth_append)
  with h assms(1) obtain j where "i < j" "j < length tr" "tr ! j = b"
    by (auto simp: settled_def nth_append)
  then show "\<exists>j. i < j \<and> j < length (tr @ [c]) \<and> (tr @ [c]) ! j = b"
    by (intro exI [of _ j]) (simp add: nth_append)
qed

lemma settled_closed: "a \<noteq> b \<Longrightarrow> settled sys a b (tr @ [b])"
  unfolding settled_def
proof (intro allI impI)
  fix i assume ab: "a \<noteq> b" and i: "i < length (tr @ [b])"
    and h: "(tr @ [b]) ! i = a \<and> (\<exists>x. sys (take i (tr @ [b])) a = Inr x)"
  then have "i < length tr" by (cases "i = length tr") (auto simp: nth_append)
  then show "\<exists>j. i < j \<and> j < length (tr @ [b]) \<and> (tr @ [b]) ! j = b"
    by (intro exI [of _ "length tr"]) simp
qed

named_theorems infallibles \<open>steps that never fail\<close>

lemma infallible_ask [infallibles]: "infallible (ask sys c)"
  by (simp add: infallible_def ask_def)

lemma infallible_drop [infallibles]: "infallible (drop_call sys c)"
  by (simp add: infallible_def drop_call_def script_simps)

lemma infallible_return [infallibles]: "infallible (returnM x)"
  by (simp add: infallible_def script_simps)

lemma infallible_when [infallibles]: "infallible m \<Longrightarrow> infallible (whenM b m)"
  by (cases b) (simp_all add: infallible_return)

lemma infallible_try [infallibles]: "infallible (tryM m)"
  by (auto simp: infallible_def tryM_def split: prod.splits)

lemma infallible_bind [infallibles]:
  "infallible m \<Longrightarrow> (\<And>x. infallible (f x)) \<Longrightarrow> infallible (bindM m f)"
  unfolding infallible_def bindM_def by (metis (no_types, lifting) case_prod_conv sum.case(2))

lemma infallible_pending [infallibles]: "infallible (deliver_pending sys pid)"
  unfolding deliver_pending_def by (intro infallibles)

lemma keeps_settled_call [keeps_intros]: "c \<noteq> a \<Longrightarrow> keeps (settled sys a b) (call sys c)"
  by (auto simp: keeps_def script_simps intro: settled_other)

lemma keeps_settled_ask [keeps_intros]: "c \<noteq> a \<Longrightarrow> keeps (settled sys a b) (ask sys c)"
  by (auto simp: keeps_def ask_def intro: settled_other)

lemma keeps_settled_drop [keeps_intros]: "c \<noteq> a \<Longrightarrow> keeps (settled sys a b) (drop_call sys c)"
  unfolding drop_call_def by (intro keeps_intros)

lemma keeps_scoped [keeps_intros]: "keeps I d \<Longrightarrow> keeps I m \<Longrightarrow> keeps I (scoped d m)"
  by (auto simp: keeps_def scoped_def split: prod.splits)

lemma keeps_or_drop [keeps_intros]: "keeps I d \<Longrightarrow> keeps I m \<Longrightarrow> keeps I (or_drop d m)"
  by (auto simp: keeps_def or_drop_def split: prod.splits sum.splits)

lemma opens_call: "opens (settled sys a b) (call sys a)"
  unfolding opens_def by (rule tripleI) (auto simp: script_simps intro: settled_other)

lemma opens_context: "opens I m \<Longrightarrow> opens I (contextM msg m)"
  unfolding opens_def by (rule triple_context)

lemma opens_infallible: "infallible m \<Longrightarrow> opens I m"
  unfolding opens_def infallible_def by (rule tripleI) (auto, metis Inl_Inr_False prod.inject)

lemma opens_keeps: "keeps I m \<Longrightarrow> opens I m"
  unfolding opens_def keeps_triple by (erule triple_weaken) auto

lemma opens_later: "keeps I m \<Longrightarrow> (\<And>x. opens I (f x)) \<Longrightarrow> opens I (bindM m f)"
  unfolding opens_def keeps_triple by (rule triple_bind)

lemma opens_now: "opens I m \<Longrightarrow> (\<And>x. recovers I (f x)) \<Longrightarrow> opens I (bindM m f)"
  unfolding opens_def recovers_def by (rule triple_bind)

lemma opens_when: "opens I m \<Longrightarrow> opens I (whenM c m)"
  by (cases c) (auto intro: opens_infallible infallibles)

lemma recovers_infallible: "infallible m \<Longrightarrow> recovers I m"
  unfolding recovers_def infallible_def by (rule tripleI) (auto, metis Inl_Inr_False prod.inject)

lemma recovers_bind: "recovers I m \<Longrightarrow> (\<And>x. recovers I (f x)) \<Longrightarrow> recovers I (bindM m f)"
  unfolding recovers_def by (rule triple_bind)

lemma recovers_or_drop: "settles I d \<Longrightarrow> recovers I (or_drop d m)"
  unfolding recovers_def settles_def
  by (rule tripleI) (auto simp: or_drop_def triple_snd split: prod.splits sum.splits)

lemma settles_call: "a \<noteq> b \<Longrightarrow> settles (settled sys a b) (drop_call sys b)"
  unfolding settles_def by (rule tripleI) (auto simp: drop_call_def script_simps intro: settled_closed)

lemma settles_later: "infallible m \<Longrightarrow> (\<And>x. settles I (f x)) \<Longrightarrow> settles I (bindM m f)"
  unfolding settles_def using recovers_infallible [of m I, unfolded recovers_def] by (rule triple_bind)

lemma settles_now: "settles I m \<Longrightarrow> (\<And>x. keeps I (f x)) \<Longrightarrow> settles I (bindM m f)"
  unfolding settles_def keeps_triple by (rule triple_bind)

lemma settles_scoped: "settles I d \<Longrightarrow> settles I (scoped d m)"
  unfolding settles_def by (rule tripleI) (auto simp: scoped_def triple_snd split: prod.splits)

lemma keeps_opened: "opens I m \<Longrightarrow> (\<And>x. settles I (f x)) \<Longrightarrow> keeps I (bindM m f)"
  unfolding opens_def settles_def keeps_triple by (rule triple_bind)

lemma keeps_settles: "settles I m \<Longrightarrow> keeps I m"
  unfolding settles_def keeps_triple by (erule triple_weaken) auto


text \<open>The pairs: what a guard's constructor does, and what its destructor does.\<close>

abbreviation "raw_mode sys \<equiv> settled sys (Terminal Set_Raw) (Terminal Restore_Terminal)"
abbreviation "winch sys \<equiv> settled sys (Terminal Install_Winch) (Terminal Default_Winch)"
abbreviation "helper sys l \<equiv> settled sys (Bridge (Spawn_Helper l)) (Bridge Reap_Helper)"

lemma enable_raw_opens: "opens (raw_mode sys) (enable_raw sys)"
  unfolding enable_raw_def
  by (intro opens_later opens_now opens_context opens_call recovers_infallible infallibles keeps_intros) simp

lemma drop_raw_settles: "settles (raw_mode sys) (drop_raw sys)"
  unfolding drop_raw_def by (rule settles_call) simp

lemma install_resize_opens: "opens (winch sys) (install_resize sys)"
  unfolding install_resize_def
  by (intro opens_later opens_now opens_context opens_call recovers_infallible infallibles keeps_intros) simp_all

lemma drop_resize_settles: "settles (winch sys) (drop_resize sys)"
  unfolding drop_resize_def by (intro settles_now settles_call keeps_intros) simp_all

lemma drop_forwarder_settles: "settles (helper sys l) (drop_forwarder sys relaying quit thread)"
  unfolding drop_forwarder_def by (intro settles_later settles_call infallibles) simp

lemma start_forwarder_opens: "opens (helper sys l) (start_forwarder sys pid l)"
  unfolding start_forwarder_def
  by (rule opens_later, (intro keeps_intros; simp)[1], rule opens_later, (intro keeps_intros; simp)[1],
    rule opens_now, intro opens_context opens_call,
    intro recovers_bind recovers_or_drop drop_forwarder_settles recovers_infallible infallibles)

lemma keeps_no_guard:
  assumes "a \<in> {Terminal Set_Raw, Terminal Install_Winch} \<union> range (\<lambda>l. Bridge (Spawn_Helper l)) \<union>
      range Store_Pid"
  shows "keeps (settled sys a b) (check_cgroup2 sys)"
    "keeps (settled sys a b) (install_signal_forwarding sys)"
    "keeps (settled sys a b) (bind_bridge sys p)" "keeps (settled sys a b) (install_hook sys exe p s)"
    "keeps (settled sys a b) (discard_if_null sys Stdout_Null)"
    "keeps (settled sys a b) (discard_if_null sys Stderr_Null)"
    "keeps (settled sys a b) (into_master sys)"
    "keeps (settled sys a b) (deliver_pending sys pid)"
  unfolding check_cgroup2_def install_signal_forwarding_def bind_bridge_def install_hook_def Let_def
    discard_if_null_def into_master_def deliver_pending_def
  by (intro keeps_intros; use assms in auto)+

lemma keeps_guards:
  "a \<notin> {Terminal Get_Terminal, Terminal Set_Raw} \<Longrightarrow> keeps (settled sys a b) (enable_raw sys)"
  "a \<noteq> Terminal Restore_Terminal \<Longrightarrow> keeps (settled sys a b) (drop_raw sys)"
  "a \<in> {Terminal Set_Raw} \<union> range Bridge \<union> range Store_Pid \<Longrightarrow> keeps (settled sys a b) (install_resize sys)"
  "a \<in> {Terminal Set_Raw, Terminal Install_Winch} \<union> range Bridge \<union> range Store_Pid \<Longrightarrow>
     keeps (settled sys a b) (drop_resize sys)"
  "a \<in> range Terminal \<union> range Store_Pid \<Longrightarrow> keeps (settled sys a b) (drop_forwarder sys u v w)"
  "a \<in> range Terminal \<union> range Store_Pid \<Longrightarrow> keeps (settled sys a b) (start_bridge sys pid l)"
  unfolding enable_raw_def drop_raw_def install_resize_def drop_resize_def drop_forwarder_def
    start_bridge_def start_forwarder_def
  by ((intro keeps_intros; auto)[1])+

lemma keeps_drop_forwarder:
  "keeps (helper sys l) (drop_forwarder sys u v w)"
  by (rule keeps_settles [OF drop_forwarder_settles])

lemma start_bridge_opens: "opens (helper sys l) (start_bridge sys pid l)"
  unfolding start_bridge_def
  by (intro opens_later start_forwarder_opens keeps_intros) simp_all


lemma keeps_whenM_opened:
  "(c \<Longrightarrow> opens I m) \<Longrightarrow> (\<And>x. c \<Longrightarrow> settles I (f x)) \<Longrightarrow> (\<not> c \<Longrightarrow> keeps I (f ())) \<Longrightarrow>
   keeps I (bindM (whenM c m) f)"
  by (cases c) (auto intro: keeps_opened)

lemma run_app_raw: "keeps (raw_mode sys) (run_app sys evs pid tty nw)"
  unfolding run_app_def Let_def
  by (intro keeps_bind keeps_scoped keeps_when keeps_whenM_opened enable_raw_opens settles_scoped
      keeps_guards keeps_context keeps_lift keeps_return keeps_settled_call keeps_settled_drop)
    (auto intro: drop_raw_settles keeps_guards)


lemma run_app_winch: "keeps (winch sys) (run_app sys evs pid tty nw)"
  unfolding run_app_def Let_def
  by (intro keeps_bind keeps_scoped keeps_when keeps_whenM_opened install_resize_opens settles_scoped
      keeps_guards keeps_context keeps_lift keeps_return keeps_settled_call keeps_settled_drop)
    (auto intro: drop_resize_settles keeps_guards)

lemma settles_when: "c \<Longrightarrow> settles I m \<Longrightarrow> settles I (whenM c m)"
  by simp

lemma run_app_helper: "keeps (helper sys (nw = Net_Localnet)) (run_app sys evs pid tty nw)"
proof -
  have inner: "keeps (settled sys (Bridge (Spawn_Helper l)) b)
    (bindM (contextM ''starting the container'' (call sys Start_Container)) (\<lambda>_.
     bindM (whenM tty (enable_raw sys)) (\<lambda>_.
         scoped (whenM tty (drop_raw sys))
           (bindM (whenM tty (install_resize sys)) (\<lambda>_.
            scoped (whenM tty (drop_resize sys))
              (bindM (whenM tty (drop_call sys (Terminal Spawn_Pump))) (\<lambda>_.
               bindM (drop_call sys (Wait_Child pid)) (\<lambda>_.
               bindM (liftM (wait pid evs)) (\<lambda>code.
               bindM (whenM tty (drop_call sys (Terminal Join_Output))) (\<lambda>_.
               returnM code))))))))))" for l b
    by (intro keeps_intros keeps_guards) auto
  show ?thesis
    unfolding run_app_def Let_def
    by (rule keeps_whenM_opened)
      (auto intro: start_bridge_opens settles_scoped drop_forwarder_settles keeps_scoped keeps_return inner)
qed

lemma run_app_pid: "keeps (settled sys (Store_Pid p) b) (run_app sys evs pid tty nw)"
  unfolding run_app_def Let_def
  by (intro keeps_intros keeps_guards) auto

text \<open>What a run does and has to undo.\<close>

definition undo_pairs :: "path \<Rightarrow> int \<Rightarrow> bool \<Rightarrow> (run_call \<times> run_call) set" where
  "undo_pairs bundle pid local =
     {(Terminal Set_Raw, Terminal Restore_Terminal), (Terminal Install_Winch, Terminal Default_Winch),
      (Bridge (Spawn_Helper local), Bridge Reap_Helper), (Store_Pid pid, Store_Pid 0),
      (Store_Pid pid, Delete_Container), (Store_Pid pid, Remove_Bundle bundle)}"

lemma run_app_pairs:
  "(a, b) \<in> undo_pairs bundle p (nw = Net_Localnet) \<Longrightarrow> keeps (settled sys a b) (run_app sys evs pid tty nw)"
  by (auto simp: undo_pairs_def intro: run_app_raw run_app_winch run_app_helper run_app_pid)

lemma finish_run_settles:
  assumes "b \<in> {Store_Pid 0, Delete_Container, Remove_Bundle bundle}" "p \<noteq> 0"
  shows "settles (settled sys (Store_Pid p) b) (finish_run sys evs bundle pid tty nw)"
proof -
  have ne: "Store_Pid p \<noteq> b" using assms by auto
  have now: "settles (settled sys (Store_Pid p) b) (bindM (drop_call sys b) f)"
    if "\<And>x. keeps (settled sys (Store_Pid p) b) (f x)" for f :: "unit \<Rightarrow> int steps"
    using settles_call [OF ne] that by (rule settles_now)
  have tail: "keeps (settled sys (Store_Pid p) b) (bindM (whenM tty (drop_call sys Close_Master)) (\<lambda>_. liftM r))"
    for r by (intro keeps_intros) auto
  from assms(1) consider "b = Store_Pid 0" | "b = Delete_Container" | "b = Remove_Bundle bundle" by blast
  then show ?thesis
  proof cases
    case 1
    show ?thesis unfolding finish_run_def 1
      by (intro settles_later [OF infallible_pending] settles_later [OF infallible_try] now [unfolded 1]
          keeps_bind tail [unfolded 1] keeps_settled_drop) (use assms(2) in simp_all)
  next
    case 2
    show ?thesis unfolding finish_run_def 2
      by (intro settles_later [OF infallible_pending] settles_later [OF infallible_try]
          settles_later [OF infallible_drop [of sys "Store_Pid 0"]] now [unfolded 2]
          keeps_bind tail [unfolded 2] keeps_settled_drop) (use assms(2) in simp_all)
  next
    case 3
    show ?thesis unfolding finish_run_def 3
      by (intro settles_later [OF infallible_pending] settles_later [OF infallible_try]
          settles_later [OF infallible_drop [of sys "Store_Pid 0"]]
          settles_later [OF infallible_drop [of sys Delete_Container]] now [unfolded 3] tail [unfolded 3])
  qed
qed

lemma finish_run_keeps:
  assumes "(a, b) \<in> undo_pairs bundle p (nw = Net_Localnet)" "p \<noteq> 0"
  shows "keeps (settled sys a b) (finish_run sys evs bundle pid tty nw)"
  unfolding finish_run_def
  by (intro keeps_intros keeps_no_guard run_app_pairs [OF assms(1)])
    (use assms in \<open>auto simp: undo_pairs_def\<close>)


lemma publish_keeps:
  assumes "(a, b) \<in> undo_pairs bundle p (nw = Net_Localnet)" "p \<noteq> 0"
  shows "keeps (settled sys a b)
    (bindM (drop_call sys (Store_Pid pid)) (\<lambda>_. finish_run sys evs bundle pid tty nw))"
proof (cases "a = Store_Pid p")
  case True
  then show ?thesis using assms
    by (auto simp: undo_pairs_def intro!: keeps_opened opens_infallible infallibles finish_run_settles)
next
  case False
  then show ?thesis using assms
    by (auto intro!: keeps_bind keeps_settled_drop finish_run_keeps simp: undo_pairs_def)
qed

lemma run_container_keeps:
  assumes "(a, b) \<in> undo_pairs (join_str (join_str base ''bundles'') ident) p (nw = Net_Localnet)" "p \<noteq> 0"
  shows "keeps (settled sys a b) (run_container sys evs T exe base ident s tty nw)"
proof -
  have a: "a \<in> {Terminal Set_Raw, Terminal Install_Winch} \<union> range (\<lambda>l. Bridge (Spawn_Helper l)) \<union> range Store_Pid"
    using assms(1) by (auto simp: undo_pairs_def)
  show ?thesis
    unfolding run_container_def Let_def
    by (intro publish_keeps [OF assms] keeps_no_guard [OF a] keeps_intros) (use a in auto)
qed


text \<open>An environment in which every call succeeds but \<open>bad\<close>: the numbers are those asked for.\<close>

definition demo_answers :: "run_call \<Rightarrow> answers" where
  "demo_answers bad tr c =
     (if c = bad then Inl (Io ''no'')
      else case c of
        Cgroup2_There \<Rightarrow> Inr 1
      | Bridge Receive_Namespaces \<Rightarrow> Inr 2
      | Receive_Master \<Rightarrow> Inr 1
      | Container_Pid \<Rightarrow> Inr 41
      | Bridge Receive_Ready \<Rightarrow> Inr 1
      | _ \<Rightarrow> Inr 0)"

definition demo_empty_spec :: oci_spec where
  "demo_empty_spec = \<lparr>spec_root = None, spec_process = None, spec_mounts = None, spec_linux = None, spec_hooks = None\<rparr>"

lemma join_bundles: "join_str (join_str [RootDir] ''bundles'') ''x'' = [RootDir, Normal ''bundles'', Normal ''x'']"
  by (simp add: join_plain plain_name_def)


section \<open>A run that fails early\<close>

lemma keeps_call_any: "(\<And>tr. I tr \<Longrightarrow> I (tr @ [c])) \<Longrightarrow> keeps I (call sys c)"
  by (simp add: keeps_def script_simps)

lemma keeps_ask_any: "(\<And>tr. I tr \<Longrightarrow> I (tr @ [c])) \<Longrightarrow> keeps I (ask sys c)"
  by (simp add: keeps_def ask_def)

lemma keeps_drop_any: "(\<And>tr. I tr \<Longrightarrow> I (tr @ [c])) \<Longrightarrow> keeps I (drop_call sys c)"
  unfolding drop_call_def by (intro keeps_intros keeps_call_any)

lemmas keeps_any = keeps_call_any keeps_ask_any keeps_drop_any

text \<open>Calls that only ever come after the pid is published.\<close>

definition removal :: "run_call \<Rightarrow> bool" where
  "removal c \<longleftrightarrow> c = Delete_Container \<or> (\<exists>q. c = Remove_Bundle q)"

definition published :: "run_call trace \<Rightarrow> bool" where
  "published tr \<longleftrightarrow> (\<exists>p. p \<noteq> 0 \<and> Store_Pid p \<in> set tr)"

definition untouched :: "run_call trace \<Rightarrow> bool" where
  "untouched tr \<longleftrightarrow> published tr \<or> (\<forall>c \<in> set tr. \<not> removal c)"

lemma untouched_snoc: "untouched tr \<Longrightarrow> \<not> removal c \<Longrightarrow> untouched (tr @ [c])"
  by (auto simp: untouched_def published_def)

lemma published_snoc: "published tr \<Longrightarrow> published (tr @ [c])"
  by (auto simp: published_def)

lemma keeps_published:
  "keeps published (deliver_pending sys pid)" "keeps published (enable_raw sys)" "keeps published (drop_raw sys)"
  "keeps published (install_resize sys)" "keeps published (drop_resize sys)"
  "keeps published (start_bridge sys pid l)" "keeps published (drop_forwarder sys u v w)"
  unfolding deliver_pending_def enable_raw_def drop_raw_def install_resize_def drop_resize_def
    start_bridge_def start_forwarder_def drop_forwarder_def
  by (intro keeps_any keeps_bind keeps_context keeps_when keeps_or_drop keeps_if keeps_return keeps_fail published_snoc;
      assumption)+

lemma keeps_published_finish: "keeps published (finish_run sys evs bundle pid tty nw)"
  unfolding finish_run_def run_app_def Let_def
  by (intro keeps_published keeps_any keeps_bind keeps_context keeps_when keeps_scoped keeps_return keeps_try keeps_lift
      published_snoc; assumption)

lemma keeps_untouched_finish:
  "pid \<noteq> 0 \<Longrightarrow> keeps untouched (bindM (drop_call sys (Store_Pid pid)) (\<lambda>_. finish_run sys evs bundle pid tty nw))"
proof (rule keepsI)
  fix tr r t
  assume p: "pid \<noteq> 0"
    and x: "bindM (drop_call sys (Store_Pid pid)) (\<lambda>_. finish_run sys evs bundle pid tty nw) tr = (r, t)"
  then have "finish_run sys evs bundle pid tty nw (tr @ [Store_Pid pid]) = (r, t)"
    by (simp add: bindM_def drop_call_def script_simps)
  moreover have "published (tr @ [Store_Pid pid])" using p by (auto simp: published_def)
  ultimately show "untouched t"
    using keepsD [OF keeps_published_finish] by (auto simp: untouched_def)
qed

lemma bindM_guard: "bindM (if c then failM e else returnM ()) f = (if c then failM e else f ())"
  by simp

lemma run_container_untouched: "keeps untouched (run_container sys evs T exe base ident s tty nw)"
  unfolding run_container_def Let_def check_cgroup2_def install_signal_forwarding_def bind_bridge_def
    install_hook_def discard_if_null_def into_master_def bindM_guard
  by (intro keeps_untouched_finish keeps_any keeps_bind keeps_context keeps_when keeps_if keeps_forM keeps_return
      keeps_fail untouched_snoc) (auto simp: removal_def)

text \<open>
  A run that fails before the container's pid is known deletes nothing: the bundle directory it
  made, and the container if it was created, are left behind.
\<close>

theorem early_failure_leaves_bundle:
  assumes "run_container sys evs T exe base ident s tty nw [] = (r, tr)"
    and "\<forall>p. Store_Pid p \<notin> set tr"
  shows "Delete_Container \<notin> set tr \<and> Remove_Bundle q \<notin> set tr"
proof -
  have "untouched tr"
    by (rule keepsD [OF run_container_untouched _ assms(1)]) (simp add: untouched_def)
  with assms(2) show ?thesis by (auto simp: untouched_def published_def removal_def)
qed

lemma demo_failed_build:
  "run_container (demo_answers (Build_Container [RootDir, Normal ''bundles'', Normal ''x''] False)) [] demo_target []
     [RootDir] ''x'' demo_empty_spec False Net_None [] =
   (Inl (Context ''creating the container'' (Io ''no'')),
    [Cgroup2_There, Create_Dir [RootDir, Normal ''bundles'', Normal ''x''], Create_Dir [RootDir, Normal ''containers''],
     Save_Spec [RootDir, Normal ''bundles'', Normal ''x'', Normal ''config.json''] demo_empty_spec, Become_Subreaper,
     Install_Handler 2, Install_Handler 15, Set_Root_Path [RootDir, Normal ''containers''], Stdout_Null, Stderr_Null,
     Build_Container [RootDir, Normal ''bundles'', Normal ''x''] False])"
  by (simp add: run_container_def Let_def join_plain plain_name_def check_cgroup2_def install_signal_forwarding_def
      discard_if_null_def bindM_def contextM_def ask_def script_simps demo_answers_def own_cgroup_def demo_target_def
      SIGINT_def SIGTERM_def)

theorem early_failure_leaves_bundle_witness:
  "\<exists>e tr. run_container (demo_answers (Build_Container [RootDir, Normal ''bundles'', Normal ''x''] False)) []
       demo_target [] [RootDir] ''x'' demo_empty_spec False Net_None [] = (Inl e, tr) \<and>
     Create_Dir [RootDir, Normal ''bundles'', Normal ''x''] \<in> set tr \<and>
     Remove_Bundle [RootDir, Normal ''bundles'', Normal ''x''] \<notin> set tr"
  using early_failure_leaves_bundle [OF demo_failed_build, of "[RootDir, Normal ''bundles'', Normal ''x'']"]
    demo_failed_build by simp

section \<open>The exit code\<close>

definition final :: "wait_status \<Rightarrow> int \<Rightarrow> bool" where
  "final st code \<longleftrightarrow> st = Exit_Code code \<or> (\<exists>sig. st = Killed_By sig \<and> code = 128 + sig)"

fun passed_over :: "int \<Rightarrow> wait_event \<Rightarrow> bool" where
  "passed_over pid (Reaped p st) \<longleftrightarrow> p \<noteq> pid \<or> st = Still_There"
| "passed_over pid (Wait_Failed _) \<longleftrightarrow> False"
| "passed_over pid _ \<longleftrightarrow> True"

lemma wait_final: "final st code \<Longrightarrow> wait pid (Reaped pid st # es) = Inr code"
  by (auto simp: final_def)

lemma wait_passed: "passed_over pid e \<Longrightarrow> wait pid (e # es) = wait pid es"
  by (cases e) auto

text \<open>
  \<open>wait\<close> gives a code exactly when the container's own end is the first of its kind among the
  events, no failure came before it, and the code is its exit code or 128 plus the signal; other
  children are passed over, and without such an event the answer is an error, never a code.
\<close>

theorem wait_reports:
  "wait pid es = Inr code \<longleftrightarrow>
     (\<exists>pre st post. es = pre @ Reaped pid st # post \<and> final st code \<and> (\<forall>e \<in> set pre. passed_over pid e))"
proof
  show "wait pid es = Inr code \<Longrightarrow>
     \<exists>pre st post. es = pre @ Reaped pid st # post \<and> final st code \<and> (\<forall>e \<in> set pre. passed_over pid e)"
  proof (induction es)
    case (Cons e es)
    show ?case
    proof (cases "passed_over pid e")
      case True
      with Cons obtain pre st post where
        "es = pre @ Reaped pid st # post" "final st code" "\<forall>e \<in> set pre. passed_over pid e"
        by (auto simp: wait_passed)
      with True show ?thesis by (intro exI [of _ "e # pre"] exI [of _ st] exI [of _ post]) simp
    next
      case False
      with Cons.prems obtain st where "e = Reaped pid st" "final st code"
        by (cases e) (auto simp: final_def split: wait_status.splits)
      then show ?thesis by (intro exI [of _ "[]"] exI [of _ st] exI [of _ es]) simp
    qed
  qed simp
next
  assume "\<exists>pre st post. es = pre @ Reaped pid st # post \<and> final st code \<and> (\<forall>e \<in> set pre. passed_over pid e)"
  then obtain pre st post where es: "es = pre @ Reaped pid st # post" "final st code"
    "\<forall>e \<in> set pre. passed_over pid e" by blast
  have "wait pid (pre @ Reaped pid st # post) = wait pid (Reaped pid st # post)"
    using es(3) by (induction pre) (auto simp: wait_passed)
  with es show "wait pid es = Inr code" using wait_final by simp
qed

theorem wait_reports_witness:
  "wait 41 [Reaped 7 (Exit_Code 0), Wait_Interrupted, Reaped 41 (Killed_By 9)] = Inr 137"
  unfolding wait_reports
  by (intro exI [of _ "[Reaped 7 (Exit_Code 0), Wait_Interrupted]"] exI [of _ "Killed_By 9"] exI [of _ "[]"])
    (simp add: final_def)

section \<open>The order of a run\<close>

definition ready :: "path \<Rightarrow> bool \<Rightarrow> network \<Rightarrow> run_call trace \<Rightarrow> run_call \<Rightarrow> bool" where
  "ready bundle tty nw pre c \<longleftrightarrow>
     (case c of
        Save_Spec _ _ \<Rightarrow>
          nw = Net_Localhost \<or> nw = Net_Localnet \<longrightarrow> Bind_Socket (join_str bundle HOOK_SOCKET) \<in> set pre
      | Build_Container _ _ \<Rightarrow>
          {Become_Subreaper, Install_Handler SIGINT, Install_Handler SIGTERM} \<subseteq> set pre \<and>
          (tty \<longrightarrow> Bind_Socket (join_str bundle ''console.sock'') \<in> set pre)
      | Start_Container \<Rightarrow>
          Build_Container bundle tty \<in> set pre \<and>
          (nw = Net_Localhost \<or> nw = Net_Localnet \<longrightarrow> (\<exists>p. Bridge (Spawn_Loop p) \<in> set pre))
      | Terminal t \<Rightarrow> t = Set_Raw \<longrightarrow> Start_Container \<in> set pre
      | Wait_Child _ \<Rightarrow> Start_Container \<in> set pre
      | _ \<Rightarrow> True)"

text \<open>
  \<open>goes R S m T\<close>: after the calls \<open>S\<close>, and with every call so far made when it may be, \<open>m\<close> makes
  every call when it may be, and if it succeeds the calls \<open>T\<close> have been made.
\<close>

definition calls_upto :: "(run_call trace \<Rightarrow> run_call \<Rightarrow> bool) \<Rightarrow> run_call set \<Rightarrow> run_call trace \<Rightarrow> bool" where
  "calls_upto R S tr \<longleftrightarrow> each_after R tr \<and> S \<subseteq> set tr"

definition goes ::
  "(run_call trace \<Rightarrow> run_call \<Rightarrow> bool) \<Rightarrow> run_call set \<Rightarrow> 'a steps \<Rightarrow> run_call set \<Rightarrow> bool" where
  "goes R S m T \<longleftrightarrow> triple (calls_upto R S) m (\<lambda>_. calls_upto R T) (calls_upto R {})"

named_theorems goes_intros

lemma goes_bind [goes_intros]:
  "goes R S m T \<Longrightarrow> (\<And>x. goes R T (f x) U) \<Longrightarrow> goes R S (bindM m f) U"
  unfolding goes_def by (rule triple_bind)

lemma goes_context [goes_intros]: "goes R S m T \<Longrightarrow> goes R S (contextM msg m) T"
  unfolding goes_def by (rule triple_context)

lemma goes_call [goes_intros]:
  "(\<And>tr. S \<subseteq> set tr \<Longrightarrow> R tr c) \<Longrightarrow> goes R S (call sys c) (insert c S)"
  "(\<And>tr. S \<subseteq> set tr \<Longrightarrow> R tr c) \<Longrightarrow> goes R S (drop_call sys c) (insert c S)"
  "(\<And>tr. S \<subseteq> set tr \<Longrightarrow> R tr c) \<Longrightarrow> goes R S (ask sys c) (insert c S)"
  unfolding goes_def by (rule tripleI; auto simp: script_simps drop_call_def ask_def calls_upto_def)+

lemma goes_return [goes_intros]: "goes R S (returnM x) S"
  by (simp add: goes_def triple_def script_simps)

lemma goes_fail [goes_intros]: "goes R S (failM e) T"
  by (simp add: goes_def triple_def script_simps calls_upto_def)

lemma goes_lift [goes_intros]: "goes R S (liftM r) S"
  by (cases r) (auto intro: goes_return goes_fail)

lemma goes_weaken: "goes R S m T \<Longrightarrow> T' \<subseteq> T \<Longrightarrow> goes R S m T'"
  unfolding goes_def by (erule triple_weaken) (auto simp: calls_upto_def)

lemma goes_when [goes_intros]: "goes R S m T \<Longrightarrow> S \<subseteq> T \<Longrightarrow> goes R S (whenM b m) S"
  by (cases b) (auto intro: goes_return goes_weaken)

lemma goes_if [goes_intros]: "goes R S m T \<Longrightarrow> goes R S n T \<Longrightarrow> goes R S (if b then m else n) T"
  by simp

lemma goes_try [goes_intros]: "goes R S m T \<Longrightarrow> goes R S (tryM m) {}"
  unfolding goes_def by (rule triple_try) (auto elim!: triple_weaken simp: calls_upto_def)

lemma goes_scoped [goes_intros]:
  assumes "goes R {} d T" "goes R S m U"
  shows "goes R S (scoped d m) {}"
  unfolding goes_def
proof (rule tripleI)
  fix s x t assume s: "calls_upto R S s" "scoped d m s = (Inr x, t)"
  then obtain s' where m: "m s = (Inr x, s')" "t = snd (d s')" by (auto simp: scoped_def split: prod.splits)
  with s(1) assms(2) have u: "calls_upto R {} s'" unfolding goes_def by (auto dest: triple_Inr simp: calls_upto_def)
  from assms(1) have d: "triple (calls_upto R {}) d (\<lambda>_. calls_upto R {}) (calls_upto R {})"
    unfolding goes_def by (elim triple_weaken) (auto simp: calls_upto_def)
  from triple_snd [OF d u] m(2) show "calls_upto R {} t" by simp
next
  fix s e t assume s: "calls_upto R S s" "scoped d m s = (Inl e, t)"
  then obtain s' where m: "m s = (Inl e, s')" "t = snd (d s')" by (auto simp: scoped_def split: prod.splits)
  with s(1) assms(2) have u: "calls_upto R {} s'" unfolding goes_def by (auto dest: triple_Inl)
  from assms(1) have d: "triple (calls_upto R {}) d (\<lambda>_. calls_upto R {}) (calls_upto R {})"
    unfolding goes_def by (elim triple_weaken) (auto simp: calls_upto_def)
  from triple_snd [OF d u] m(2) show "calls_upto R {} t" by simp
qed

lemma goes_or_drop [goes_intros]:
  assumes "goes R {} d T" "goes R S m U"
  shows "goes R S (or_drop d m) U"
  unfolding goes_def
proof (rule tripleI)
  fix s x t assume "calls_upto R S s" "or_drop d m s = (Inr x, t)"
  with assms(2) show "calls_upto R U t" unfolding goes_def
    by (auto simp: or_drop_def dest: triple_Inr split: prod.splits sum.splits)
next
  fix s e t assume s: "calls_upto R S s" "or_drop d m s = (Inl e, t)"
  then obtain s' where m: "m s = (Inl e, s')" "t = snd (d s')"
    by (auto simp: or_drop_def split: prod.splits sum.splits)
  with s(1) assms(2) have u: "calls_upto R {} s'" unfolding goes_def by (auto dest: triple_Inl)
  from assms(1) have d: "triple (calls_upto R {}) d (\<lambda>_. calls_upto R {}) (calls_upto R {})"
    unfolding goes_def by (elim triple_weaken) (auto simp: calls_upto_def)
  from triple_snd [OF d u] m(2) show "calls_upto R {} t" by simp
qed

lemma goes_forM2 [goes_intros]:
  "goes R S (f a) T \<Longrightarrow> goes R T (f b) U \<Longrightarrow> goes R S (forM [a, b] f) U"
  by (auto intro: goes_intros)

lemma goes_let [goes_intros]: "goes R S (f x) T \<Longrightarrow> goes R S (let y = x in f y) T"
  by simp

lemma drop_forwarder_goes [goes_intros]:
  "goes (ready bundle tty nw) S (drop_forwarder sys u v w) S"
  unfolding drop_forwarder_def
  by (rule goes_weaken, (rule goes_intros | (force simp: ready_def)[1])+)

lemma start_bridge_goes:
  "goes (ready bundle tty nw) S (start_bridge sys pid l) (insert (Bridge (Spawn_Loop pid)) S)"
  unfolding start_bridge_def start_forwarder_def
  by (rule goes_weaken, (rule goes_intros | (force simp: ready_def)[1])+)


lemma goes_parts [goes_intros]:
  "goes (ready bundle tty nw) S (check_cgroup2 sys) S"
  "goes (ready bundle tty nw) S (discard_if_null sys Stdout_Null) S"
  "goes (ready bundle tty nw) S (discard_if_null sys Stderr_Null) S"
  "goes (ready bundle tty nw) S (into_master sys) S"
  "goes (ready bundle tty nw) S (deliver_pending sys pid) S"
  "goes (ready bundle tty nw) S (drop_raw sys) S"
  "goes (ready bundle tty nw) S (install_resize sys) S"
  "goes (ready bundle tty nw) S (drop_resize sys) S"
  "goes (ready bundle tty nw) S (install_signal_forwarding sys)
     (insert (Install_Handler SIGTERM) (insert (Install_Handler SIGINT) S))"
  "goes (ready bundle tty nw) S (bind_bridge sys p) (insert (Bind_Socket (join_str p HOOK_SOCKET)) S)"
  "goes (ready bundle tty nw) S (install_hook sys exe p s) S"
  unfolding check_cgroup2_def discard_if_null_def into_master_def deliver_pending_def drop_raw_def
    install_resize_def drop_resize_def install_signal_forwarding_def bind_bridge_def install_hook_def
  by ((rule goes_weaken, (rule goes_intros | (force simp: ready_def)[1])+)[1])+

lemma enable_raw_goes: "Start_Container \<in> S \<Longrightarrow> goes (ready bundle tty nw) S (enable_raw sys) S"
  unfolding enable_raw_def
  by (rule goes_weaken, (rule goes_intros | (force simp: ready_def)[1])+)


lemma run_app_goes [goes_intros]:
  assumes "Build_Container bundle tty \<in> S"
  shows "goes (ready bundle tty nw) S (run_app sys evs pid tty nw) {}"
proof -
  let ?R = "ready bundle tty nw"
  let ?inner = "bindM (contextM ''starting the container'' (call sys Start_Container)) (\<lambda>_.
     bindM (whenM tty (enable_raw sys)) (\<lambda>_.
         scoped (whenM tty (drop_raw sys))
           (bindM (whenM tty (install_resize sys)) (\<lambda>_.
            scoped (whenM tty (drop_resize sys))
              (bindM (whenM tty (drop_call sys (Terminal Spawn_Pump))) (\<lambda>_.
               bindM (drop_call sys (Wait_Child pid)) (\<lambda>_.
               bindM (liftM (wait pid evs)) (\<lambda>code.
               bindM (whenM tty (drop_call sys (Terminal Join_Output))) (\<lambda>_.
               returnM code)))))))))"
  have inner: "goes ?R T ?inner {}" if "Build_Container bundle tty \<in> T"
    "nw = Net_Localhost \<or> nw = Net_Localnet \<Longrightarrow> Bridge (Spawn_Loop pid) \<in> T" for T
    using that
    by - (rule goes_weaken, (rule goes_intros enable_raw_goes | (force simp: ready_def)[1])+)
  show ?thesis
  proof (cases "nw = Net_Localhost \<or> nw = Net_Localnet")
    case True
    have "goes ?R S (bindM (start_bridge sys pid (nw = Net_Localnet)) (\<lambda>_.
        scoped (drop_forwarder sys (nw = Net_Localnet) True True) ?inner)) {}"
      by (rule goes_bind, rule start_bridge_goes, rule goes_scoped, rule drop_forwarder_goes, rule inner)
        (use assms in auto)
    with True show ?thesis unfolding run_app_def Let_def by simp
  next
    case False
    then have "goes ?R S (scoped (returnM ()) ?inner) {}"
      using assms by (intro goes_scoped [OF goes_return inner]) auto
    with False show ?thesis unfolding run_app_def Let_def by simp
  qed
qed


lemma finish_run_goes [goes_intros]:
  assumes "Build_Container bundle tty \<in> S"
  shows "goes (ready bundle tty nw) S (finish_run sys evs bundle pid tty nw) {}"
  unfolding finish_run_def
  by (rule goes_weaken, (rule goes_intros | (use assms in \<open>force simp: ready_def\<close>)[1])+)

lemma run_container_goes:
  "goes (ready (join_str (join_str base ''bundles'') ident) tty nw) {}
     (run_container sys evs T exe base ident s tty nw) {}"
proof -
  let ?b = "join_str (join_str base ''bundles'') ident"
  let ?R = "ready ?b tty nw"
  let ?bridged = "nw = Net_Localhost \<or> nw = Net_Localnet"
  have bridge: "goes ?R S (if ?bridged then bindM (bind_bridge sys ?b) (\<lambda>socket. install_hook sys exe socket s)
      else returnM s) (if ?bridged then insert (Bind_Socket (join_str ?b HOOK_SOCKET)) S else S)" for S
    by (auto intro: goes_intros)
  have console: "goes ?R S (whenM tty (let p = join_str ?b ''console.sock'' in
        bindM (contextM (''binding console socket '' @ path_str p) (call sys (Bind_Socket p))) (\<lambda>_. returnM ())))
      (if tty then insert (Bind_Socket (join_str ?b ''console.sock'')) S else S)" for S
    by (cases tty) (auto simp: Let_def ready_def intro!: goes_bind goes_context goes_call goes_return)
  have when_master: "goes ?R S (whenM tty (into_master sys)) S" for S
    by (rule goes_when, rule goes_parts) simp
  show ?thesis
    unfolding run_container_def Let_def
    by (rule goes_weaken, (rule bridge console [unfolded Let_def] when_master goes_intros
         | (force simp: ready_def split: if_splits)[1])+)
qed


text \<open>
  C18: in every run, whatever the calls answer: the bridge listens before the spec with its hook is
  written; the container is created only by a subreaper that forwards both signals and, on a
  terminal, listens for it; the app starts after its container was created and, where loopback
  is bridged, after forwarding has started; raw mode and waiting come after the start.
\<close>

theorem run_order:
  assumes "run_container sys evs T exe base ident s tty nw [] = (r, tr)"
  shows "each_after (ready (join_str (join_str base ''bundles'') ident) tty nw) tr"
proof -
  have u: "calls_upto (ready (join_str (join_str base ''bundles'') ident) tty nw) {} []"
    by (simp add: calls_upto_def)
  have "calls_upto (ready (join_str (join_str base ''bundles'') ident) tty nw) {} (snd (run_container sys evs T exe base ident s tty nw []))"
    using run_container_goes u unfolding goes_def by (rule triple_snd)
  with assms show ?thesis by (simp add: calls_upto_def)
qed

theorem run_order_witness:
  "each_after (ready [RootDir, Normal ''bundles'', Normal ''x''] True Net_Localnet)
     (snd (run_container (demo_answers Start_Container) [] demo_target [] [RootDir] ''x'' demo_empty_spec
        True Net_Localnet []))"
  using run_order [OF prod.collapse [symmetric], where base = "[RootDir]" and ident = "''x''"
      and tty = True and nw = Net_Localnet]
  by (simp add: join_bundles)

end
