(* ===== verification/Signals.thy ===== *)
theory Signals
  imports Session
begin

text \<open>
  The signal handlers of \<open>src/runtime.rs\<close> and the statics they share with the run: which signal
  reaches which process, however the handlers interleave with the run. A handler is one atomic
  step; between two of them the main thread takes any number of its own. The statics outlive a
  run, and one process may make two: it builds an image in a first one and runs the app in a second.
\<close>

section \<open>Forwarding signals\<close>

definition SIGKILL :: int where "SIGKILL = 9"

text \<open>\<open>CONTAINER_PID\<close>, \<open>PENDING_SIGNAL\<close>, \<open>FORWARDED\<close>, and the signals sent, in order.\<close>

record statics =
  container_pid :: int
  pending_signal :: int
  forwarded :: bool
  killed :: "(int \<times> int) list"

definition initial_statics :: statics where
  "initial_statics = \<lparr>container_pid = 0, pending_signal = 0, forwarded = False, killed = []\<rparr>"

definition send_signal :: "int \<Rightarrow> int \<Rightarrow> statics \<Rightarrow> statics" (* kill_process *) where
  "send_signal pid sig g = g\<lparr>killed := killed g @ [(pid, sig)]\<rparr>"

definition forward_signal :: "int \<Rightarrow> statics \<Rightarrow> statics" where
  "forward_signal signum g =
     (if container_pid g \<noteq> 0
      then send_signal (container_pid g) (if forwarded g then SIGKILL else signum) (g\<lparr>forwarded := True\<rparr>)
      else g\<lparr>pending_signal := signum\<rparr>)"

definition publish_pid :: "int \<Rightarrow> statics \<Rightarrow> statics" where
  "publish_pid pid g = g\<lparr>container_pid := pid\<rparr>"

definition take_pending :: "int \<Rightarrow> statics \<Rightarrow> statics" where
  "take_pending pid g =
     (let pending = pending_signal g; g = g\<lparr>pending_signal := 0\<rparr> in
      if pending = 0 then g
      else if forwarded g then g
      else send_signal pid pending (g\<lparr>forwarded := True\<rparr>))"

text \<open>
  The runs of one process. \<open>arrived\<close> are the signals since the run's start, \<open>earlier\<close> counts what had
  been sent before it, and \<open>runs\<close> the runs that are over.
\<close>

datatype phase = Preparing | Published | Running | Over

record session =
  phase :: phase
  app_pid :: int
  statics :: statics
  arrived :: "int list"
  earlier :: nat
  runs :: nat

definition initial_session :: session where
  "initial_session = \<lparr>phase = Preparing, app_pid = 0, statics = initial_statics, arrived = [], earlier = 0, runs = 0\<rparr>"

inductive session_step :: "session \<Rightarrow> session \<Rightarrow> bool" where
  signal: "n = SIGINT \<or> n = SIGTERM \<Longrightarrow>
     session_step s (s\<lparr>statics := forward_signal n (statics s), arrived := arrived s @ [n]\<rparr>)"
| publish: "phase s = Preparing \<Longrightarrow> 0 < pid \<Longrightarrow>
     session_step s (s\<lparr>phase := Published, app_pid := pid, statics := publish_pid pid (statics s)\<rparr>)"
| pending: "phase s = Published \<Longrightarrow>
     session_step s (s\<lparr>phase := Running, statics := take_pending (app_pid s) (statics s)\<rparr>)"
| retire: "phase s = Running \<Longrightarrow>
     session_step s (s\<lparr>phase := Over, statics := publish_pid 0 (statics s)\<rparr>)"
| next_run: "phase s = Over \<Longrightarrow>
     session_step s (s\<lparr>phase := Preparing, arrived := [], earlier := length (killed (statics s)),
       runs := Suc (runs s)\<rparr>)"

inductive session_reach :: "session \<Rightarrow> bool" where
  start: "session_reach initial_session"
| step: "session_reach s \<Longrightarrow> session_step s t \<Longrightarrow> session_reach t"

inductive_cases step_cases: "session_step s t"

text \<open>What the first run sent: nothing, or one signal as it came and then only \<open>SIGKILL\<close>.\<close>

definition one_then_kills :: "int \<Rightarrow> (int \<times> int) list \<Rightarrow> bool" where
  "one_then_kills pid ks \<longleftrightarrow>
     (\<exists>n k. (n = SIGINT \<or> n = SIGTERM) \<and> ks = (pid, n) # replicate k (pid, SIGKILL))"

definition first_run_ok :: "session \<Rightarrow> bool" where
  "first_run_ok s \<longleftrightarrow>
     (let g = statics s in
      (forwarded g \<longleftrightarrow> killed g \<noteq> []) \<and> (killed g = [] \<or> one_then_kills (app_pid s) (killed g)) \<and>
      (pending_signal g \<in> {0, SIGINT, SIGTERM}) \<and> set (arrived s) \<subseteq> {SIGINT, SIGTERM} \<and>
      (case phase s of
         Preparing \<Rightarrow> container_pid g = 0 \<and> killed g = [] \<and> (arrived s \<noteq> [] \<longrightarrow> pending_signal g \<noteq> 0)
       | Published \<Rightarrow> container_pid g = app_pid s \<and> 0 < app_pid s \<and>
           (arrived s \<noteq> [] \<longrightarrow> pending_signal g \<noteq> 0 \<or> killed g \<noteq> [])
       | Running \<Rightarrow> container_pid g = app_pid s \<and> 0 < app_pid s \<and> (arrived s \<noteq> [] \<longrightarrow> killed g \<noteq> [])
       | Over \<Rightarrow> container_pid g = 0))"

lemma signal_numbers [simp]: "SIGINT = 2" "SIGTERM = 15" "SIGKILL = 9"
  by (simp_all add: SIGINT_def SIGTERM_def SIGKILL_def)

lemma one_then_kills_snoc: "one_then_kills pid ks \<Longrightarrow> one_then_kills pid (ks @ [(pid, SIGKILL)])"
proof -
  assume "one_then_kills pid ks"
  then obtain n k where n: "n = SIGINT \<or> n = SIGTERM" "ks = (pid, n) # replicate k (pid, SIGKILL)"
    unfolding one_then_kills_def by blast
  then have "ks @ [(pid, SIGKILL)] = (pid, n) # replicate (Suc k) (pid, SIGKILL)"
    by (simp add: replicate_append_same)
  with n(1) show ?thesis unfolding one_then_kills_def by blast
qed

lemma one_then_kills_first: "n = SIGINT \<or> n = SIGTERM \<Longrightarrow> one_then_kills pid [(pid, n)]"
  by (auto simp: one_then_kills_def)

lemma first_run_signal:
  assumes "first_run_ok s" "n = SIGINT \<or> n = SIGTERM"
  shows "first_run_ok (s\<lparr>statics := forward_signal n (statics s), arrived := arrived s @ [n]\<rparr>)"
  using assms one_then_kills_snoc [of "app_pid s" "killed (statics s)"] one_then_kills_first [of n "app_pid s"]
  by (auto simp: first_run_ok_def forward_signal_def send_signal_def Let_def split: phase.splits)

lemma first_run_publish:
  "first_run_ok s \<Longrightarrow> phase s = Preparing \<Longrightarrow> 0 < pid \<Longrightarrow>
   first_run_ok (s\<lparr>phase := Published, app_pid := pid, statics := publish_pid pid (statics s)\<rparr>)"
  by (auto simp: first_run_ok_def publish_pid_def Let_def)

lemma first_run_pending:
  "first_run_ok s \<Longrightarrow> phase s = Published \<Longrightarrow>
   first_run_ok (s\<lparr>phase := Running, statics := take_pending (app_pid s) (statics s)\<rparr>)"
  using one_then_kills_first [of "pending_signal (statics s)" "app_pid s"]
  by (auto simp: first_run_ok_def take_pending_def send_signal_def Let_def)

lemma first_run_retire:
  "first_run_ok s \<Longrightarrow> phase s = Running \<Longrightarrow>
   first_run_ok (s\<lparr>phase := Over, statics := publish_pid 0 (statics s)\<rparr>)"
  by (auto simp: first_run_ok_def publish_pid_def Let_def)

lemma first_run_reach: "session_reach s \<Longrightarrow> runs s = 0 \<Longrightarrow> first_run_ok s"
proof (induction rule: session_reach.induct)
  case start
  then show ?case by (simp add: first_run_ok_def initial_session_def initial_statics_def)
next
  case (step s t)
  from step.hyps(2) step.prems have "runs s = 0" by (cases rule: session_step.cases) auto
  with step.IH have ok: "first_run_ok s" by blast
  from step.hyps(2) step.prems show ?case
    by (cases rule: session_step.cases)
      (use ok in \<open>auto intro: first_run_signal first_run_publish first_run_pending first_run_retire\<close>)
qed



text \<open>A run that ends undisturbed, and one in which a signal arrives at each of the given places.\<close>

definition signal_to :: "int \<Rightarrow> session \<Rightarrow> session" where
  "signal_to n s = s\<lparr>statics := forward_signal n (statics s), arrived := arrived s @ [n]\<rparr>"

definition publish_as :: "int \<Rightarrow> session \<Rightarrow> session" where
  "publish_as pid s = s\<lparr>phase := Published, app_pid := pid, statics := publish_pid pid (statics s)\<rparr>"

definition take_over :: "session \<Rightarrow> session" where
  "take_over s = s\<lparr>phase := Running, statics := take_pending (app_pid s) (statics s)\<rparr>"

definition retire_run :: "session \<Rightarrow> session" where
  "retire_run s = s\<lparr>phase := Over, statics := publish_pid 0 (statics s)\<rparr>"

definition run_again :: "session \<Rightarrow> session" where
  "run_again s = s\<lparr>phase := Preparing, arrived := [], earlier := length (killed (statics s)), runs := Suc (runs s)\<rparr>"

lemma reach_rules:
  "session_reach s \<Longrightarrow> n = SIGINT \<or> n = SIGTERM \<Longrightarrow> session_reach (signal_to n s)"
  "session_reach s \<Longrightarrow> phase s = Preparing \<Longrightarrow> 0 < pid \<Longrightarrow> session_reach (publish_as pid s)"
  "session_reach s \<Longrightarrow> phase s = Published \<Longrightarrow> session_reach (take_over s)"
  "session_reach s \<Longrightarrow> phase s = Running \<Longrightarrow> session_reach (retire_run s)"
  "session_reach s \<Longrightarrow> phase s = Over \<Longrightarrow> session_reach (run_again s)"
  unfolding signal_to_def publish_as_def take_over_def retire_run_def run_again_def
  by (erule session_reach.step, rule session_step.intros, assumption+)+

lemmas session_defs = signal_to_def publish_as_def take_over_def retire_run_def run_again_def
  initial_session_def initial_statics_def forward_signal_def send_signal_def publish_pid_def take_pending_def


text \<open>
  The statics are not reset between two runs of one process. After an image was built while one
  signal was forwarded, the first signal for the app that runs next is sent as \<open>SIGKILL\<close>.
\<close>

theorem second_run_killed:
  "\<exists>s. session_reach s \<and> runs s = 1 \<and> phase s = Running \<and> arrived s = [] \<and>
     killed (statics (signal_to SIGINT s)) = killed (statics s) @ [(app_pid s, SIGKILL)]"
proof -
  let ?s = "take_over (publish_as 42 (run_again (retire_run (signal_to 2 (take_over (publish_as 41 initial_session))))))"
  have "session_reach ?s"
    by (intro reach_rules start) (simp_all add: session_defs)
  then show ?thesis by (intro exI [of _ ?s]) (simp add: session_defs)
qed

text \<open>
  A signal that arrives while a run cleans up is not swallowed: it stays pending, and the next
  run of the process sends it to its own container, which no signal was meant for.
\<close>

theorem late_signal_reaches_next_run:
  "\<exists>s. session_reach s \<and> runs s = 0 \<and> phase s = Over \<and> killed (statics s) = [] \<and>
     (let t = take_over (publish_as 42 (run_again (signal_to SIGINT s)))
      in session_reach t \<and> arrived t = [] \<and> killed (statics t) = [(42, SIGINT)])"
proof -
  let ?s = "retire_run (take_over (publish_as 41 initial_session))"
  have "session_reach ?s" "session_reach (take_over (publish_as 42 (run_again (signal_to SIGINT ?s))))"
    by (intro reach_rules start; simp add: session_defs)+
  then show ?thesis by (intro exI [of _ ?s]) (simp add: session_defs Let_def)
qed

section \<open>Following the terminal's size\<close>

text \<open>
  \<open>RESIZE_PIPE\<close> and the pipe behind it. The main thread's steps are those of \<open>install\<close> and then \<open>drop\<close>,
  in their order; the handler runs between any two of them. Writing to a closed descriptor is
  what must never happen: its number may belong to something else by then.
\<close>

datatype resize_op = Open_Pipe | Handler_On | Store_Fd | Handler_Off | Store_None | Close_Pipe

definition resize_ops :: "resize_op list" where
  "resize_ops = [Open_Pipe, Handler_On, Store_Fd, Handler_Off, Store_None, Close_Pipe]"

record resize =
  handler :: bool
  target_fd :: bool
  pipe_open :: bool
  stray :: bool
  pending_ops :: "resize_op list"

definition notify_resize :: "resize \<Rightarrow> resize" where
  "notify_resize s = (if target_fd s then s\<lparr>stray := stray s \<or> \<not> pipe_open s\<rparr> else s)"

fun do_resize :: "resize_op \<Rightarrow> resize \<Rightarrow> resize" where
  "do_resize Open_Pipe s = s\<lparr>pipe_open := True\<rparr>"
| "do_resize Handler_On s = s\<lparr>handler := True\<rparr>"
| "do_resize Store_Fd s = s\<lparr>target_fd := True\<rparr>"
| "do_resize Handler_Off s = s\<lparr>handler := False\<rparr>"
| "do_resize Store_None s = s\<lparr>target_fd := False\<rparr>"
| "do_resize Close_Pipe s = s\<lparr>pipe_open := False\<rparr>"

datatype resize_event = Winch_Arrives | Main_Steps

fun resize_step :: "resize_event \<Rightarrow> resize \<Rightarrow> resize" where
  "resize_step Winch_Arrives s = (if handler s then notify_resize s else s)"
| "resize_step Main_Steps s =
     (case pending_ops s of [] \<Rightarrow> s | op # ops \<Rightarrow> do_resize op (s\<lparr>pending_ops := ops\<rparr>))"

definition initial_resize :: resize where
  "initial_resize = \<lparr>handler = False, target_fd = False, pipe_open = False, stray = False, pending_ops = resize_ops\<rparr>"

definition resize_ok :: "resize \<Rightarrow> bool" where
  "resize_ok s \<longleftrightarrow> \<not> stray s \<and>
     (\<exists>n \<le> 6. pending_ops s = drop n resize_ops \<and> (target_fd s \<longleftrightarrow> n \<in> {3, 4}) \<and>
        (pipe_open s \<longleftrightarrow> 0 < n \<and> n < 6) \<and> (handler s \<longleftrightarrow> n \<in> {2, 3}))"

lemma resize_ok_step: "resize_ok s \<Longrightarrow> resize_ok (resize_step e s)"
proof (cases e)
  case Winch_Arrives
  assume ok: "resize_ok s"
  then obtain n where n: "n \<le> 6" "pending_ops s = drop n resize_ops" "target_fd s \<longleftrightarrow> n \<in> {3, 4}"
    "pipe_open s \<longleftrightarrow> 0 < n \<and> n < 6" "handler s \<longleftrightarrow> n \<in> {2, 3}" "\<not> stray s" by (auto simp: resize_ok_def)
  then have "resize_step e s = s" by (auto simp: Winch_Arrives notify_resize_def)
  with ok show ?thesis by simp
next
  case Main_Steps
  assume "resize_ok s"
  then obtain n where n: "n \<le> 6" "pending_ops s = drop n resize_ops" "target_fd s \<longleftrightarrow> n \<in> {3, 4}"
    "pipe_open s \<longleftrightarrow> 0 < n \<and> n < 6" "handler s \<longleftrightarrow> n \<in> {2, 3}" "\<not> stray s" by (auto simp: resize_ok_def)
  from n(1) consider "n = 6" | "n = 0" | "n = 1" | "n = 2" | "n = 3" | "n = 4" | "n = 5" by linarith
  then show ?thesis
  proof cases
    case 1
    with n have "resize_step e s = s" by (simp add: Main_Steps resize_ops_def)
    with \<open>resize_ok s\<close> show ?thesis by simp
  qed (use n in \<open>auto simp: Main_Steps resize_ok_def resize_ops_def intro!: exI [of _ "Suc n"]\<close>)
qed

text \<open>
  However often the terminal is resized while the forwarding is set up, used and taken down,
  the handler never writes to the pipe before it is open or after it was closed.
\<close>

theorem resize_never_stray: "\<not> stray (fold resize_step evs initial_resize)"
proof -
  have "resize_ok initial_resize"
    by (auto simp: resize_ok_def initial_resize_def intro: exI [of _ 0])
  then have "resize_ok (fold resize_step evs initial_resize)"
    by (induction evs rule: rev_induct) (auto intro: resize_ok_step)
  then show ?thesis by (simp add: resize_ok_def)
qed

end
