(* ===== verification/Seccomp.thy ===== *)
theory Seccomp
  imports Launch_Spec "HOL-Library.List_Lexorder" "HOL-Library.Char_ord"
begin

text \<open>
  \<open>src/seccomp.rs\<close>: the filter an app runs under. The library that holds a policy and turns it
  into a kernel filter is the record \<open>seacomb\<close>: which names it knows, and which steps of building a
  policy it accepts. A policy is the record of the steps taken.
\<close>

section \<open>Policies\<close>

datatype arch = Arch_X86_64 | Arch_X86 | Arch_Aarch64 | Arch_Arm

datatype action = Allow | Errno nat

text \<open>A test on the first argument of a call.\<close>

datatype arg_test = Flags_Clear "64 word" | Arg_Not "32 word" | Arg_Is "32 word"

record rule =
  rule_arch :: "arch option"
  rule_action :: action
  rule_exact :: bool
  rule_syscall :: string
  rule_test :: "arg_test option"

record policy =
  default_action :: action
  archs :: "arch list"
  bad_arch :: "action option"
  rules :: "rule list"

datatype policy_step = New_Policy action | Add_Arch arch | On_Bad_Arch action | Add_Rule rule

record seacomb =
  lookup :: "string \<Rightarrow> string option"
  accepts :: "policy_step \<Rightarrow> unit res"

section \<open>Constants\<close>

definition ALLOWED :: "string list" where
  "ALLOWED =
    [''_llseek'', ''_newselect'', ''accept'', ''accept4'', ''access'', ''adjtimex'', ''alarm'',
    ''bind'', ''brk'', ''capget'', ''capset'', ''chdir'', ''chmod'', ''chown'', ''chown32'',
    ''clock_adjtime'', ''clock_adjtime64'', ''clock_getres'', ''clock_getres_time64'',
    ''clock_gettime'', ''clock_gettime64'', ''clock_nanosleep'', ''clock_nanosleep_time64'',
    ''close'', ''close_range'', ''connect'', ''copy_file_range'', ''creat'', ''dup'', ''dup2'',
    ''dup3'', ''epoll_create'', ''epoll_create1'', ''epoll_ctl'', ''epoll_ctl_old'',
    ''epoll_pwait'', ''epoll_pwait2'', ''epoll_wait'', ''epoll_wait_old'', ''eventfd'',
    ''eventfd2'', ''execve'', ''execveat'', ''exit'', ''exit_group'', ''faccessat'',
    ''faccessat2'', ''fadvise64'', ''fadvise64_64'', ''fallocate'', ''fanotify_init'',
    ''fanotify_mark'', ''fchdir'', ''fchmod'', ''fchmodat'', ''fchmodat2'', ''fchown'',
    ''fchown32'', ''fchownat'', ''fcntl'', ''fcntl64'', ''fdatasync'', ''fgetxattr'',
    ''flistxattr'', ''flock'', ''fork'', ''fremovexattr'', ''fsconfig'', ''fsetxattr'',
    ''fsmount'', ''fsopen'', ''fspick'', ''fstat'', ''fstat64'', ''fstatat64'', ''fstatfs'',
    ''fstatfs64'', ''fsync'', ''ftruncate'', ''ftruncate64'', ''futex'', ''futex_time64'',
    ''futimesat'', ''get_mempolicy'', ''get_robust_list'', ''get_thread_area'', ''getcpu'',
    ''getcwd'', ''getdents'', ''getdents64'', ''getegid'', ''getegid32'', ''geteuid'',
    ''geteuid32'', ''getgid'', ''getgid32'', ''getgroups'', ''getgroups32'', ''getitimer'',
    ''getpeername'', ''getpgid'', ''getpgrp'', ''getpid'', ''getppid'', ''getpriority'',
    ''getrandom'', ''getresgid'', ''getresgid32'', ''getresuid'', ''getresuid32'', ''getrlimit'',
    ''getrusage'', ''getsid'', ''getsockname'', ''getsockopt'', ''gettid'', ''gettimeofday'',
    ''getuid'', ''getuid32'', ''getxattr'', ''inotify_add_watch'', ''inotify_init'',
    ''inotify_init1'', ''inotify_rm_watch'', ''io_cancel'', ''io_destroy'', ''io_getevents'',
    ''io_setup'', ''io_submit'', ''ioctl'', ''ioprio_get'', ''ioprio_set'', ''ipc'', ''keyctl'',
    ''kill'', ''landlock_add_rule'', ''landlock_create_ruleset'', ''landlock_restrict_self'',
    ''lchown'', ''lchown32'', ''lgetxattr'', ''link'', ''linkat'', ''listen'', ''listxattr'',
    ''llistxattr'', ''lremovexattr'', ''lseek'', ''lsetxattr'', ''lstat'', ''lstat64'',
    ''madvise'', ''mbind'', ''membarrier'', ''memfd_create'', ''memfd_secret'', ''mincore'',
    ''mkdir'', ''mkdirat'', ''mknod'', ''mknodat'', ''mlock'', ''mlock2'', ''mlockall'', ''mmap'',
    ''mmap2'', ''mount'', ''mount_setattr'', ''move_mount'', ''mprotect'', ''mq_getsetattr'',
    ''mq_notify'', ''mq_open'', ''mq_timedreceive'', ''mq_timedreceive_time64'', ''mq_timedsend'',
    ''mq_timedsend_time64'', ''mq_unlink'', ''mremap'', ''msgctl'', ''msgget'', ''msgrcv'',
    ''msgsnd'', ''msync'', ''munlock'', ''munlockall'', ''munmap'', ''name_to_handle_at'',
    ''nanosleep'', ''newfstatat'', ''open'', ''open_tree'', ''openat'', ''openat2'', ''pause'',
    ''pidfd_getfd'', ''pidfd_open'', ''pidfd_send_signal'', ''pipe'', ''pipe2'', ''pivot_root'',
    ''pkey_alloc'', ''pkey_free'', ''pkey_mprotect'', ''poll'', ''ppoll'', ''ppoll_time64'',
    ''prctl'', ''pread64'', ''preadv'', ''preadv2'', ''prlimit64'', ''process_mrelease'',
    ''process_vm_readv'', ''process_vm_writev'', ''pselect6'', ''pselect6_time64'', ''ptrace'',
    ''pwrite64'', ''pwritev'', ''pwritev2'', ''read'', ''readahead'', ''readlink'', ''readlinkat'',
    ''readv'', ''reboot'', ''recv'', ''recvfrom'', ''recvmmsg'', ''recvmmsg_time64'', ''recvmsg'',
    ''remap_file_pages'', ''removexattr'', ''rename'', ''renameat'', ''renameat2'',
    ''restart_syscall'', ''rmdir'', ''rseq'', ''rt_sigaction'', ''rt_sigpending'',
    ''rt_sigprocmask'', ''rt_sigqueueinfo'', ''rt_sigreturn'', ''rt_sigsuspend'',
    ''rt_sigtimedwait'', ''rt_sigtimedwait_time64'', ''rt_tgsigqueueinfo'',
    ''sched_get_priority_max'', ''sched_get_priority_min'', ''sched_getaffinity'',
    ''sched_getattr'', ''sched_getparam'', ''sched_getscheduler'', ''sched_rr_get_interval'',
    ''sched_rr_get_interval_time64'', ''sched_setaffinity'', ''sched_setattr'', ''sched_setparam'',
    ''sched_setscheduler'', ''sched_yield'', ''seccomp'', ''select'', ''semctl'', ''semget'',
    ''semop'', ''semtimedop'', ''semtimedop_time64'', ''send'', ''sendfile'', ''sendfile64'',
    ''sendmmsg'', ''sendmsg'', ''sendto'', ''set_mempolicy'', ''set_robust_list'',
    ''set_thread_area'', ''set_tid_address'', ''setfsgid'', ''setfsgid32'', ''setfsuid'',
    ''setfsuid32'', ''setgid'', ''setgid32'', ''setgroups'', ''setgroups32'', ''setitimer'',
    ''setpgid'', ''setpriority'', ''setregid'', ''setregid32'', ''setresgid'', ''setresgid32'',
    ''setresuid'', ''setresuid32'', ''setreuid'', ''setreuid32'', ''setrlimit'', ''setsid'',
    ''setsockopt'', ''setuid'', ''setuid32'', ''setxattr'', ''shmat'', ''shmctl'', ''shmdt'',
    ''shmget'', ''shutdown'', ''sigaltstack'', ''signal'', ''signalfd'', ''signalfd4'',
    ''sigprocmask'', ''sigreturn'', ''socketcall'', ''socketpair'', ''splice'', ''stat'',
    ''stat64'', ''statfs'', ''statfs64'', ''statx'', ''symlink'', ''symlinkat'', ''sync'',
    ''sync_file_range'', ''syncfs'', ''sysinfo'', ''syslog'', ''tee'', ''tgkill'', ''time'',
    ''timer_create'', ''timer_delete'', ''timer_getoverrun'', ''timer_gettime'',
    ''timer_gettime64'', ''timer_settime'', ''timer_settime64'', ''timerfd_create'',
    ''timerfd_gettime'', ''timerfd_gettime64'', ''timerfd_settime'', ''timerfd_settime64'',
    ''times'', ''tkill'', ''truncate'', ''truncate64'', ''ugetrlimit'', ''umask'', ''umount'',
    ''umount2'', ''uname'', ''unlink'', ''unlinkat'', ''utime'', ''utimensat'',
    ''utimensat_time64'', ''utimes'', ''vfork'', ''wait4'', ''waitid'', ''waitpid'', ''write'',
    ''writev'']"

definition ARCH_ALLOWED :: "target_arch \<Rightarrow> string list" where
  "ARCH_ALLOWED a =
     (case a of
        Target_X86_64 \<Rightarrow> [''arch_prctl'', ''modify_ldt'']
      | Target_Aarch64 \<Rightarrow> [''arm_fadvise64_64'', ''arm_sync_file_range'', ''breakpoint'', ''cacheflush'',
                          ''set_tls'', ''sync_file_range2'']
      | Target_Other \<Rightarrow> [])"

definition ARCHITECTURES :: "target_arch \<Rightarrow> arch list" where
  "ARCHITECTURES a =
     (case a of
        Target_X86_64 \<Rightarrow> [Arch_X86_64, Arch_X86]
      | Target_Aarch64 \<Rightarrow> [Arch_Aarch64, Arch_Arm]
      | Target_Other \<Rightarrow> [])"

definition CAPABILITY_SYSCALLS :: "(capability \<times> string list) list" where
  "CAPABILITY_SYSCALLS =
    [(Bpf, [''bpf'']),
     (DacReadSearch, [''open_by_handle_at'']),
     (Perfmon, [''perf_event_open'']),
     (SysAdmin, [''bpf'', ''lookup_dcookie'', ''quotactl'', ''quotactl_fd'', ''setdomainname'',
        ''sethostname'', ''setns'']),
     (SysChroot, [''chroot'']),
     (SysModule, [''delete_module'', ''finit_module'', ''init_module'', ''query_module'']),
     (SysPacct, [''acct'']),
     (SysPtrace, [''kcmp'', ''process_madvise'']),
     (SysRawio, [''ioperm'', ''iopl'']),
     (SysTime, [''clock_settime'', ''clock_settime64'', ''settimeofday'', ''stime'']),
     (SysTtyConfig, [''vhangup''])]"

definition CLONE_NEWUSER :: "64 word" where "CLONE_NEWUSER = 0x10000000"
definition AF_VSOCK :: "32 word" where "AF_VSOCK = 40"
definition ENOSYS :: nat where "ENOSYS = 38"
definition EPERM :: nat where "EPERM = 1"

definition PERSONALITIES :: "32 word list" where
  "PERSONALITIES = [0x0, 0x8, 0x20000, 0x20008, 0xffffffff]"

section \<open>The filter of one app\<close>

definition plain_rule :: "string \<Rightarrow> rule" where
  "plain_rule n = \<lparr>rule_arch = None, rule_action = Allow, rule_exact = False, rule_syscall = n, rule_test = None\<rparr>"

definition partial_rules :: "target_arch \<Rightarrow> (string \<times> rule) list" where
  "partial_rules a =
     map (\<lambda>c. (''clone'', (plain_rule ''clone'')\<lparr>rule_arch := Some c, rule_test := Some (Flags_Clear CLONE_NEWUSER)\<rparr>))
       (ARCHITECTURES a)
     @ [(''unshare'', (plain_rule ''unshare'')\<lparr>rule_test := Some (Flags_Clear CLONE_NEWUSER)\<rparr>),
        (''clone3'', (plain_rule ''clone3'')\<lparr>rule_action := Errno ENOSYS\<rparr>),
        (''socket'', (plain_rule ''socket'')\<lparr>rule_exact := True, rule_test := Some (Arg_Not AF_VSOCK)\<rparr>)]
     @ map (\<lambda>d. (''personality'', (plain_rule ''personality'')\<lparr>rule_test := Some (Arg_Is d)\<rparr>)) PERSONALITIES"

text \<open>A \<open>BTreeSet\<close> is its elements in order, each once.\<close>

definition capability_step :: "run_config \<Rightarrow> capability \<times> string list \<Rightarrow> string list \<Rightarrow> string list" where
  "capability_step r cs allowed =
     (if List.member (capabilities r) (fst cs) then fold insort_insert (snd cs) allowed else allowed)"

definition base_allowed :: "target_arch \<Rightarrow> run_config \<Rightarrow> string list" where
  "base_allowed a r =
     fold (capability_step r) CAPABILITY_SYSCALLS (fold insort_insert (ALLOWED @ ARCH_ALLOWED a) [])"

type_synonym lists = "string list \<times> (string \<times> rule) list"

definition allow_step :: "string \<Rightarrow> lists \<Rightarrow> lists" where
  "allow_step n s = (insort_insert n (fst s), filter (\<lambda>(covered, _). covered \<noteq> n) (snd s))"

definition deny_step :: "string \<Rightarrow> lists \<Rightarrow> lists" where
  "deny_step n s = (removeAll n (fst s), filter (\<lambda>(covered, _). covered \<noteq> n) (snd s))"

definition app_lists :: "target_arch \<Rightarrow> run_config \<Rightarrow> lists" where
  "app_lists a r =
     fold deny_step (seccomp_deny r)
       (fold allow_step (seccomp_allow r) (base_allowed a r, partial_rules a))"

fun add_archs :: "seacomb \<Rightarrow> arch list \<Rightarrow> policy \<Rightarrow> policy res" where
  "add_archs S [] p = Inr p"
| "add_archs S (c # cs) p =
     and_then (accepts S (Add_Arch c)) (\<lambda>_. add_archs S cs (p\<lparr>archs := archs p @ [c]\<rparr>))"

definition add_rule :: "seacomb \<Rightarrow> rule \<Rightarrow> policy \<Rightarrow> policy res" where
  "add_rule S u p = and_then (accepts S (Add_Rule u)) (\<lambda>_. Inr (p\<lparr>rules := rules p @ [u]\<rparr>))"

fun add_allowed :: "seacomb \<Rightarrow> string list \<Rightarrow> policy \<Rightarrow> policy res" where
  "add_allowed S [] p = Inr p"
| "add_allowed S (n # ns) p =
     and_then (option_context (quoted n @ '' is not the name of a syscall'') (lookup S n)) (\<lambda>syscall.
     and_then (add_rule S (plain_rule syscall) p) (add_allowed S ns))"

fun add_partial :: "seacomb \<Rightarrow> (string \<times> rule) list \<Rightarrow> policy \<Rightarrow> policy res" where
  "add_partial S [] p = Inr p"
| "add_partial S ((n, u) # us) p =
     and_then (with_context (''adding the seccomp rule for '' @ n) (add_rule S u p)) (add_partial S us)"

definition profile :: "seacomb \<Rightarrow> target_arch \<Rightarrow> run_config \<Rightarrow> policy res" where
  "profile S a r =
     (let (allowed, partial) = app_lists a r; refuse = Errno EPERM in
      and_then (accepts S (New_Policy refuse)) (\<lambda>_.
      and_then (add_archs S (ARCHITECTURES a)
                  \<lparr>default_action = refuse, archs = [], bad_arch = None, rules = []\<rparr>) (\<lambda>p.
      and_then (accepts S (On_Bad_Arch refuse)) (\<lambda>_.
      and_then (add_allowed S allowed (p\<lparr>bad_arch := Some refuse\<rparr>))
        (add_partial S partial)))))"

fun check_names :: "seacomb \<Rightarrow> string list \<Rightarrow> unit res" where
  "check_names S [] = Inr ()"
| "check_names S (n # ns) =
     (if lookup S n = None then Inl (Bail (quoted n @ '' is not the name of a syscall''))
      else check_names S ns)"

definition check_syscall_names :: "seacomb \<Rightarrow> run_config \<Rightarrow> unit res" where
  "check_syscall_names S r = check_names S (seccomp_allow r @ seccomp_deny r)"

section \<open>What a policy answers\<close>

text \<open>
  The rules of a policy are tried in turn and the first that matches a call decides; a call from an
  architecture the policy does not name gets its own answer. How a test reads an argument is
  \<open>sem\<close>; the rest of the library's behaviour is \<open>names_own\<close>: a syscall is known by its own name.
\<close>

type_synonym test_reading = "arg_test \<Rightarrow> 64 word \<Rightarrow> bool"

definition rule_matches :: "test_reading \<Rightarrow> arch \<Rightarrow> string \<Rightarrow> 64 word \<Rightarrow> rule \<Rightarrow> bool" where
  "rule_matches sem c n x u \<longleftrightarrow>
     rule_syscall u = n \<and> (rule_arch u = None \<or> rule_arch u = Some c) \<and>
     (case rule_test u of None \<Rightarrow> True | Some t \<Rightarrow> sem t x)"

definition first_action :: "test_reading \<Rightarrow> arch \<Rightarrow> string \<Rightarrow> 64 word \<Rightarrow> rule list \<Rightarrow> action option" where
  "first_action sem c n x us = map_option rule_action (find (rule_matches sem c n x) us)"

definition verdict :: "test_reading \<Rightarrow> policy \<Rightarrow> arch \<Rightarrow> string \<Rightarrow> 64 word \<Rightarrow> action" where
  "verdict sem p c n x =
     (if c \<notin> set (archs p) then (case bad_arch p of None \<Rightarrow> default_action p | Some a \<Rightarrow> a)
      else case first_action sem c n x (rules p) of None \<Rightarrow> default_action p | Some a \<Rightarrow> a)"

definition names_own :: "seacomb \<Rightarrow> bool" where
  "names_own S \<longleftrightarrow> (\<forall>n m. lookup S n = Some m \<longrightarrow> m = n)"

lemma find_append: "find P (xs @ ys) = (case find P xs of None \<Rightarrow> find P ys | Some x \<Rightarrow> Some x)"
  by (induction xs) auto

lemma first_action_append:
  "first_action sem c n x (us @ vs) =
     (case first_action sem c n x us of None \<Rightarrow> first_action sem c n x vs | Some a \<Rightarrow> Some a)"
  by (simp add: first_action_def find_append split: option.splits)

lemma first_action_Cons:
  "first_action sem c n x (u # us) =
     (if rule_matches sem c n x u then Some (rule_action u) else first_action sem c n x us)"
  by (simp add: first_action_def)

lemma first_action_Nil [simp]: "first_action sem c n x [] = None"
  by (simp add: first_action_def)

lemma plain_rule_simps [simp]:
  "rule_syscall (plain_rule n) = n" "rule_arch (plain_rule n) = None"
  "rule_action (plain_rule n) = Allow" "rule_test (plain_rule n) = None"
  by (simp_all add: plain_rule_def)

lemma first_action_plain:
  "first_action sem c n x (map plain_rule ns) = (if n \<in> set ns then Some Allow else None)"
  by (induction ns) (auto simp: first_action_Cons rule_matches_def)

lemma first_action_covered:
  "\<forall>u \<in> set us. rule_syscall u \<noteq> n \<Longrightarrow> first_action sem c n x us = None"
  by (induction us) (auto simp: first_action_Cons rule_matches_def)

section \<open>The lists\<close>

lemma set_fold_insort: "set (fold insort_insert ns xs) = set ns \<union> set xs"
  by (induction ns arbitrary: xs) (auto simp: set_insort_insert)

definition capability_gated :: "run_config \<Rightarrow> string set" where
  "capability_gated r = \<Union> {set ns | cap ns. (cap, ns) \<in> set CAPABILITY_SYSCALLS \<and> cap \<in> set (capabilities r)}"

lemma set_capability_fold:
  "set (fold (capability_step r) cs xs) =
     \<Union> {set ns | cap ns. (cap, ns) \<in> set cs \<and> cap \<in> set (capabilities r)} \<union> set xs"
proof (induction cs arbitrary: xs)
  case (Cons c cs)
  obtain cap ns where c: "c = (cap, ns)" by (cases c)
  have "set (capability_step r c xs) = (if cap \<in> set (capabilities r) then set ns else {}) \<union> set xs"
    by (simp add: c capability_step_def set_fold_insort)
  then have "set (fold (capability_step r) (c # cs) xs) =
      \<Union> {set ns | cap ns. (cap, ns) \<in> set cs \<and> cap \<in> set (capabilities r)} \<union>
      ((if cap \<in> set (capabilities r) then set ns else {}) \<union> set xs)"
    by (simp add: Cons.IH)
  also have "\<dots> = \<Union> {set ns | cap ns. (cap, ns) \<in> set (c # cs) \<and> cap \<in> set (capabilities r)} \<union> set xs"
    unfolding c by (cases "cap \<in> set (capabilities r)"; simp; blast)
  finally show ?case .
qed simp

lemma set_base_allowed:
  "set (base_allowed a r) = set ALLOWED \<union> set (ARCH_ALLOWED a) \<union> capability_gated r"
  unfolding base_allowed_def set_capability_fold capability_gated_def set_fold_insort by auto

lemma fold_allow:
  "set (fst (fold allow_step ns s)) = set ns \<union> set (fst s)"
  "snd (fold allow_step ns s) = filter (\<lambda>(covered, _). covered \<notin> set ns) (snd s)"
  by (induction ns arbitrary: s) (auto simp: allow_step_def set_insort_insert intro!: filter_cong)

lemma fold_deny:
  "set (fst (fold deny_step ns s)) = set (fst s) - set ns"
  "snd (fold deny_step ns s) = filter (\<lambda>(covered, _). covered \<notin> set ns) (snd s)"
  by (induction ns arbitrary: s) (auto simp: deny_step_def intro!: filter_cong)

definition permitted_calls :: "target_arch \<Rightarrow> run_config \<Rightarrow> string set" where
  "permitted_calls a r =
     (set ALLOWED \<union> set (ARCH_ALLOWED a) \<union> capability_gated r \<union> set (seccomp_allow r))
     - set (seccomp_deny r)"

lemma app_lists_allowed: "set (fst (app_lists a r)) = permitted_calls a r"
  unfolding app_lists_def fold_deny fold_allow by (auto simp: set_base_allowed permitted_calls_def)

lemma app_lists_partial:
  "snd (app_lists a r) =
     filter (\<lambda>(covered, _). covered \<notin> set (seccomp_allow r) \<union> set (seccomp_deny r)) (partial_rules a)"
  unfolding app_lists_def fold_deny fold_allow by (auto intro!: filter_cong)

section \<open>The policy\<close>

lemma add_archs_Inr: "add_archs S cs p = Inr q \<Longrightarrow> q = p\<lparr>archs := archs p @ cs\<rparr>"
proof (induction cs arbitrary: p)
  case (Cons c cs)
  from Cons.prems have "add_archs S cs (p\<lparr>archs := archs p @ [c]\<rparr>) = Inr q"
    by (auto simp: and_then_Inr_iff)
  from Cons.IH [OF this] show ?case by simp
qed simp

lemma add_rule_Inr: "add_rule S u p = Inr q \<Longrightarrow> q = p\<lparr>rules := rules p @ [u]\<rparr>"
  by (auto simp: add_rule_def and_then_Inr_iff)

lemma add_allowed_Inr:
  "names_own S \<Longrightarrow> add_allowed S ns p = Inr q \<Longrightarrow> q = p\<lparr>rules := rules p @ map plain_rule ns\<rparr>"
proof (induction ns arbitrary: p)
  case (Cons n ns)
  from Cons.prems have "add_allowed S ns (p\<lparr>rules := rules p @ [plain_rule n]\<rparr>) = Inr q"
    by (auto simp: and_then_Inr_iff names_own_def dest!: add_rule_Inr)
  from Cons.IH [OF Cons.prems(1) this] show ?case by simp
qed simp

lemma add_partial_Inr:
  "add_partial S us p = Inr q \<Longrightarrow> q = p\<lparr>rules := rules p @ map snd us\<rparr>"
proof (induction us arbitrary: p)
  case (Cons u us)
  obtain n v where u: "u = (n, v)" by (cases u)
  from Cons.prems have "add_partial S us (p\<lparr>rules := rules p @ [v]\<rparr>) = Inr q"
    by (auto simp: u and_then_Inr_iff dest!: add_rule_Inr)
  from Cons.IH [OF this] show ?case by (simp add: u)
qed simp

lemma profile_Inr:
  assumes "names_own S" "profile S a r = Inr p"
  shows "p = \<lparr>default_action = Errno EPERM, archs = ARCHITECTURES a, bad_arch = Some (Errno EPERM),
     rules = map plain_rule (fst (app_lists a r)) @ map snd (snd (app_lists a r))\<rparr>"
proof -
  obtain al pt where l: "app_lists a r = (al, pt)" by (cases "app_lists a r")
  let ?p = "\<lparr>default_action = Errno EPERM, archs = [], bad_arch = None, rules = []\<rparr>"
  from assms(2) l obtain p1 p2 where
    1: "add_archs S (ARCHITECTURES a) ?p = Inr p1"
    and 2: "add_allowed S al (p1\<lparr>bad_arch := Some (Errno EPERM)\<rparr>) = Inr p2"
    and 3: "add_partial S pt p2 = Inr p"
    by (auto simp: profile_def Let_def and_then_Inr_iff)
  from add_partial_Inr [OF 3] add_allowed_Inr [OF assms(1) 2] add_archs_Inr [OF 1] l show ?thesis
    by simp
qed

lemma verdict_profile:
  assumes "names_own S" "profile S a r = Inr p"
  shows "verdict sem p c n x =
    (if c \<notin> set (ARCHITECTURES a) then Errno EPERM
     else if n \<in> permitted_calls a r then Allow
     else case first_action sem c n x (map snd (snd (app_lists a r))) of None \<Rightarrow> Errno EPERM | Some b \<Rightarrow> b)"
  unfolding profile_Inr [OF assms] verdict_def
  by (simp add: first_action_append first_action_plain app_lists_allowed split: option.splits)

lemma partial_names: "(n, u) \<in> set (partial_rules a) \<Longrightarrow> rule_syscall u = n"
  by (auto simp: partial_rules_def)

lemma first_action_partial:
  "first_action sem c n x (map snd (snd (app_lists a r))) =
     (if n \<in> set (seccomp_allow r) \<union> set (seccomp_deny r) then None
      else first_action sem c n x (map snd (partial_rules a)))"
proof -
  let ?D = "set (seccomp_allow r) \<union> set (seccomp_deny r)"
  have *: "first_action sem c n x (map snd (filter (\<lambda>(d, _). d \<notin> ?D) us)) =
      (if n \<in> ?D then None else first_action sem c n x (map snd us))"
    if "\<forall>(m, u) \<in> set us. rule_syscall u = m" for us
    using that by (induction us) (auto simp: first_action_Cons rule_matches_def)
  show ?thesis unfolding app_lists_partial using partial_names by (intro *) auto
qed


section \<open>The answer, call by call\<close>

definition partial_answer :: "test_reading \<Rightarrow> string \<Rightarrow> 64 word \<Rightarrow> action" where
  "partial_answer sem n x =
     (if n = ''clone'' \<or> n = ''unshare''
        then (if sem (Flags_Clear CLONE_NEWUSER) x then Allow else Errno EPERM)
      else if n = ''clone3'' then Errno ENOSYS
      else if n = ''socket'' then (if sem (Arg_Not AF_VSOCK) x then Allow else Errno EPERM)
      else if n = ''personality''
        then (if \<exists>d \<in> set PERSONALITIES. sem (Arg_Is d) x then Allow else Errno EPERM)
      else Errno EPERM)"

lemma first_action_clones:
  "first_action sem c n x (map snd (map (\<lambda>c. (''clone'', (plain_rule ''clone'')\<lparr>rule_arch := Some c,
      rule_test := Some t\<rparr>)) cs)) = (if n = ''clone'' \<and> c \<in> set cs \<and> sem t x then Some Allow else None)"
  by (induction cs) (auto simp: first_action_Cons rule_matches_def)

lemma first_action_personalities:
  "first_action sem c n x (map snd (map (\<lambda>d. (''personality'', (plain_rule ''personality'')\<lparr>
      rule_test := Some (Arg_Is d)\<rparr>)) ds)) =
     (if n = ''personality'' \<and> (\<exists>d \<in> set ds. sem (Arg_Is d) x) then Some Allow else None)"
  by (induction ds) (auto simp: first_action_Cons rule_matches_def)

lemma first_action_all_partial:
  assumes "c \<in> set (ARCHITECTURES a)"
  shows "(case first_action sem c n x (map snd (partial_rules a)) of None \<Rightarrow> Errno EPERM | Some b \<Rightarrow> b)
    = partial_answer sem n x"
  unfolding partial_rules_def map_append first_action_append first_action_clones first_action_personalities
  using assms by (auto simp: first_action_Cons rule_matches_def partial_answer_def)

lemma verdict_decision:
  assumes "names_own S" "profile S a r = Inr p"
  shows "verdict sem p c n x =
    (if c \<notin> set (ARCHITECTURES a) then Errno EPERM
     else if n \<in> permitted_calls a r then Allow
     else if n \<in> set (seccomp_allow r) \<union> set (seccomp_deny r) then Errno EPERM
     else partial_answer sem n x)"
  unfolding verdict_profile [OF assms] first_action_partial by (simp add: first_action_all_partial)

text \<open>
  C16: the filter answers every call the way the lists read: from an unknown architecture nothing is
  allowed; \<open>seccomp-deny\<close> wins over everything, then \<open>seccomp-allow\<close>, the built-in lists and the
  calls of a held capability allow a call whatever its arguments; only what none of them
  names is left to the partial rules, and everything else is refused.
\<close>

theorem seccomp_decides:
  assumes "names_own S" "profile S a r = Inr p"
  shows "verdict sem p c n x =
    (if c \<notin> set (ARCHITECTURES a) \<or> n \<in> set (seccomp_deny r) then Errno EPERM
     else if n \<in> set (seccomp_allow r) \<union> set ALLOWED \<union> set (ARCH_ALLOWED a) \<union> capability_gated r
       then Allow
     else partial_answer sem n x)"
  unfolding verdict_decision [OF assms] by (auto simp: permitted_calls_def)

text \<open>The library's documented reading of a masked test.\<close>

definition reads_flags :: "test_reading \<Rightarrow> bool" where
  "reads_flags sem \<longleftrightarrow> (\<forall>m x. sem (Flags_Clear m) x \<longleftrightarrow> x AND m = 0)"

lemma reserved_calls:
  "n \<in> {''clone'', ''unshare'', ''clone3'', ''setns''} \<Longrightarrow> n \<notin> set ALLOWED \<union> set (ARCH_ALLOWED a)"
  by (cases a) (auto simp: ALLOWED_def ARCH_ALLOWED_def)

lemma reserved_gated:
  "n \<in> {''clone'', ''unshare'', ''clone3''} \<Longrightarrow> n \<notin> capability_gated r"
  "SysAdmin \<notin> set (capabilities r) \<Longrightarrow> ''setns'' \<notin> capability_gated r"
  by (auto simp: capability_gated_def CAPABILITY_SYSCALLS_def)

text \<open>
  C6: no app gets into a new user namespace unless its own \<open>seccomp-allow\<close> names the call: \<open>clone\<close>
  and \<open>unshare\<close> are refused with the flag set, \<open>clone3\<close> always, and \<open>setns\<close> needs the
  capability \<open>SYS_ADMIN\<close>, on every architecture and whatever the other keys say.
\<close>

theorem no_user_namespace:
  assumes "names_own S" "reads_flags sem" "profile S a r = Inr p" "n \<notin> set (seccomp_allow r)"
    and "n \<in> {''clone'', ''unshare''} \<and> x AND CLONE_NEWUSER \<noteq> 0 \<or> n = ''clone3'' \<or>
         n = ''setns'' \<and> SysAdmin \<notin> set (capabilities r)"
  shows "verdict sem p c n x \<noteq> Allow"
proof -
  have "n \<notin> permitted_calls a r"
    using assms(4,5) reserved_calls [of n a] reserved_gated(1) [of n r] reserved_gated(2) [of r]
    by (auto simp: permitted_calls_def)
  moreover have "partial_answer sem n x \<noteq> Allow"
    using assms(2,5) by (auto simp: partial_answer_def reads_flags_def)
  ultimately show ?thesis by (simp add: verdict_decision [OF assms(1,3)])
qed

section \<open>Names\<close>

lemma check_names_Inr: "check_names S ns = Inr () \<longleftrightarrow> (\<forall>n \<in> set ns. lookup S n \<noteq> None)"
  by (induction ns) auto

definition built_in :: "target_arch \<Rightarrow> string set" where
  "built_in a = set ALLOWED \<union> set (ARCH_ALLOWED a) \<union> (\<Union>(cap, ns) \<in> set CAPABILITY_SYSCALLS. set ns)"

lemma gated_built_in: "capability_gated r \<subseteq> built_in a"
  by (auto simp: capability_gated_def built_in_def)

lemma add_archs_ok: "\<forall>s. accepts S s = Inr () \<Longrightarrow> \<exists>q. add_archs S cs p = Inr q"
  by (induction cs arbitrary: p) auto

lemma add_allowed_ok:
  assumes "\<forall>s. accepts S s = Inr ()"
  shows "(\<exists>q. add_allowed S ns p = Inr q) \<longleftrightarrow> (\<forall>n \<in> set ns. lookup S n \<noteq> None)"
proof (induction ns arbitrary: p)
  case (Cons n ns)
  then show ?case using assms by (cases "lookup S n") (simp_all add: add_rule_def)
qed simp

lemma add_partial_ok: "\<forall>s. accepts S s = Inr () \<Longrightarrow> \<exists>q. add_partial S us p = Inr q"
  by (induction us arbitrary: p) (auto simp: add_rule_def)

lemma profile_ok:
  assumes "\<forall>s. accepts S s = Inr ()"
  shows "(\<exists>p. profile S a r = Inr p) \<longleftrightarrow> (\<forall>n \<in> permitted_calls a r. lookup S n \<noteq> None)"
proof -
  obtain al pt where l: "app_lists a r = (al, pt)" by (cases "app_lists a r")
  let ?p = "\<lparr>default_action = Errno EPERM, archs = [], bad_arch = None, rules = []\<rparr>"
  from add_archs_ok [OF assms] obtain q where q: "add_archs S (ARCHITECTURES a) ?p = Inr q" by blast
  have "(\<exists>p. profile S a r = Inr p) \<longleftrightarrow> (\<exists>p. add_allowed S al (q\<lparr>bad_arch := Some (Errno EPERM)\<rparr>) = Inr p)"
    using add_partial_ok [OF assms, of pt] assms q
    by (auto simp: profile_def Let_def l and_then_def split: sum.splits)
  also have "\<dots> \<longleftrightarrow> (\<forall>n \<in> set al. lookup S n \<noteq> None)" by (rule add_allowed_ok [OF assms])
  also have "set al = permitted_calls a r" using app_lists_allowed [of a r] l by simp
  finally show ?thesis .
qed

text \<open>
  Where the library knows the built-in names and accepts what it is handed, the filter is
  built exactly when every name that \<open>seccomp-allow\<close> adds and \<open>seccomp-deny\<close> does not take back is
  known; a definition that passed \<open>check_syscall_names\<close> never fails at this point.
\<close>

theorem checked_names_build:
  assumes "\<forall>s. accepts S s = Inr ()" "\<forall>n \<in> built_in a. lookup S n \<noteq> None"
  shows "((\<exists>p. profile S a r = Inr p) \<longleftrightarrow>
       (\<forall>n \<in> set (seccomp_allow r) - set (seccomp_deny r). lookup S n \<noteq> None)) \<and>
    (check_syscall_names S r = Inr () \<longrightarrow> (\<exists>p. profile S a r = Inr p))"
proof -
  have "(\<forall>n \<in> permitted_calls a r. lookup S n \<noteq> None) \<longleftrightarrow>
      (\<forall>n \<in> set (seccomp_allow r) - set (seccomp_deny r). lookup S n \<noteq> None)"
  proof -
    have "permitted_calls a r \<subseteq> built_in a \<union> (set (seccomp_allow r) - set (seccomp_deny r))"
      using gated_built_in [of r a] by (auto simp: permitted_calls_def built_in_def)
    moreover have "set (seccomp_allow r) - set (seccomp_deny r) \<subseteq> permitted_calls a r"
      by (auto simp: permitted_calls_def)
    ultimately show ?thesis using assms(2) by blast
  qed
  then show ?thesis
    unfolding profile_ok [OF assms(1)] check_syscall_names_def check_names_Inr by auto
qed

section \<open>A library\<close>

definition demo_seacomb :: seacomb where
  "demo_seacomb = \<lparr>lookup = (\<lambda>n. if n = [] then None else Some n), accepts = (\<lambda>_. Inr ())\<rparr>"

fun demo_reading :: test_reading where
  "demo_reading (Flags_Clear m) x \<longleftrightarrow> x AND m = 0"
| "demo_reading (Arg_Not v) x \<longleftrightarrow> ucast x \<noteq> v"
| "demo_reading (Arg_Is v) x \<longleftrightarrow> ucast x = v"

lemma demo_seacomb_laws:
  "names_own demo_seacomb" "\<forall>s. accepts demo_seacomb s = Inr ()" "reads_flags demo_reading"
  by (auto simp: demo_seacomb_def names_own_def reads_flags_def)

lemma demo_built_in: "\<forall>n \<in> built_in a. lookup demo_seacomb n \<noteq> None"
proof -
  have "[] \<notin> built_in a"
    by (cases a) (auto simp: built_in_def ALLOWED_def ARCH_ALLOWED_def CAPABILITY_SYSCALLS_def)
  then show ?thesis by (auto simp: demo_seacomb_def)
qed

theorem checked_names_build_witness:
  "\<exists>p. profile demo_seacomb Target_X86_64 (run_default\<lparr>seccomp_allow := [''clone'']\<rparr>) = Inr p"
  using checked_names_build [OF demo_seacomb_laws(2) demo_built_in,
      of Target_X86_64 "run_default\<lparr>seccomp_allow := [''clone'']\<rparr>"]
  by (simp add: check_syscall_names_def run_default_def demo_seacomb_def)

lemma demo_profile: "\<exists>p. profile demo_seacomb Target_X86_64 run_default = Inr p"
  unfolding profile_ok [OF demo_seacomb_laws(2)]
  using demo_built_in [of Target_X86_64] gated_built_in [of run_default Target_X86_64]
  by (auto simp: permitted_calls_def built_in_def run_default_def)

theorem no_user_namespace_witness:
  "\<exists>p. profile demo_seacomb Target_X86_64 run_default = Inr p \<and>
     verdict demo_reading p Arch_X86_64 ''unshare'' 0x10000000 \<noteq> Allow"
  using demo_profile no_user_namespace [OF demo_seacomb_laws(1,3), of Target_X86_64 run_default _
      "''unshare''" "0x10000000" Arch_X86_64]
  by (auto simp: run_default_def CLONE_NEWUSER_def)

theorem seccomp_decides_witness:
  "\<exists>p. profile demo_seacomb Target_X86_64 run_default = Inr p \<and>
     verdict demo_reading p Arch_X86_64 ''socket'' 2 = Allow \<and>
     verdict demo_reading p Arch_Arm ''read'' 0 = Errno EPERM"
proof -
  obtain p where p: "profile demo_seacomb Target_X86_64 run_default = Inr p" using demo_profile by blast
  have "verdict demo_reading p Arch_X86_64 ''socket'' 2 = Allow"
    by (subst seccomp_decides [OF demo_seacomb_laws(1) p])
      (simp add: ARCHITECTURES_def run_default_def partial_answer_def AF_VSOCK_def)
  moreover have "verdict demo_reading p Arch_Arm ''read'' 0 = Errno EPERM"
    by (subst seccomp_decides [OF demo_seacomb_laws(1) p]) (simp add: ARCHITECTURES_def)
  ultimately show ?thesis using p by blast
qed

end
