(* ===== verification/Layers.thy ===== *)
theory Layers
  imports Store
begin

text \<open>
  What unpacking a layer promises: whatever call fails and wherever the process is killed, a layer
  that is in the store under its final name is the whole layer.
\<close>

section \<open>Complete layers\<close>

text \<open>What unpacking an archive's entries into an empty directory gives.\<close>

definition entries_tree :: "(path \<times> node) list \<Rightarrow> path \<Rightarrow> node option" where
  "entries_tree es x =
     (case map_of (rev es) x of Some n \<Rightarrow> Some n | None \<Rightarrow> if x = [] then Some (Dir 0x1ED) else None)"

text \<open>\<open>blob d\<close> is the content whose digest is \<open>d\<close>.\<close>

definition whole_layer :: "libs \<Rightarrow> (string \<Rightarrow> string) \<Rightarrow> string \<Rightarrow> (path \<Rightarrow> node option) \<Rightarrow> bool" where
  "whole_layer L blob d T \<longleftrightarrow> (\<exists>c es. untar L c (blob d) = Inr es \<and> T = entries_tree es)"

definition tree_at :: "fs \<Rightarrow> path \<Rightarrow> path \<Rightarrow> node option" where
  "tree_at f p x = node_at f (p @ x)"

text \<open>Layers built by an install script are not named after their content.\<close>

definition layers_whole :: "libs \<Rightarrow> (string \<Rightarrow> string) \<Rightarrow> path \<Rightarrow> fs \<Rightarrow> bool" where
  "layers_whole L blob s f \<longleftrightarrow>
     (\<forall>d p. filed ''layers'' s d p \<and> \<not> starts_with ''build:'' d \<and> node_at f p \<noteq> None \<longrightarrow>
        whole_layer L blob d (tree_at f p))"

definition layer_place :: "path \<Rightarrow> path \<Rightarrow> bool" where
  "layer_place s q \<longleftrightarrow> (\<exists>d p. filed ''layers'' s d p \<and> under p q)"

text \<open>Archives name the directory of an entry before the entry.\<close>

definition archives_ordered :: "libs \<Rightarrow> bool" where
  "archives_ordered L \<longleftrightarrow> (\<forall>c b es. untar L c b = Inr es \<longrightarrow> ordered_entries [[]] es)"

interpretation layer_store: protected "layer_place s" "layers_whole L blob s" for s L blob
proof
  fix f g assume f: "layers_whole L blob s f" and same: "same_on (layer_place s) f g"
  have "tree_at g p = tree_at f p" if "filed ''layers'' s d p" for d p
    using that same unfolding fun_eq_iff tree_at_def same_on_def layer_place_def
    by (metis under_append)
  moreover from this have "node_at g p = node_at f p" if "filed ''layers'' s d p" for d p
    using that by (metis append_Nil2 tree_at_def)
  ultimately show "layers_whole L blob s g"
    using f unfolding layers_whole_def by metis
qed

text \<open>A file that is waited for at some path.\<close>

interpretation kept_node: protected "(=) t" "\<lambda>f. node_at f t = n" for t n
  by unfold_locales (simp add: same_on_def)

lemma filed_under: "filed area s d p \<Longrightarrow> filed area s d' p' \<Longrightarrow> under p (p' @ x) \<Longrightarrow> p = p'"
  by (auto simp: filed_def under_iff)

text \<open>What is not under a proper digest is no layer.\<close>

lemma not_layer_place:
  assumes "p = s @ Normal b # r" "b \<noteq> ''layers'' \<or> length r \<le> 1 \<or> (\<exists>y. r ! 1 = Normal y \<and> \<not> is_clean y)"
  shows "\<not> layer_place s p"
  using assms by (auto simp: layer_place_def filed_def under_iff)

lemma not_layer_place_above: "under p s \<Longrightarrow> \<not> layer_place s p"
  by (auto simp: layer_place_def filed_def under_iff)

lemma not_clean_extract: "\<not> is_clean (stage_name x)"
  using clean_plain [of "stage_name x"] by (auto simp: stage_name_def)

lemma stage_name_neq [simp]: "stage_name x \<noteq> x" "x \<noteq> stage_name x"
proof -
  have "length (stage_name x) \<noteq> length x" by (simp add: stage_name_def)
  then show "stage_name x \<noteq> x" "x \<noteq> stage_name x" by auto
qed

lemma plain_stage: "is_clean x \<Longrightarrow> plain_name (stage_name x)"
  using clean_plain [of x] by (auto simp: plain_name_def stage_name_def)

lemma make_dirs_append:
  "make_dirs (ps @ qs) f = (case make_dirs ps f of (Inl e, g) \<Rightarrow> (Inl e, g) | (Inr _, g) \<Rightarrow> make_dirs qs g)"
  by (induction ps arbitrary: f) (auto split: prod.splits sum.splits)

lemma ancestors_snoc: "p \<noteq> [] \<Longrightarrow> ancestors p = ancestors (butlast p) @ [p]"
proof -
  assume "p \<noteq> []"
  then obtain q c where p: "p = q @ [c]" by (metis rev_exhaust)
  have "map (\<lambda>n. take n (q @ [c])) [1..<Suc (length q)] = map (\<lambda>n. take n q) [1..<Suc (length q)]"
    by (rule map_cong) auto
  then show ?thesis by (simp add: p ancestors_def)
qed

lemma make_dir_fresh:
  "make_dir p f = (Inr u, g) \<Longrightarrow> node_at f p = None \<Longrightarrow> node_at g p = Some (Dir 0x1ED)"
  by (auto simp: make_dir_def stat_def eval_nat_numeral node_at_set_node split: option.splits)

lemma make_dirs_fresh:
  assumes "make_dirs (ancestors p) f = (Inr u, g)" "p \<noteq> []" "\<forall>q. under p q \<longrightarrow> node_at f q = None"
  shows "tree_at g p = entries_tree []"
proof -
  have *: "\<forall>a \<in> set (ancestors (butlast p)). \<not> under p a"
    using not_under_butlast [OF assms(2)] by (auto simp: set_ancestors dest: under_trans)
  from assms(1) obtain h where h: "make_dirs (ancestors (butlast p)) f = (Inr (), h)" "make_dir p h = (Inr (), g)"
    unfolding ancestors_snoc [OF assms(2)] make_dirs_append by (auto split: prod.splits sum.splits)
  have "same_on (under p) f h" using same_on_make_dirs [OF *, of f] h(1) by simp
  then have none: "\<forall>q. under p q \<longrightarrow> node_at h q = None" using assms(3) by (simp add: same_on_def)
  have "same_on (\<lambda>q. under p q \<and> q \<noteq> p) h g"
    using same_on_make_dir [of "\<lambda>q. under p q \<and> q \<noteq> p" p h] h(2) by simp
  then have "node_at g (p @ x) = None" if "x \<noteq> []" for x using none that by (simp add: same_on_def)
  with make_dir_fresh [OF h(2)] none show ?thesis by (auto simp: fun_eq_iff tree_at_def entries_tree_def)
qed

lemma tree_put_entries:
  assumes "ordered_entries ds es" "tree_at g p = entries_tree []"
  shows "tree_at (put_entries p es g) p = entries_tree es"
proof
  fix x
  have "node_at g (p @ x) = entries_tree [] x" using assms(2) by (metis tree_at_def)
  then show "tree_at (put_entries p es g) p x = entries_tree es x"
    using node_at_put_entries [OF assms(1), of p g x]
    by (auto simp: tree_at_def entries_tree_def split: option.splits)
qed

lemma wf_unpacked:
  assumes "wf_fs g" "tree_at g p = entries_tree []" "ordered_entries [[]] es"
  shows "wf_fs (put_entries p (take k es) g)"
proof (rule wf_put_entries [OF assms(1,3)])
  have *: "node_at g (p @ q) = entries_tree [] q" for q using assms(2) by (metis tree_at_def)
  show "\<forall>d \<in> set [[]]. is_dir_node (node_at g (p @ d))"
    "\<forall>q. is_dir_node (node_at g (p @ q)) \<longrightarrow> q \<in> set [[]]"
    unfolding * by (auto simp: entries_tree_def)
qed

lemma unpack_triple:
  assumes "archives_ordered L" "p \<noteq> []"
  shows "triple (\<lambda>w. wf_fs (fs w) \<and> (\<forall>q. under p q \<longrightarrow> node_at (fs w) q = None))
           (unpack_entries p (untar L c b))
           (\<lambda>_ w. wf_fs (fs w) \<and> (\<exists>es. untar L c b = Inr es \<and> tree_at (fs w) p = entries_tree es))
           (\<lambda>w. wf_fs (fs w))"
proof -
  have wf: "wf_fs f \<Longrightarrow> wf_fs (snd (make_dirs ps f))" for ps f by (rule wf_make_dirs)
  have part: "wf_fs (put_entries p (take k es) g)"
    if "wf_fs f" "\<forall>q. under p q \<longrightarrow> node_at f q = None" "make_dirs (ancestors p) f = (Inr (), g)"
      "untar L c b = Inr es" for f g es k
    using wf_unpacked [of g p es k] make_dirs_fresh [OF that(3) assms(2) that(2)] wf [OF that(1)] that(3,4)
      assms(1) unfolding archives_ordered_def by (metis snd_conv)
  show ?thesis
  proof (rule tripleI)
    fix w x t
    assume w: "wf_fs (fs w) \<and> (\<forall>q. under p q \<longrightarrow> node_at (fs w) q = None)"
      and "unpack_entries p (untar L c b) w = (Inr x, t)"
    then obtain g es where g: "make_dirs (ancestors p) (fs w) = (Inr (), g)" "untar L c b = Inr es"
      "fs t = put_entries p es g"
      unfolding unpack_entries_def by (auto dest!: prim_Inr split: prod.splits sum.splits)
    moreover have "ordered_entries [[]] es" using assms(1) g(2) by (auto simp: archives_ordered_def)
    ultimately show "wf_fs (fs t) \<and> (\<exists>es. untar L c b = Inr es \<and> tree_at (fs t) p = entries_tree es)"
      using part [of "fs w" g es "length es"] w make_dirs_fresh [OF g(1) assms(2)] tree_put_entries by auto
  next
    fix w e t
    assume w: "wf_fs (fs w) \<and> (\<forall>q. under p q \<longrightarrow> node_at (fs w) q = None)"
      and t: "unpack_entries p (untar L c b) w = (Inl e, t)"
    obtain r g where g: "make_dirs (ancestors p) (fs w) = (r, g)" by fastforce
    then have "wf_fs g" using wf [of "fs w" "ancestors p"] w by simp
    moreover have "fs t = fs w \<or> fs t = g \<or> (\<exists>k es. r = Inr () \<and> untar L c b = Inr es \<and> fs t = put_entries p (take k es) g)"
      using t unfolding unpack_entries_def prim_def
      by (auto simp: Let_def g split: option.splits nat.splits sum.splits)
    ultimately show "wf_fs (fs t)" using w g part by auto
  qed
qed

definition ready :: "libs \<Rightarrow> (string \<Rightarrow> string) \<Rightarrow> path \<Rightarrow> path \<Rightarrow> node \<Rightarrow> world \<Rightarrow> bool" where
  "ready L blob s temp n w \<longleftrightarrow>
     (wf_fs (fs w) \<and> layers_whole L blob s (fs w)) \<and> node_at (fs w) temp = Some n"

definition empty_at :: "path \<Rightarrow> world \<Rightarrow> bool" where
  "empty_at p w \<longleftrightarrow> (\<forall>q. under p q \<longrightarrow> node_at (fs w) q = None)"

lemma keeps_ready:
  "keeps (\<lambda>w. wf_fs (fs w)) m \<Longrightarrow> keeps (\<lambda>w. layers_whole L blob s (fs w)) m \<Longrightarrow>
   keeps (\<lambda>w. node_at (fs w) temp = Some n) m \<Longrightarrow> keeps (ready L blob s temp n) m"
  unfolding ready_def by (intro keeps_conj)

lemma read_file_triple:
  "triple (\<lambda>w. I (fs w) \<and> node_at (fs w) p = Some (File c)) (read_file p)
     (\<lambda>x w. x = c \<and> I (fs w)) (\<lambda>w. I (fs w))"
proof (rule tripleI)
  fix w x t assume *: "I (fs w) \<and> node_at (fs w) p = Some (File c)" "read_file p w = (Inr x, t)"
  have "stat (fs w) p = Some (File c)" using *(1) by (simp add: stat_def eval_nat_numeral)
  with * show "x = c \<and> I (fs t)" unfolding read_file_def by (auto dest!: query_Inr)
next
  fix w e t assume "I (fs w) \<and> node_at (fs w) p = Some (File c)" "read_file p w = (Inl e, t)"
  then show "I (fs t)" using keepsD [of "\<lambda>w. I (fs w)", OF keeps_reads(6)] by blast
qed

lemma rename_layer:
  assumes p: "filed ''layers'' s d p" and a: "\<forall>q. under a q \<longrightarrow> \<not> layer_place s q" "a \<noteq> []"
    "\<not> under a p" and b: "\<not> starts_with ''build:'' d"
  shows "triple (\<lambda>w. wf_fs (fs w) \<and> layers_whole L blob s (fs w) \<and> whole_layer L blob d (tree_at (fs w) a))
           (rename a p) (\<lambda>_ w. wf_fs (fs w) \<and> layers_whole L blob s (fs w) \<and> node_at (fs w) p \<noteq> None)
           (\<lambda>w. wf_fs (fs w) \<and> layers_whole L blob s (fs w))"
proof (rule tripleI)
  fix w x t
  assume w: "wf_fs (fs w) \<and> layers_whole L blob s (fs w) \<and> whole_layer L blob d (tree_at (fs w) a)"
    and t: "rename a p w = (Inr x, t)"
  have "layer_place s p" using p unfolding layer_place_def by (meson under_refl)
  then have pne: "p \<noteq> []" "a \<noteq> p" using p a(1) under_refl by (auto simp: filed_def)
  have r: "rename_node a p (fs w) = (Inr x, fs t)" using t unfolding rename_def by (blast dest: prim_Inr)
  have "wf_fs (fs t)" using wf_rename [of "fs w" a p] w a(2) pne r by simp
  moreover have pt: "tree_at (fs t) p = tree_at (fs w) a"
    using rename_node_Inr(1) [OF r pne(2) a(3)] by (simp add: fun_eq_iff tree_at_def)
  moreover have "node_at (fs t) p \<noteq> None"
    using rename_node_Inr(1) [OF r pne(2) a(3), of "[]"] rename_node_Inr(2) [OF r pne(2) a(3)] by simp
  moreover have "layers_whole L blob s (fs t)" unfolding layers_whole_def
  proof (intro allI impI)
    fix d' p' assume *: "filed ''layers'' s d' p' \<and> \<not> starts_with ''build:'' d' \<and> node_at (fs t) p' \<noteq> None"
    show "whole_layer L blob d' (tree_at (fs t) p')"
    proof (cases "p' = p")
      case True
      with * p have "d' = d" using filed_inj by blast
      with True pt w show ?thesis by simp
    next
      case False
      have "\<not> under a (p' @ x) \<and> \<not> under p (p' @ x)" for x
        using a(1) * False filed_under [OF p, of d' p' x] under_append [of p' x]
        unfolding layer_place_def by metis
      then have "same_on (under p') (fs w) (fs t)"
        using same_on_rename [of a p "under p'" "fs w"] r by (auto simp: under_iff)
      then have e: "node_at (fs t) (p' @ x) = node_at (fs w) (p' @ x)" for x
        by (simp add: same_on_def)
      then have "node_at (fs w) p' \<noteq> None" "tree_at (fs t) p' = tree_at (fs w) p'"
        using * e [of "[]"] by (auto simp: fun_eq_iff tree_at_def)
      with * w show ?thesis by (auto simp: layers_whole_def)
    qed
  qed
  ultimately show "wf_fs (fs t) \<and> layers_whole L blob s (fs t) \<and> node_at (fs t) p \<noteq> None" by simp
next
  fix w e t
  assume w: "wf_fs (fs w) \<and> layers_whole L blob s (fs w) \<and> whole_layer L blob d (tree_at (fs w) a)"
    and t: "rename a p w = (Inl e, t)"
  have "fs t = fs w" using t unfolding rename_def prim_def
    by (auto simp: Let_def rename_node_def split: option.splits nat.splits prod.splits if_splits)
  with w show "wf_fs (fs t) \<and> layers_whole L blob s (fs t)" by simp
qed

lemma extract_layer_triple:
  assumes L: "archives_ordered L" and s: "store_dir h = Inr s" and b: "\<not> starts_with ''build:'' d"
    and temp: "temp = s @ [Normal n]" "n \<noteq> ''layers''"
  shows "triple (ready L blob s temp (File (blob d))) (extract_layer L h temp d mt)
           (\<lambda>_ w. wf_fs (fs w) \<and> layers_whole L blob s (fs w) \<and>
                  (\<exists>p. layer_path h d = Inr p \<and> node_at (fs w) p \<noteq> None))
           (\<lambda>w. wf_fs (fs w) \<and> layers_whole L blob s (fs w))"
proof (cases "layer_path h d")
  case (Inl e)
  then show ?thesis by (auto simp: extract_layer_def triple_def script_simps ready_def)
next
  case (Inr dest)
  then obtain a x where ax: "is_clean a" "is_clean x" "dest = s @ [Normal ''layers'', Normal a, Normal x]"
    and p: "filed ''layers'' s d dest"
    using s by (auto simp: layer_path_Inr filed_def)
  let ?dir = "s @ [Normal ''layers'', Normal a]"
  let ?st = "?dir @ [Normal (stage_name x)]"
  let ?R = "ready L blob s temp (File (blob d))"
  let ?E = "\<lambda>w. wf_fs (fs w) \<and> layers_whole L blob s (fs w)"
  have ext: "plain_name (stage_name x)" by (rule plain_stage [OF ax(2)])
  have par: "parent dest = Some ?dir" "file_name dest = Some x"
    by (simp_all add: ax(3) parent_def file_name_def butlast_append)
  have st: "staging_path dest = returnM ?st" 
    by (simp only: staging_path_def par prod.case option.case join_plain [OF ext])
  have no_st: "\<forall>q. under ?st q \<longrightarrow> \<not> layer_place s q"
    using not_layer_place [of _ s "''layers''"] not_clean_extract by (auto simp: under_iff)
  have dir_cases: "under q s \<or> q = s @ [Normal ''layers''] \<or> q = ?dir" if "under q ?dir" for q
    using that by (auto simp: under_iff append_eq_append_conv2 append_eq_Cons_conv Cons_eq_append_conv)
  have no_dir: "\<not> layer_place s q" if "under q ?dir" for q
    using dir_cases [OF that] not_layer_place_above not_layer_place [of q s "''layers''"] by auto
  have t_dir: "temp \<noteq> q" if "under q ?dir" for q
    using dir_cases [OF that] temp by (auto simp: under_iff)
  have t_st: "\<forall>q. under ?st q \<longrightarrow> temp \<noteq> q" using temp by (auto simp: under_iff)
  have 1: "triple ?R (create_parent dest) (\<lambda>_. ?R) ?E"
  proof (rule keeps_into)
    show "keeps ?R (create_parent dest)"
      unfolding create_parent_def par option.case
      using no_dir t_dir by (auto intro!: keeps_ready keeps_intros layer_store.create_dir_all
        kept_node.create_dir_all)
  qed (simp add: ready_def)
  have k: "keeps ?R (remove_tree ?st)"
    using no_st t_st by (auto intro!: keeps_ready keeps_intros layer_store.remove_tree kept_node.remove_tree)
  have 2: "triple ?R (remove_tree ?st) (\<lambda>_ w. ?R w \<and> empty_at ?st w) ?E"
  proof (rule tripleI)
    fix w x t assume *: "?R w" "remove_tree ?st w = (Inr x, t)"
    with k have "?R t" by (blast dest: keepsD)
    with * remove_tree_Inr [OF *(2)] show "?R t \<and> empty_at ?st t" by (simp add: ready_def empty_at_def)
  next
    fix w e t assume "?R w" "remove_tree ?st w = (Inl e, t)"
    with k have "?R t" by (blast dest: keepsD)
    then show "?E t" by (simp add: ready_def)
  qed
  let ?F = "\<lambda>w. (wf_fs (fs w) \<and> layers_whole L blob s (fs w)) \<and> empty_at ?st w"
  have 3: "triple (\<lambda>w. ?R w \<and> empty_at ?st w) (contextM m (read_file temp)) (\<lambda>c w. c = blob d \<and> ?F w) ?E" for m
    by (rule triple_context, rule triple_weaken [OF read_file_triple [where c = "blob d" and p = temp and
        I = "\<lambda>f. wf_fs f \<and> layers_whole L blob s f \<and> (\<forall>q. under ?st q \<longrightarrow> node_at f q = None)"]])
      (auto simp: ready_def empty_at_def)
  have 4: "triple (\<lambda>w. content = blob d \<and> ?F w)
     (case codec_of mt of
        None \<Rightarrow> failM (Bail (''unsupported layer media type '' @ quoted mt))
      | Some Zstd \<Rightarrow> contextM ''initialising zstd decoder''
                        (bindM (liftM (zstd_header L content)) (\<lambda>_. returnM Zstd))
      | Some c \<Rightarrow> returnM c) (\<lambda>_ w. content = blob d \<and> ?F w) ?E" for content
    by (cases "zstd_header L content")
      (auto simp: triple_def script_simps contextM_def split: option.splits codec.splits)
  have 5: "triple (\<lambda>w. content = blob d \<and> ?F w) (contextM m (unpack_entries ?st (untar L c content)))
      (\<lambda>_ w. wf_fs (fs w) \<and> layers_whole L blob s (fs w) \<and> whole_layer L blob d (tree_at (fs w) ?st)) ?E"
    for content c m
  proof -
    have "keeps (\<lambda>w. layers_whole L blob s (fs w)) (unpack_entries ?st (untar L c (blob d)))"
    proof (rule layer_store.unpack)
      have "under q ?st \<Longrightarrow> under q ?dir \<or> q = ?st" for q
        using under_butlast [of q ?st] by (auto simp: butlast_append)
      then show "\<forall>q. q \<noteq> [] \<and> (under q ?st \<or> under ?st q) \<longrightarrow> \<not> layer_place s q"
        using no_dir no_st by (metis under_refl)
    qed simp
    from triple_conj [OF unpack_triple [OF L, of ?st c "blob d"] iffD1 [OF keeps_triple this]]
    have "triple (\<lambda>w. content = blob d \<and> ?F w) (unpack_entries ?st (untar L c (blob d)))
      (\<lambda>_ w. wf_fs (fs w) \<and> layers_whole L blob s (fs w) \<and> whole_layer L blob d (tree_at (fs w) ?st)) ?E"
      by (rule triple_weaken) (auto simp: empty_at_def whole_layer_def)
    note ok = this
    show ?thesis
    proof (cases "content = blob d")
      case True
      show ?thesis unfolding True by (rule triple_context) (use ok True in \<open>simp only:\<close>)
    qed (simp add: triple_def)
  qed
  have 6: "triple (\<lambda>w. wf_fs (fs w) \<and> layers_whole L blob s (fs w) \<and> whole_layer L blob d (tree_at (fs w) ?st))
      (contextM m (rename ?st dest))
      (\<lambda>_ w. wf_fs (fs w) \<and> layers_whole L blob s (fs w) \<and> node_at (fs w) dest \<noteq> None) ?E" for m
    by (rule triple_context, rule rename_layer [OF p no_st _ _ b])
      (use not_clean_extract [of x] ax in \<open>auto simp: under_iff\<close>)
  show ?thesis
    unfolding extract_layer_def Inr liftM_simps bindM_simps st
    by (rule triple_bind [OF 1]; rule triple_bind [OF 2]; rule triple_bind [OF 3]; rule triple_bind [OF 4];
        rule triple_bind [OF 5]; rule triple_weaken [OF 6]) auto
qed

text \<open>
  C2: whatever system calls fail, fully or half way, and wherever the process is killed: after
  \<open>extract_layer\<close> every layer the store holds under its final name is the whole layer its digest
  names, because a layer only gets that name in one step once it is unpacked; and when
  \<open>extract_layer\<close> returns without an error the layer is there.
\<close>

theorem extract_layer_crash_safe:
  assumes "archives_ordered L" "store_dir h = Inr s" "\<not> starts_with ''build:'' d"
    and "temp = s @ [Normal n]" "n \<noteq> ''layers''" "node_at (fs w) temp = Some (File (blob d))"
    and "wf_fs (fs w)" "layers_whole L blob s (fs w)"
    and "extract_layer L h temp d mt w = (r, t)"
  shows "wf_fs (fs t) \<and> layers_whole L blob s (fs t) \<and>
         (r = Inr () \<longrightarrow> (\<exists>p. layer_path h d = Inr p \<and> whole_layer L blob d (tree_at (fs t) p)))"
proof -
  have R: "ready L blob s temp (File (blob d)) w" using assms by (simp add: ready_def)
  note T = extract_layer_triple [OF assms(1-5)]
  show ?thesis
  proof (cases r)
    case (Inl e)
    with triple_Inl [OF T R] assms(9) show ?thesis by auto
  next
    case (Inr u)
    then have "extract_layer L h temp d mt w = (Inr (), t)" using assms(9) by simp
    from triple_Inr [OF T R this] obtain p where
      *: "wf_fs (fs t)" "layers_whole L blob s (fs t)" "layer_path h d = Inr p" "node_at (fs t) p \<noteq> None"
      by blast
    with assms(2,3) have "whole_layer L blob d (tree_at (fs t) p)"
      by (auto simp: layers_whole_def layer_path_Inr)
    with * show ?thesis by blast
  qed
qed

definition demo_libs :: libs where
  "demo_libs = \<lparr>parse_reference = Some, manifest_of = (\<lambda>_. Inl (Ext ''no manifest'')),
     manifest_text = (\<lambda>_. Inr []), settings_of = (\<lambda>_. Inr None), zstd_header = (\<lambda>_. Inr ()),
     untar = (\<lambda>_ _. Inr [([Normal ''bin''], Dir 0x1ED), ([Normal ''bin'', Normal ''sh''], File ''x'')]),
     toml_of = (\<lambda>_. Inr []), capability_of = (\<lambda>_. None)\<rparr>"

definition demo_images :: path where
  "demo_images = [RootDir, Normal ''d'', Normal ''climate'', Normal ''images'']"

definition demo_store_fs :: fs where
  "demo_store_fs = [([RootDir], Dir 0x1ED), ([RootDir, Normal ''d''], Dir 0x1ED),
     ([RootDir, Normal ''d'', Normal ''climate''], Dir 0x1ED), (demo_images, Dir 0x1ED),
     (demo_images @ [Normal ''t''], File ''content'')]"

theorem extract_layer_crash_safe_witness:
  "layers_whole demo_libs (\<lambda>_. ''content'') demo_images
     (fs (snd (extract_layer demo_libs demo_host (demo_images @ [Normal ''t'']) ''a:b'' ''application/tar''
                (demo_world demo_store_fs \<lparr>fault := (\<lambda>n. if n < 5 then None else Some 1)\<rparr>))))"
proof -
  have "archives_ordered demo_libs"
    by (auto simp: archives_ordered_def demo_libs_def)
  moreover have "wf_fs demo_store_fs"
    by (auto simp: wf_fs_def node_at_def demo_store_fs_def demo_images_def split: if_splits)
  moreover have "layers_whole demo_libs (\<lambda>_. ''content'') demo_images demo_store_fs"
    by (auto simp: layers_whole_def filed_def node_at_def demo_store_fs_def demo_images_def)
  moreover have "store_dir demo_host = Inr demo_images" by (simp add: demo_store demo_images_def)
  ultimately show ?thesis
    by (intro extract_layer_crash_safe [OF _ _ _ refl _ _ _ _ prod.collapse [symmetric], THEN conjunct2, THEN conjunct1])
      (simp_all add: starts_with_def demo_world_def node_at_def demo_store_fs_def demo_images_def)
qed

end
