(* ===== verification/Fetch.thy ===== *)
theory Fetch
  imports Layers
begin

text \<open>
  Downloading an image, the lower half of \<open>src/pull.rs\<close>: \<open>download_blob\<close>, \<open>fetch_layer\<close>,
  \<open>fetch_image\<close> and \<open>fetch\<close>. The registry client is a parameter. Layers are fetched one after the
  other in the order of the manifest; the source runs up to three of these at once. Progress bars
  are not modelled.
\<close>

section \<open>The registry\<close>

text \<open>
  What the client of a registry answers, which may change from one call to the next. A blob is
  streamed into the file: the bytes written are there whether or not the client then reports an
  error, such as a digest that does not match.
\<close>

record registry =
  pull_image_manifest :: "string \<Rightarrow> nat \<Rightarrow> (manifest \<times> string) res"
  pull_manifest_raw :: "string \<Rightarrow> string \<Rightarrow> nat \<Rightarrow> string res"
  pull_blob :: "string \<Rightarrow> descriptor \<Rightarrow> nat \<Rightarrow> string \<times> unit res"

definition at_tick :: "(nat \<Rightarrow> 'a) \<Rightarrow> 'a io" where
  "at_tick q w = (Inr (q (tick w)), w\<lparr>tick := Suc (tick w)\<rparr>)"

definition download_blob :: "registry \<Rightarrow> string \<Rightarrow> descriptor \<Rightarrow> path \<Rightarrow> unit io" where
  "download_blob R ref d temp =
     bindM (contextM (''creating '' @ path_str temp) (write_file temp [])) (\<lambda>_.
     contextM (''pulling blob '' @ digest d)
       (bindM (at_tick (pull_blob R ref d)) (\<lambda>(bytes, res).
        bindM (write_file temp bytes) (\<lambda>_. liftM res))))"

definition fetch_layer :: "libs \<Rightarrow> host \<Rightarrow> registry \<Rightarrow> string \<Rightarrow> descriptor \<Rightarrow> unit io" where
  "fetch_layer L h R ref d =
     bindM (temp_path h ''layer'') (\<lambda>temp.
     bindM (tryM (bindM (download_blob R ref d temp) (\<lambda>_.
                  extract_layer L h temp (digest d) (media_type d)))) (\<lambda>res.
     bindM (ignoreM (remove_file temp)) (\<lambda>_.
     liftM res)))"

definition fetch_config :: "host \<Rightarrow> registry \<Rightarrow> string \<Rightarrow> descriptor \<Rightarrow> unit io" where
  "fetch_config h R ref d =
     bindM (has_blob h (digest d)) (\<lambda>there.
     whenM (\<not> there)
       (bindM (temp_path h ''config'') (\<lambda>temp.
        bindM (download_blob R ref d temp) (\<lambda>_.
        commit_blob h temp (digest d)))))"

fun pending_layers :: "host \<Rightarrow> descriptor list \<Rightarrow> descriptor list io" where
  "pending_layers h [] = returnM []"
| "pending_layers h (d # ds) =
     bindM (has_layer h (digest d)) (\<lambda>there.
     bindM (pending_layers h ds) (\<lambda>rest. returnM (if there then rest else d # rest)))"

definition fetch_image :: "libs \<Rightarrow> host \<Rightarrow> registry \<Rightarrow> string \<Rightarrow> unit io" where
  "fetch_image L h R ref =
     bindM (contextM (''resolving '' @ ref)
              (bindM (at_tick (pull_image_manifest R ref)) liftM)) (\<lambda>(m, md).
     bindM (contextM (''fetching the manifest blob for '' @ ref)
              (bindM (at_tick (pull_manifest_raw R ref md)) liftM)) (\<lambda>raw.
     bindM (write_blob h md raw) (\<lambda>_.
     bindM (fetch_config h R ref (man_config m)) (\<lambda>_.
     bindM (pending_layers h (man_layers m)) (\<lambda>pending.
     bindM (forM pending (fetch_layer L h R ref)) (\<lambda>_.
     bindM (record_ref h ref md) (\<lambda>_.
     eprint ((if pending = [] then ''up to date: '' else ''pulled '') @ ref @ '' ('' @ md @ '')''))))))))"

text \<open>Starting the async runtime may fail, which \<open>started\<close> says.\<close>

definition fetch :: "libs \<Rightarrow> host \<Rightarrow> registry \<Rightarrow> unit res \<Rightarrow> string \<Rightarrow> bool \<Rightarrow> unit io" where
  "fetch L h R started r update =
     bindM (liftM (option_context (''invalid image reference '' @ quoted r) (parse_reference L r))) (\<lambda>ref.
     bindM (if update then returnM False else has_ref h ref) (\<lambda>there.
     if there then returnM ()
     else bindM (contextM ''starting the async runtime'' (liftM started)) (\<lambda>_.
          fetch_image L h R ref)))"

section \<open>The schedule of faults does not change\<close>

lemma keeps_fault_prim: "keeps (\<lambda>w. C (fault w)) (prim eff part)"
  by (simp add: keeps_def prim_def Let_def split: option.splits nat.splits prod.splits)

lemma keeps_fault_query: "keeps (\<lambda>w. C (fault w)) (query q)"
  unfolding query_def by (rule keeps_fault_prim)

lemma keeps_fault_asking: "keeps (\<lambda>w. C (fault w)) (asking q)"
  unfolding asking_def by (intro keeps_intros keeps_fault_query)

lemma keeps_fault [keeps_intros]:
  "keeps (\<lambda>w. C (fault w)) (path_exists p)" "keeps (\<lambda>w. C (fault w)) (is_file p)"
  "keeps (\<lambda>w. C (fault w)) (is_dir p)" "keeps (\<lambda>w. C (fault w)) (symlink_metadata p)"
  "keeps (\<lambda>w. C (fault w)) (read_link p)" "keeps (\<lambda>w. C (fault w)) (read_file p)"
  "keeps (\<lambda>w. C (fault w)) (read_dir p)" "keeps (\<lambda>w. C (fault w)) (write_file p c)"
  "keeps (\<lambda>w. C (fault w)) (create_dir_all p)" "keeps (\<lambda>w. C (fault w)) (remove_file p)"
  "keeps (\<lambda>w. C (fault w)) (remove_dir_all p)" "keeps (\<lambda>w. C (fault w)) (rename a b)"
  "keeps (\<lambda>w. C (fault w)) (symlink t p)" "keeps (\<lambda>w. C (fault w)) (set_permissions p m)"
  "keeps (\<lambda>w. C (fault w)) (unpack_entries p es)" "keeps (\<lambda>w. C (fault w)) (unique_id h)"
  "keeps (\<lambda>w. C (fault w)) (at_tick f)" "keeps (\<lambda>w. C (fault w)) (eprint s)"
  "keeps (\<lambda>w. C (fault w)) (println s)"
  unfolding path_exists_def is_file_def is_dir_def symlink_metadata_def read_link_def read_file_def
    read_dir_def write_file_def create_dir_all_def remove_file_def remove_dir_all_def rename_def
    symlink_def set_permissions_def unpack_entries_def
  by (intro keeps_fault_prim keeps_fault_query keeps_fault_asking)+
    (simp_all add: keeps_def unique_id_def at_tick_def eprint_def println_def)

lemma keeps_fault_grant: "keeps (\<lambda>w. C (fault w)) (grant_writable n p)"
  by (induction n arbitrary: p) (auto intro!: keeps_intros)

lemma keeps_fault_remove_tree [keeps_intros]: "keeps (\<lambda>w. C (fault w)) (remove_tree p)"
proof -
  have "keeps (\<lambda>w. C (fault w)) (remove_tree_steps n p)" for n
    unfolding remove_tree_steps_def by (auto intro!: keeps_intros keeps_fault_grant)
  then show ?thesis by (simp add: keeps_def remove_tree_def)
qed

lemma keeps_at_tick [keeps_intros]: "keeps (\<lambda>w. I (fs w)) (at_tick f)"
  by (simp add: keeps_def at_tick_def)

end
