(* ===== verification/Apps.thy ===== *)
theory Apps
  imports Seccomp Fetch
begin

text \<open>
  Finding and reading app definitions, the second half of \<open>src/config.rs\<close>: the search directories,
  the names of all apps, the checks on a name, and a definition with its override. Reading
  TOML text is the parameter \<open>toml_of\<close>; the struct is read from the table the text gives.
\<close>

section \<open>Where definitions are\<close>

definition SYSTEM_DIR :: string where "SYSTEM_DIR = ''/usr/share/climate/apps''"

definition search_dirs :: "host \<Rightarrow> path list" where
  "search_dirs h =
     (case env_var h ''CLIMATE_APPS_DIR'' of None \<Rightarrow> [] | Some d \<Rightarrow> [path_of d])
     @ (case config_dir h of None \<Rightarrow> [] | Some d \<Rightarrow> [join_str (join_str d ''climate'') ''apps''])
     @ (case data_dir h of None \<Rightarrow> [] | Some d \<Rightarrow> [join_str (join_str d ''climate'') ''apps''])
     @ [path_of SYSTEM_DIR]"

text \<open>A directory that cannot be read is passed over.\<close>

definition names_in :: "path \<Rightarrow> string list io" where
  "names_in dir = bindM (tryM (read_dir dir)) (\<lambda>r. returnM (case r of Inl _ \<Rightarrow> [] | Inr ns \<Rightarrow> ns))"

definition toml_stem :: "string \<Rightarrow> string option" where
  "toml_stem n = (case stem_ext n of (stem, ext) \<Rightarrow> if ext = Some ''toml'' then Some stem else None)"

definition group_apps :: "path \<Rightarrow> string \<Rightarrow> string list io" where
  "group_apps dir letter = bindM (names_in (dir @ [Normal letter])) (\<lambda>ns. returnM (filter_map toml_stem ns))"

definition dir_apps :: "path \<Rightarrow> string list io" where
  "dir_apps dir =
     bindM (names_in dir) (\<lambda>letters.
     bindM (mapM (group_apps dir) letters) (\<lambda>nss. returnM (concat nss)))"

definition app_names :: "host \<Rightarrow> string list io" where
  "app_names h =
     bindM (mapM dir_apps (search_dirs h)) (\<lambda>nss. returnM (sort (remdups (concat nss))))"

section \<open>Reading a definition\<close>

definition valid_name :: "string \<Rightarrow> bool" where
  "valid_name n \<longleftrightarrow> n \<noteq> [] \<and> \<not> starts_with ''.'' n \<and>
     list_all (\<lambda>c. is_ascii_alphanumeric c \<or> List.member ''+._-'' c) n"

definition validate_app_name :: "string \<Rightarrow> unit res" where
  "validate_app_name n =
     (if \<not> valid_name n
      then Inl (Bail (''invalid app name '' @ quoted n
             @ '' (allowed: A-Z a-z 0-9 + . _ -, not starting with '' @ quoted ''.'' @ '')''))
      else Inr ())"

definition toml_name :: "string \<Rightarrow> string" where
  "toml_name n = n @ ''.toml''"

definition definition_path :: "path \<Rightarrow> string \<Rightarrow> path" where
  "definition_path dir n = join_str (join_str dir (take 1 n)) (toml_name n)"

text \<open>\<open>find\<close> over the candidates, one question after the other.\<close>

fun find_file :: "path list \<Rightarrow> path option io" where
  "find_file [] = returnM None"
| "find_file (p # ps) = bindM (is_file p) (\<lambda>there. if there then returnM (Some p) else find_file ps)"

definition read_app :: "host \<Rightarrow> string \<Rightarrow> (path \<times> string) io" where
  "read_app h n =
     bindM (liftM (validate_app_name n)) (\<lambda>_.
     bindM (find_file (map (\<lambda>dir. definition_path dir n) (search_dirs h))) (\<lambda>found.
     bindM (liftM (option_context (''unknown app '' @ quoted n) found)) (\<lambda>p.
     bindM (contextM (''reading '' @ path_str p) (read_file p)) (\<lambda>txt.
     returnM (p, txt)))))"

definition read_override :: "host \<Rightarrow> string \<Rightarrow> (path \<times> string) option io" where
  "read_override h n =
     (case config_dir h of
        None \<Rightarrow> returnM None
      | Some d \<Rightarrow>
          let p = definition_path (join_str (join_str d ''climate'') ''overrides'') n in
          bindM (is_file p) (\<lambda>there.
          if \<not> there then returnM None
          else bindM (contextM (''reading '' @ path_str p) (read_file p)) (\<lambda>txt. returnM (Some (p, txt)))))"

definition check_app :: "seacomb \<Rightarrow> string \<Rightarrow> string \<Rightarrow> app_config \<Rightarrow> unit res" where
  "check_app S n origin cfg =
     (if name (app cfg) \<noteq> n
      then Inl (Bail (origin @ '': app name '' @ quoted (name (app cfg))
             @ '' does not match file name '' @ quoted n))
      else if description (app cfg) = [] then Inl (Bail (origin @ '': app description must not be empty''))
      else if license (app cfg) = [] then Inl (Bail (origin @ '': app license must not be empty''))
      else with_context (''parsing '' @ origin) (check_syscall_names S (run cfg)))"

definition parse_app :: "libs \<Rightarrow> string \<Rightarrow> table \<Rightarrow> app_config res" where
  "parse_app L origin t = with_context (''parsing '' @ origin) (app_config_of (capability_of L) t)"

definition load_with_raw :: "libs \<Rightarrow> seacomb \<Rightarrow> host \<Rightarrow> string \<Rightarrow> (app_config \<times> table) io" where
  "load_with_raw L S h n =
     bindM (read_app h n) (\<lambda>(p, txt).
     bindM (liftM (with_context (''parsing '' @ path_str p) (toml_of L txt))) (\<lambda>raw.
     bindM (read_override h n) (\<lambda>over.
     bindM (case over of
         None \<Rightarrow>
           let origin = path_str p in
           liftM (and_then (parse_app L origin raw) (\<lambda>cfg. Inr (cfg, origin, raw)))
       | Some (op, otxt) \<Rightarrow>
           bindM (liftM (with_context (''parsing '' @ path_str op) (toml_of L otxt))) (\<lambda>over.
           let raw = merge raw over; origin = path_str p @ '' with '' @ path_str op in
           liftM (and_then (parse_app L origin raw) (\<lambda>cfg. Inr (cfg, origin, raw))))) (\<lambda>(cfg, origin, raw).
     bindM (liftM (check_app S n origin cfg)) (\<lambda>_.
     returnM (cfg, raw))))))"

definition load :: "libs \<Rightarrow> seacomb \<Rightarrow> host \<Rightarrow> string \<Rightarrow> app_config io" where
  "load L S h n = bindM (load_with_raw L S h n) (\<lambda>(cfg, raw). returnM cfg)"

definition load_or_warn :: "libs \<Rightarrow> seacomb \<Rightarrow> host \<Rightarrow> string \<Rightarrow> app_config option io" where
  "load_or_warn L S h n =
     bindM (tryM (load L S h n)) (\<lambda>r.
     case r of
       Inr cfg \<Rightarrow> returnM (Some cfg)
     | Inl err \<Rightarrow> bindM (eprint (''skipping '' @ n @ '': '' @ error_str err)) (\<lambda>_. returnM None))"

section \<open>Nothing is written\<close>

lemma keeps_names_in [keeps_intros]: "keeps (\<lambda>w. I (fs w)) (names_in d)"
  unfolding names_in_def by (intro keeps_intros)

lemma keeps_app_names [keeps_intros]: "keeps (\<lambda>w. I (fs w)) (app_names h)"
  unfolding app_names_def dir_apps_def group_apps_def by (intro keeps_intros)

lemma keeps_find_file [keeps_intros]: "keeps (\<lambda>w. I (fs w)) (find_file ps)"
  by (induction ps) (auto intro!: keeps_intros)

lemma keeps_read_app [keeps_intros]: "keeps (\<lambda>w. I (fs w)) (read_app h n)"
  unfolding read_app_def by (intro keeps_intros)

lemma keeps_read_override [keeps_intros]: "keeps (\<lambda>w. I (fs w)) (read_override h n)"
  unfolding read_override_def by (intro keeps_intros)

lemma keeps_load_with_raw [keeps_intros]: "keeps (\<lambda>w. I (fs w)) (load_with_raw L S h n)"
  unfolding load_with_raw_def Let_def by (intro keeps_intros)

lemma keeps_load [keeps_intros]: "keeps (\<lambda>w. I (fs w)) (load L S h n)"
  unfolding load_def by (intro keeps_intros)

lemma keeps_load_or_warn [keeps_intros]: "keeps (\<lambda>w. I (fs w)) (load_or_warn L S h n)"
  unfolding load_or_warn_def by (intro keeps_intros)

section \<open>Which file is read\<close>

lemma valid_name_plain:
  assumes "valid_name n"
  shows "plain_name (take 1 n)" "plain_name (toml_name n)" "plain_name n"
proof -
  obtain c cs where n: "n = c # cs" using assms by (cases n) (auto simp: valid_name_def)
  have ok: "\<forall>x \<in> set n. is_ascii_alphanumeric x \<or> x \<in> set ''+._-''"
    using assms by (simp add: valid_name_def list_all_iff)
  have "\<not> is_ascii_alphanumeric CHR ''/''"
    by (simp add: is_ascii_alphanumeric_def is_ascii_alphabetic_def is_ascii_digit_def
        is_ascii_lowercase_def is_ascii_uppercase_def)
  with ok have "CHR ''/'' \<notin> set n" by auto
  moreover have "c \<noteq> CHR ''.''" using assms n by (auto simp: valid_name_def starts_with_def)
  ultimately show "plain_name (take 1 n)" "plain_name (toml_name n)" "plain_name n"
    by (auto simp: plain_name_def toml_name_def n)
qed

lemma definition_path_valid:
  "valid_name n \<Longrightarrow> definition_path dir n = dir @ [Normal (take 1 n), Normal (toml_name n)]"
  using valid_name_plain by (simp add: definition_path_def join_plain)

section \<open>What a load gives\<close>

text \<open>
  \<open>reading m q\<close>: when no call fails, \<open>m\<close> changes no file and returns \<open>q\<close> of the files.
\<close>

definition reading :: "'a io \<Rightarrow> (fs \<Rightarrow> 'a res) \<Rightarrow> bool" where
  "reading m q \<longleftrightarrow> (\<forall>w. no_faults w \<longrightarrow> (\<exists>t. m w = (q (fs w), t) \<and> fs t = fs w \<and> no_faults t))"

named_theorems readings \<open>what effects that only read return\<close>

lemma readingD: "reading m q \<Longrightarrow> no_faults w \<Longrightarrow> \<exists>t. m w = (q (fs w), t) \<and> fs t = fs w \<and> no_faults t"
  by (simp add: reading_def)

lemma reading_query [readings]: "reading (query q) q"
  by (simp add: reading_def query_def prim_def no_faults_def Let_def)

lemma reading_return [readings]: "reading (returnM x) (\<lambda>_. Inr x)"
  by (simp add: reading_def script_simps)

lemma reading_lift [readings]: "reading (liftM r) (\<lambda>_. r)"
  by (simp add: reading_def script_simps)

lemma reading_bind [readings]:
  assumes "reading m q" "\<And>x. reading (g x) (p x)"
  shows "reading (bindM m g) (\<lambda>f. and_then (q f) (\<lambda>x. p x f))"
  unfolding reading_def
proof (intro allI impI)
  fix w assume "no_faults w"
  with assms(1) obtain u where u: "m w = (q (fs w), u)" "fs u = fs w" "no_faults u"
    by (blast dest: readingD)
  show "\<exists>t. bindM m g w = (and_then (q (fs w)) (\<lambda>x. p x (fs w)), t) \<and> fs t = fs w \<and> no_faults t"
  proof (cases "q (fs w)")
    case (Inr x)
    with u readingD [OF assms(2) [of x] u(3)] show ?thesis by (auto simp: bindM_def)
  qed (use u in \<open>simp add: bindM_def\<close>)
qed

lemma reading_context [readings]: "reading m q \<Longrightarrow> reading (contextM msg m) (\<lambda>f. with_context msg (q f))"
  by (fastforce simp: reading_def contextM_def)

lemma reading_try [readings]: "reading m q \<Longrightarrow> reading (tryM m) (\<lambda>f. Inr (q f))"
  by (fastforce simp: reading_def tryM_def)

lemma reading_if [readings]: "reading m p \<Longrightarrow> reading n q \<Longrightarrow> reading (if b then m else n) (\<lambda>f. if b then p f else q f)"
  by simp

lemma reading_option [readings]:
  "reading m p \<Longrightarrow> (\<And>x. reading (g x) (q x)) \<Longrightarrow>
   reading (case r of None \<Rightarrow> m | Some x \<Rightarrow> g x) (\<lambda>f. case r of None \<Rightarrow> p f | Some x \<Rightarrow> q x f)"
  by (cases r) simp_all

lemma reading_prod [readings]:
  "(\<And>a b. reading (g a b) (q a b)) \<Longrightarrow> reading (case r of (a, b) \<Rightarrow> g a b) (\<lambda>f. case r of (a, b) \<Rightarrow> q a b f)"
  by (cases r) simp

lemma reading_file [readings]: "reading (read_file p) (\<lambda>f. case stat f p of
     Some (File c) \<Rightarrow> Inr c | None \<Rightarrow> Inl not_found | Some _ \<Rightarrow> Inl is_a_directory)"
  unfolding read_file_def by (rule reading_query)

lemma reading_cong: "reading m q \<Longrightarrow> (\<And>f. q f = p f) \<Longrightarrow> reading m p"
  by (simp add: reading_def)

lemma reading_asking [readings]: "reading (asking q) (\<lambda>f. Inr (q f))"
  unfolding asking_def by (rule reading_cong, (rule readings)+) simp

lemma reading_is_file [readings]: "reading (is_file p) (\<lambda>f. Inr (is_file_node (stat f p)))"
  unfolding is_file_def by (rule reading_asking)

lemma reading_find_file [readings]:
  "reading (find_file ps) (\<lambda>f. Inr (List.find (\<lambda>p. is_file_node (stat f p)) ps))"
proof (induction ps)
  case (Cons p ps)
  have "reading (find_file (p # ps)) (\<lambda>f. and_then (Inr (is_file_node (stat f p))) (\<lambda>b.
      if b then Inr (Some p) else Inr (List.find (\<lambda>p. is_file_node (stat f p)) ps)))"
    unfolding find_file.simps by (rule readings Cons)+
  then show ?case by (rule reading_cong) simp
qed (simp add: readings)

definition file_text :: "fs \<Rightarrow> path \<Rightarrow> string option" where
  "file_text f p = (case stat f p of Some (File c) \<Rightarrow> Some c | _ \<Rightarrow> None)"

lemma is_file_text: "is_file_node (stat f p) \<longleftrightarrow> file_text f p \<noteq> None"
  by (auto simp: is_file_node_def file_text_def split: option.splits node.splits)

lemma read_text: "(case stat f p of Some (File c) \<Rightarrow> Inr c | None \<Rightarrow> Inl not_found | Some _ \<Rightarrow> Inl is_a_directory) = Inr c
    \<longleftrightarrow> file_text f p = Some c"
  by (auto simp: file_text_def split: option.splits node.splits)

text \<open>The definition of an app: the first file of its name, and its override over it.\<close>

definition definition_file :: "host \<Rightarrow> fs \<Rightarrow> string \<Rightarrow> path option" where
  "definition_file h f n = List.find (\<lambda>p. file_text f p \<noteq> None)
     (map (\<lambda>d. d @ [Normal (take 1 n), Normal (toml_name n)]) (search_dirs h))"

definition override_text :: "host \<Rightarrow> fs \<Rightarrow> string \<Rightarrow> string option" where
  "override_text h f n = Option.bind (config_dir h) (\<lambda>d.
     file_text f (d @ [Normal ''climate'', Normal ''overrides'', Normal (take 1 n), Normal (toml_name n)]))"

definition stated :: "libs \<Rightarrow> host \<Rightarrow> fs \<Rightarrow> string \<Rightarrow> table \<Rightarrow> bool" where
  "stated L h f n raw \<longleftrightarrow> (\<exists>p txt base. definition_file h f n = Some p \<and> file_text f p = Some txt \<and>
     toml_of L txt = Inr base \<and>
     (case override_text h f n of
        None \<Rightarrow> raw = base
      | Some otxt \<Rightarrow> \<exists>over. toml_of L otxt = Inr over \<and> raw = merge base over))"

definition acceptable :: "libs \<Rightarrow> seacomb \<Rightarrow> string \<Rightarrow> table \<Rightarrow> app_config \<Rightarrow> bool" where
  "acceptable L S n raw cfg \<longleftrightarrow> app_config_of (capability_of L) raw = Inr cfg \<and> name (app cfg) = n \<and>
     description (app cfg) \<noteq> [] \<and> license (app cfg) \<noteq> [] \<and> check_syscall_names S (run cfg) = Inr ()"

lemma check_app_Inr: "check_app S n origin cfg = Inr u \<longleftrightarrow>
    name (app cfg) = n \<and> description (app cfg) \<noteq> [] \<and> license (app cfg) \<noteq> [] \<and> check_syscall_names S (run cfg) = Inr ()"
  by (auto simp: check_app_def)

lemma validate_Inr: "validate_app_name n = Inr u \<longleftrightarrow> valid_name n"
  by (simp add: validate_app_name_def)

lemma override_path:
  "valid_name n \<Longrightarrow> definition_path (join_str (join_str d ''climate'') ''overrides'') n =
     d @ [Normal ''climate'', Normal ''overrides'', Normal (take 1 n), Normal (toml_name n)]"
  by (simp add: definition_path_valid join_plain plain_name_def)

definition text_at :: "fs \<Rightarrow> path \<Rightarrow> string res" where
  "text_at f p = (case stat f p of
     Some (File c) \<Rightarrow> Inr c | None \<Rightarrow> Inl not_found | Some _ \<Rightarrow> Inl is_a_directory)"

lemma reading_text [readings]: "reading (read_file p) (\<lambda>f. text_at f p)"
  unfolding text_at_def by (rule reading_file)

lemma text_at_Inr [simp]: "text_at f p = Inr c \<longleftrightarrow> file_text f p = Some c"
  unfolding text_at_def by (rule read_text)

definition app_text :: "host \<Rightarrow> fs \<Rightarrow> string \<Rightarrow> (path \<times> string) res" where
  "app_text h f n =
     and_then (validate_app_name n) (\<lambda>_.
     and_then (option_context (''unknown app '' @ quoted n)
       (List.find (\<lambda>p. is_file_node (stat f p)) (map (\<lambda>dir. definition_path dir n) (search_dirs h)))) (\<lambda>p.
     and_then (with_context (''reading '' @ path_str p) (text_at f p)) (\<lambda>txt. Inr (p, txt))))"

lemma reading_read_app: "reading (read_app h n) (\<lambda>f. app_text h f n)"
  unfolding read_app_def
  by (rule reading_cong, (rule reading_bind readings)+) (simp add: app_text_def)

definition over_text :: "host \<Rightarrow> fs \<Rightarrow> string \<Rightarrow> (path \<times> string) option res" where
  "over_text h f n = (case config_dir h of
     None \<Rightarrow> Inr None
   | Some d \<Rightarrow>
       (let p = definition_path (join_str (join_str d ''climate'') ''overrides'') n in
        if \<not> is_file_node (stat f p) then Inr None
        else and_then (with_context (''reading '' @ path_str p) (text_at f p)) (\<lambda>txt. Inr (Some (p, txt)))))"

lemma reading_read_override: "reading (read_override h n) (\<lambda>f. over_text h f n)"
  unfolding read_override_def Let_def
  by (rule reading_cong, (rule readings)+) (simp add: over_text_def Let_def split: option.splits)

definition loaded :: "libs \<Rightarrow> seacomb \<Rightarrow> host \<Rightarrow> fs \<Rightarrow> string \<Rightarrow> (app_config \<times> table) res" where
  "loaded L S h f n =
     and_then (app_text h f n) (\<lambda>(p, txt).
     and_then (with_context (''parsing '' @ path_str p) (toml_of L txt)) (\<lambda>raw.
     and_then (over_text h f n) (\<lambda>over.
     and_then (case over of
         None \<Rightarrow> and_then (parse_app L (path_str p) raw) (\<lambda>cfg. Inr (cfg, path_str p, raw))
       | Some (op, otxt) \<Rightarrow>
           and_then (with_context (''parsing '' @ path_str op) (toml_of L otxt)) (\<lambda>over.
           and_then (parse_app L (path_str p @ '' with '' @ path_str op) (merge raw over))
             (\<lambda>cfg. Inr (cfg, path_str p @ '' with '' @ path_str op, merge raw over)))) (\<lambda>(cfg, origin, raw).
     and_then (check_app S n origin cfg) (\<lambda>_. Inr (cfg, raw))))))"

lemma reading_load_with_raw: "reading (load_with_raw L S h n) (\<lambda>f. loaded L S h f n)"
  unfolding load_with_raw_def loaded_def Let_def
  by (rule readings reading_read_app reading_read_override)+

lemma app_text_Inr:
  "app_text h f n = Inr (p, txt) \<longleftrightarrow> valid_name n \<and> definition_file h f n = Some p \<and> file_text f p = Some txt"
proof (cases "valid_name n")
  case True
  then have "map (\<lambda>dir. definition_path dir n) (search_dirs h) =
      map (\<lambda>d. d @ [Normal (take 1 n), Normal (toml_name n)]) (search_dirs h)"
    by (simp add: definition_path_valid)
  note eq = this
  show ?thesis
    unfolding app_text_def definition_file_def eq is_file_text using True
    by (auto simp: and_then_Inr_iff validate_Inr)
qed (auto simp: app_text_def and_then_Inr_iff validate_Inr)

lemma over_text_Inr:
  assumes "valid_name n"
  shows "over_text h f n = Inr ov \<longleftrightarrow> (case ov of None \<Rightarrow> override_text h f n = None
    | Some (op, otxt) \<Rightarrow> override_text h f n = Some otxt \<and>
        op = definition_path (join_str (join_str (the (config_dir h)) ''climate'') ''overrides'') n)"
  using override_path [OF assms]
  by (cases "config_dir h")
    (auto simp: over_text_def override_text_def Let_def is_file_text and_then_Inr_iff split: option.splits)

lemma loaded_Inr:
  "loaded L S h f n = Inr (cfg, raw) \<longleftrightarrow> valid_name n \<and> stated L h f n raw \<and> acceptable L S n raw cfg"
proof
  assume "loaded L S h f n = Inr (cfg, raw)"
  then show "valid_name n \<and> stated L h f n raw \<and> acceptable L S n raw cfg"
    by (auto simp: loaded_def and_then_Inr_iff app_text_Inr over_text_Inr parse_app_def check_app_Inr
        stated_def acceptable_def split: option.splits)
next
  assume *: "valid_name n \<and> stated L h f n raw \<and> acceptable L S n raw cfg"
  then obtain p ct base where p: "app_text h f n = Inr (p, ct)" and base: "toml_of L ct = Inr base"
    and ov: "case override_text h f n of None \<Rightarrow> raw = base
      | Some otxt \<Rightarrow> \<exists>over. toml_of L otxt = Inr over \<and> raw = merge base over"
    by (auto simp: stated_def app_text_Inr)
  have ok: "parse_app L origin raw = Inr cfg" "check_app S n origin cfg = Inr ()" for origin
    using * by (simp_all add: acceptable_def parse_app_def check_app_Inr)
  show "loaded L S h f n = Inr (cfg, raw)"
  proof (cases "override_text h f n")
    case None
    then have "over_text h f n = Inr None" using * by (simp add: over_text_Inr)
    with None ov p base ok show ?thesis by (simp add: loaded_def)
  next
    case (Some otxt)
    then obtain q where "over_text h f n = Inr (Some (q, otxt))" using * by (simp add: over_text_Inr)
    with Some ov p base ok show ?thesis by (auto simp: loaded_def)
  qed
qed

text \<open>C14: Reading an app changes no file, and gives exactly what the abstract reading gives: a name
  that cannot leave the search directories, the table of the first search directory that holds the
  name's file with the override, if there is one, merged over it, and the struct of that table, which
  must carry the name, a description and a license and add only syscalls the policy library knows.\<close>

theorem load_exact:
  assumes "no_faults w"
  shows "fs (snd (load_with_raw L S h n w)) = fs w \<and>
    ((\<exists>t. load_with_raw L S h n w = (Inr (cfg, raw), t)) \<longleftrightarrow>
      valid_name n \<and> stated L h (fs w) n raw \<and> acceptable L S n raw cfg)"
proof -
  obtain t where "load_with_raw L S h n w = (loaded L S h (fs w) n, t)" "fs t = fs w"
    using readingD [OF reading_load_with_raw assms] by blast
  then show ?thesis by (simp add: loaded_Inr)
qed

text \<open>A definition of the app \<open>x\<close>, and an override that opens its network.\<close>

definition demo_apps_host :: host where
  "demo_apps_host = demo_host\<lparr>env_var := (\<lambda>_. None), config_dir := Some [RootDir, Normal ''c''], data_dir := None\<rparr>"

definition demo_table_of :: "string \<Rightarrow> table res" where
  "demo_table_of txt =
     (if txt = ''base'' then Inr [(''app'', TTable [(''name'', TString ''x''), (''description'', TString ''d''),
          (''license'', TString ''l'')]), (''image'', TTable [(''reference'', TString ''r'')])]
      else Inr [(''run'', TTable [(''network'', TString ''full'')])])"

definition demo_app_path :: path where
  "demo_app_path = [RootDir, Normal ''c'', Normal ''climate'', Normal ''apps'', Normal ''x'', Normal ''x.toml'']"

definition demo_override_path :: path where
  "demo_override_path =
     [RootDir, Normal ''c'', Normal ''climate'', Normal ''overrides'', Normal ''x'', Normal ''x.toml'']"

definition demo_apps_fs :: fs where
  "demo_apps_fs = [(demo_app_path, File ''base''), (demo_override_path, File ''over'')]"

definition demo_read_libs :: libs where
  "demo_read_libs = demo_libs\<lparr>toml_of := demo_table_of, capability_of := (\<lambda>_. None)\<rparr>"

definition demo_loaded :: app_config where
  "demo_loaded = \<lparr>app = \<lparr>name = ''x'', description = ''d'', license = ''l''\<rparr>,
     image_cfg = \<lparr>reference = ''r'', pull = True, install = None\<rparr>,
     run = run_default\<lparr>network := Net_Full\<rparr>, limits = limits_default\<rparr>"

definition demo_raw :: table where
  "demo_raw = [(''app'', TTable [(''name'', TString ''x''), (''description'', TString ''d''),
      (''license'', TString ''l'')]), (''image'', TTable [(''reference'', TString ''r'')]),
      (''run'', TTable [(''network'', TString ''full'')])]"

lemma demo_stated:
  assumes "toml_of L ''base'' = demo_table_of ''base''" "toml_of L ''over'' = demo_table_of ''over''"
    and stat: "stat f demo_app_path = Some (File ''base'')" "stat f demo_override_path = Some (File ''over'')"
  shows "stated L demo_apps_host f ''x'' demo_raw"
proof -
  have dirs: "search_dirs demo_apps_host = [[RootDir, Normal ''c'', Normal ''climate'', Normal ''apps''], path_of SYSTEM_DIR]"
    by (simp add: search_dirs_def demo_apps_host_def demo_host_def join_plain plain_name_def)
  have "definition_file demo_apps_host f ''x'' = Some demo_app_path"
    using stat(1) by (simp add: definition_file_def dirs file_text_def toml_name_def demo_app_path_def)
  moreover have "override_text demo_apps_host f ''x'' = Some ''over''"
    using stat(2) by (simp add: override_text_def file_text_def demo_apps_host_def toml_name_def demo_override_path_def)
  moreover have "merge [(''app'', a), (''image'', i)] [(''run'', r)] = [(''app'', a), (''image'', i), (''run'', r)]" for a i r
    by (simp add: merge.simps)
  ultimately show ?thesis
    using stat(1) assms(1,2) by (simp add: stated_def file_text_def demo_table_of_def demo_raw_def)
qed

lemma demo_stat:
  "stat demo_apps_fs demo_app_path = Some (File ''base'')"
  "stat demo_apps_fs demo_override_path = Some (File ''over'')"
  by (simp_all add: stat_def follow.simps numeral_eq_Suc demo_apps_fs_def node_at_def demo_app_path_def demo_override_path_def)

lemma demo_acceptable: "acceptable L demo_seacomb ''x'' demo_raw demo_loaded"
  by (simp add: acceptable_def demo_raw_def app_config_of_def deny_unknown_def required_def defaulted_def
      app_meta_of_def image_config_of_def run_config_of_def run_keys_def de_network_def network_default_def
      demo_loaded_def run_default_def check_syscall_names_def)

lemma demo_valid: "valid_name ''x''"
  by (simp add: valid_name_def starts_with_def is_ascii_alphanumeric_def is_ascii_alphabetic_def is_ascii_lowercase_def)

lemma demo_load:
  assumes "toml_of L ''base'' = demo_table_of ''base''" "toml_of L ''over'' = demo_table_of ''over''"
  shows "\<exists>t. load_with_raw L demo_seacomb demo_apps_host ''x'' (demo_world demo_apps_fs) = (Inr (demo_loaded, demo_raw), t)"
proof -
  have w: "no_faults (demo_world demo_apps_fs)" "fs (demo_world demo_apps_fs) = demo_apps_fs"
    by (simp_all add: demo_world_def no_faults_def)
  have "loaded L demo_seacomb demo_apps_host demo_apps_fs ''x'' = Inr (demo_loaded, demo_raw)"
    using demo_stated [OF assms demo_stat] demo_acceptable demo_valid by (simp add: loaded_Inr)
  with readingD [OF reading_load_with_raw w(1)] w(2) show ?thesis by metis
qed

lemma load_exact_witness:
  "\<exists>t. load_with_raw demo_read_libs demo_seacomb demo_apps_host ''x'' (demo_world demo_apps_fs) =
    (Inr (demo_loaded, demo_raw), t)"
proof -
  note demo_valid
  moreover have "no_faults (demo_world demo_apps_fs)" "fs (demo_world demo_apps_fs) = demo_apps_fs"
    by (simp_all add: demo_world_def no_faults_def)
  ultimately show ?thesis
    using load_exact [of "demo_world demo_apps_fs" demo_read_libs demo_seacomb demo_apps_host "''x''" demo_loaded demo_raw]
      demo_stated [of demo_read_libs, OF _ _ demo_stat] demo_acceptable by (simp add: demo_read_libs_def)
qed

end
