(* ===== verification/Show.thy ===== *)
theory Show
  imports Apps
begin

text \<open>
  \<open>climate show\<close>, \<open>src/show.rs\<close>: an app's settings printed as the definition they come from. Printing
  one TOML value and the name of a capability are the libraries': \<open>value_str\<close> and \<open>capability_str\<close>.
  A document is described by its items, so that what is printed can be read back.
\<close>

record toml_printer =
  value_str :: "toml \<Rightarrow> string"
  capability_str :: "capability \<Rightarrow> string"

section \<open>Values\<close>

definition GRAY :: string where "GRAY = CHR 0x1B # ''[90m''"
definition RESET :: string where "RESET = CHR 0x1B # ''[0m''"

definition strings_value :: "string list \<Rightarrow> toml" where
  "strings_value ss = TArray (map TString ss)"

definition entrypoint_value :: "entrypoint \<Rightarrow> toml" where
  "entrypoint_value e = (case e of Entry_String program \<Rightarrow> TString program | Entry_List argv \<Rightarrow> strings_value argv)"

definition network_value :: "network \<Rightarrow> toml" where
  "network_value n = TString (case n of
     Net_Full \<Rightarrow> ''full'' | Net_None \<Rightarrow> ''none'' | Net_Localhost \<Rightarrow> ''localhost'' | Net_Localnet \<Rightarrow> ''localnet'')"

definition quotes3 :: string where "quotes3 = replicate 3 (CHR 0x27)"

fun contains_str :: "string \<Rightarrow> string \<Rightarrow> bool" where
  "contains_str pat [] = (pat = [])"
| "contains_str pat (c # cs) = (starts_with pat (c # cs) \<or> contains_str pat cs)"

definition as_literal :: "string \<Rightarrow> bool" where
  "as_literal script \<longleftrightarrow> newline \<in> set script \<and> \<not> contains_str quotes3 script"

definition script_value :: "toml_printer \<Rightarrow> string \<Rightarrow> string" where
  "script_value T script =
     (if as_literal script then quotes3 @ [newline] @ script @ quotes3 else value_str T (TString script))"

definition capabilities_value :: "toml_printer \<Rightarrow> capability list \<Rightarrow> toml" where
  "capabilities_value T cs = strings_value (map (capability_str T) cs)"

section \<open>Printing\<close>

record printer =
  color :: bool
  defaults :: bool

definition print_defaulted :: "printer \<Rightarrow> string \<Rightarrow> unit io" (* Printer::defaulted *) where
  "print_defaulted P line =
     (if \<not> defaults P then returnM ()
      else if color P then println (GRAY @ line @ RESET) else println line)"

definition key_line :: "string \<Rightarrow> string \<Rightarrow> string" where
  "key_line key val = key @ '' = '' @ val"

definition print_key :: "toml_printer \<Rightarrow> printer \<Rightarrow> string \<Rightarrow> toml \<Rightarrow> bool \<Rightarrow> unit io" (* Printer::key *) where
  "print_key T P key val dflt =
     (let line = key_line key (value_str T val)
      in if dflt then print_defaulted P line else println line)"

definition unset_note :: "string \<Rightarrow> string \<Rightarrow> string" where
  "unset_note key note = key @ '' is unset: '' @ note"

definition print_limit :: "toml_printer \<Rightarrow> printer \<Rightarrow> string \<Rightarrow> toml option \<Rightarrow> string \<Rightarrow> unit io" (* Printer::limit *) where
  "print_limit T P key val note =
     (case val of
        Some v \<Rightarrow> print_key T P key v False
      | None \<Rightarrow> print_defaulted P (''# '' @ unset_note key note))"

definition raw_table :: "table \<Rightarrow> string \<Rightarrow> table option" where
  "raw_table raw n = (case map_of raw n of Some (TTable t) \<Rightarrow> Some t | _ \<Rightarrow> None)"

definition absent :: "table \<Rightarrow> string \<Rightarrow> string \<Rightarrow> bool" where
  "absent raw n key \<longleftrightarrow> \<not> (case raw_table raw n of None \<Rightarrow> False | Some t \<Rightarrow> map_of t key \<noteq> None)"

definition has_keys :: "table \<Rightarrow> string \<Rightarrow> bool" where
  "has_keys raw n \<longleftrightarrow> (case raw_table raw n of None \<Rightarrow> False | Some t \<Rightarrow> t \<noteq> [])"

text \<open>The four sections, in the order of the source.\<close>

definition show_app :: "toml_printer \<Rightarrow> printer \<Rightarrow> app_meta \<Rightarrow> unit io" where
  "show_app T P a =
     bindM (println ''[app]'') (\<lambda>_.
     bindM (print_key T P ''name'' (TString (name a)) False) (\<lambda>_.
     bindM (print_key T P ''description'' (TString (description a)) False) (\<lambda>_.
     print_key T P ''license'' (TString (license a)) False)))"

definition show_image :: "toml_printer \<Rightarrow> printer \<Rightarrow> table \<Rightarrow> image_config \<Rightarrow> unit io" where
  "show_image T P raw i =
     bindM (println (newline # ''[image]'')) (\<lambda>_.
     bindM (print_key T P ''reference'' (TString (reference i)) False) (\<lambda>_.
     bindM (print_key T P ''pull'' (TBoolean (pull i)) (absent raw ''image'' ''pull'')) (\<lambda>_.
     case install i of
       Some script \<Rightarrow> println (key_line ''install'' (script_value T script))
     | None \<Rightarrow> print_defaulted P (''# '' @ unset_note ''install'' ''the image runs as pulled''))))"

definition show_run :: "toml_printer \<Rightarrow> printer \<Rightarrow> table \<Rightarrow> run_config \<Rightarrow> unit io" where
  "show_run T P raw r =
     bindM (whenM (defaults P \<or> has_keys raw ''run'') (println (newline # ''[run]''))) (\<lambda>_.
     bindM (case entrypoint r of
         Some e \<Rightarrow> print_key T P ''entrypoint'' (entrypoint_value e) False
       | None \<Rightarrow> print_defaulted P (''# '' @ unset_note ''entrypoint'' ''the image's own entrypoint runs'')) (\<lambda>_.
     bindM (print_key T P ''args'' (strings_value (args r)) (absent raw ''run'' ''args'')) (\<lambda>_.
     bindM (print_key T P ''env'' (strings_value (env r)) (absent raw ''run'' ''env'')) (\<lambda>_.
     bindM (print_key T P ''mount-cwd'' (TBoolean (mount_cwd r)) (absent raw ''run'' ''mount-cwd'')) (\<lambda>_.
     bindM (print_key T P ''mount'' (strings_value (mount r)) (absent raw ''run'' ''mount'')) (\<lambda>_.
     bindM (print_key T P ''network'' (network_value (network r)) (absent raw ''run'' ''network'')) (\<lambda>_.
     bindM (print_key T P ''capabilities'' (capabilities_value T (capabilities r)) (absent raw ''run'' ''capabilities'')) (\<lambda>_.
     bindM (print_key T P ''seccomp-allow'' (strings_value (seccomp_allow r)) (absent raw ''run'' ''seccomp-allow'')) (\<lambda>_.
     print_key T P ''seccomp-deny'' (strings_value (seccomp_deny r)) (absent raw ''run'' ''seccomp-deny''))))))))))"

definition show_limits :: "toml_printer \<Rightarrow> printer \<Rightarrow> table \<Rightarrow> limits_config \<Rightarrow> unit io" where
  "show_limits T P raw l =
     bindM (whenM (defaults P \<or> has_keys raw ''limits'') (println (newline # ''[limits]''))) (\<lambda>_.
     bindM (print_limit T P ''memory'' (map_option TString (memory l)) ''the app may use as much memory as it likes'') (\<lambda>_.
     bindM (print_limit T P ''swap'' (map_option TString (swap l)) ''the app may swap as much as it likes'') (\<lambda>_.
     bindM (print_limit T P ''memory-high'' (map_option TString (memory_high l))
              ''the app is never throttled, only killed at the memory limit'') (\<lambda>_.
     bindM (print_limit T P ''cpu'' (map_option TFloat (cpu l)) ''the app may use every core'') (\<lambda>_.
     bindM (print_limit T P ''cpu-shares'' (map_option TInteger (cpu_shares l))
              ''the app competes for the CPU on equal terms'') (\<lambda>_.
     print_limit T P ''pids'' (map_option TInteger (pids l)) ''the app may start as many processes as it likes''))))))"

definition show_settings :: "toml_printer \<Rightarrow> printer \<Rightarrow> app_config \<Rightarrow> table \<Rightarrow> unit io" where
  "show_settings T P cfg raw =
     bindM (show_app T P (app cfg)) (\<lambda>_.
     bindM (show_image T P raw (image_cfg cfg)) (\<lambda>_.
     bindM (show_run T P raw (run cfg)) (\<lambda>_.
     show_limits T P raw (limits cfg))))"

definition show_command ::
  "toml_printer \<Rightarrow> libs \<Rightarrow> seacomb \<Rightarrow> host \<Rightarrow> bool \<Rightarrow> string \<Rightarrow> bool \<Rightarrow> unit io" (* show::show *) where
  "show_command T L S h terminal n dflts =
     bindM (load_with_raw L S h n) (\<lambda>(cfg, raw).
     show_settings T \<lparr>color = terminal, defaults = dflts\<rparr> cfg raw)"

section \<open>Documents\<close>

datatype item = Blank | Remark string | Header string | Setting string toml | Literal string string

fun item_text :: "toml_printer \<Rightarrow> item \<Rightarrow> string" where
  "item_text T Blank = []"
| "item_text T (Remark r) = ''# '' @ r"
| "item_text T (Header s) = ''['' @ s @ '']''"
| "item_text T (Setting k v) = key_line k (value_str T v)"
| "item_text T (Literal k s) = key_line k (quotes3 @ [newline] @ s @ quotes3)"

definition out_text :: "string list \<Rightarrow> string" where
  "out_text ls = concat (map (\<lambda>l. l @ [newline]) ls)"

definition doc_text :: "toml_printer \<Rightarrow> item list \<Rightarrow> string" where
  "doc_text T is = out_text (map (item_text T) is)"

text \<open>What a document says: the keys before the first header, and the tables.\<close>

fun doc_parts :: "item list \<Rightarrow> table \<times> table" where
  "doc_parts [] = ([], [])"
| "doc_parts (i # is) =
     (case doc_parts is of (es, ts) \<Rightarrow>
       (case i of
          Header s \<Rightarrow> ([], (s, TTable es) # ts)
        | Setting k v \<Rightarrow> ((k, v) # es, ts)
        | Literal k s \<Rightarrow> ((k, TString s) # es, ts)
        | _ \<Rightarrow> (es, ts)))"

definition doc_table :: "item list \<Rightarrow> table" where
  "doc_table is = fst (doc_parts is) @ snd (doc_parts is)"

section \<open>What is printed\<close>

text \<open>\<open>prints T m is\<close>: \<open>m\<close> does nothing but print the document \<open>is\<close>.\<close>

definition prints :: "toml_printer \<Rightarrow> unit io \<Rightarrow> item list \<Rightarrow> bool" where
  "prints T m is \<longleftrightarrow>
     (\<forall>w. \<exists>ls. m w = (Inr (), w\<lparr>stdout := stdout w @ ls\<rparr>) \<and> out_text ls = doc_text T is)"

named_theorems printing \<open>what is printed\<close>

lemma out_text_simps [simp]: "out_text [] = []" "out_text (l # ls) = l @ newline # out_text ls"
  "out_text (ls @ ks) = out_text ls @ out_text ks"
  by (simp_all add: out_text_def)

lemma doc_text_simps [simp]: "doc_text T [] = []" "doc_text T (i # is) = item_text T i @ newline # doc_text T is"
  "doc_text T (is @ js) = doc_text T is @ doc_text T js"
  by (simp_all add: doc_text_def)

lemma prints_println: "out_text [l] = doc_text T is \<Longrightarrow> prints T (println l) is"
  unfolding prints_def println_def by (intro allI exI [of _ "[l]"]) simp

lemma prints_return [printing]: "prints T (returnM ()) []"
  unfolding prints_def script_simps by (intro allI exI [of _ "[]"]) simp

lemma prints_bind [printing]:
  assumes "prints T m is" "\<And>u. prints T (k u) js"
  shows "prints T (bindM m k) (is @ js)"
  unfolding prints_def
proof
  fix w
  obtain ls where 1: "m w = (Inr (), w\<lparr>stdout := stdout w @ ls\<rparr>)" "out_text ls = doc_text T is"
    using assms(1) by (auto simp: prints_def)
  obtain ks where 2: "k () (w\<lparr>stdout := stdout w @ ls\<rparr>) = (Inr (), w\<lparr>stdout := stdout w @ ls @ ks\<rparr>)"
    "out_text ks = doc_text T js"
    using assms(2) [of "()", unfolded prints_def, rule_format, of "w\<lparr>stdout := stdout w @ ls\<rparr>"] by auto
  show "\<exists>ls. bindM m k w = (Inr (), w\<lparr>stdout := stdout w @ ls\<rparr>) \<and> out_text ls = doc_text T (is @ js)"
    using 1 2 by (intro exI [of _ "ls @ ks"]) (simp add: bindM_def)
qed

lemma prints_key [printing]:
  "\<not> color P \<Longrightarrow> prints T (print_key T P k v d) (if d \<and> \<not> defaults P then [] else [Setting k v])"
  by (auto simp: print_key_def print_defaulted_def Let_def intro!: prints_println prints_return)

lemma prints_noted:
  "\<not> color P \<Longrightarrow> prints T (print_defaulted P (''# '' @ note)) (if defaults P then [Remark note] else [])"
  by (auto simp: print_defaulted_def intro!: prints_println prints_return)

lemma prints_limit [printing]:
  "\<not> color P \<Longrightarrow> prints T (print_limit T P k v note)
     (case v of Some v \<Rightarrow> [Setting k v] | None \<Rightarrow> if defaults P then [Remark (unset_note k note)] else [])"
  using prints_key [of P T k _ False] prints_noted [of P T]
  by (cases v) (auto simp: print_limit_def)

lemma prints_header [printing]:
  "prints T (println (newline # ''['' @ n @ '']'')) [Blank, Header n]"
  by (rule prints_println) simp

lemma prints_when [printing]: "prints T m is \<Longrightarrow> prints T (whenM b m) (if b then is else [])"
  by (simp add: prints_return)

lemma prints_script [printing]:
  "prints T (println (key_line k (script_value T s))) [if as_literal s then Literal k s else Setting k (TString s)]"
  by (rule prints_println) (simp add: script_value_def)

text \<open>The items of a section: each key with the value it is printed with, if it is printed.\<close>

definition keyed :: "printer \<Rightarrow> bool \<Rightarrow> string \<Rightarrow> toml \<Rightarrow> item list" where
  "keyed P d k v = (if d \<and> \<not> defaults P then [] else [Setting k v])"

definition noted :: "printer \<Rightarrow> string \<Rightarrow> toml option \<Rightarrow> string \<Rightarrow> item list" where
  "noted P k v note =
     (case v of Some v \<Rightarrow> [Setting k v] | None \<Rightarrow> if defaults P then [Remark (unset_note k note)] else [])"

definition app_items :: "app_meta \<Rightarrow> item list" where
  "app_items a = [Setting ''name'' (TString (name a)), Setting ''description'' (TString (description a)),
     Setting ''license'' (TString (license a))]"

definition image_items :: "printer \<Rightarrow> table \<Rightarrow> image_config \<Rightarrow> item list" where
  "image_items P raw i =
     Setting ''reference'' (TString (reference i)) # keyed P (absent raw ''image'' ''pull'') ''pull'' (TBoolean (pull i))
     @ (case install i of
          Some s \<Rightarrow> [if as_literal s then Literal ''install'' s else Setting ''install'' (TString s)]
        | None \<Rightarrow> if defaults P then [Remark (unset_note ''install'' ''the image runs as pulled'')] else [])"

definition run_items :: "toml_printer \<Rightarrow> printer \<Rightarrow> table \<Rightarrow> run_config \<Rightarrow> item list" where
  "run_items T P raw r =
     noted P ''entrypoint'' (map_option entrypoint_value (entrypoint r)) ''the image's own entrypoint runs''
     @ keyed P (absent raw ''run'' ''args'') ''args'' (strings_value (args r))
     @ keyed P (absent raw ''run'' ''env'') ''env'' (strings_value (env r))
     @ keyed P (absent raw ''run'' ''mount-cwd'') ''mount-cwd'' (TBoolean (mount_cwd r))
     @ keyed P (absent raw ''run'' ''mount'') ''mount'' (strings_value (mount r))
     @ keyed P (absent raw ''run'' ''network'') ''network'' (network_value (network r))
     @ keyed P (absent raw ''run'' ''capabilities'') ''capabilities'' (capabilities_value T (capabilities r))
     @ keyed P (absent raw ''run'' ''seccomp-allow'') ''seccomp-allow'' (strings_value (seccomp_allow r))
     @ keyed P (absent raw ''run'' ''seccomp-deny'') ''seccomp-deny'' (strings_value (seccomp_deny r))"

definition limits_items :: "printer \<Rightarrow> limits_config \<Rightarrow> item list" where
  "limits_items P l =
     noted P ''memory'' (map_option TString (memory l)) ''the app may use as much memory as it likes''
     @ noted P ''swap'' (map_option TString (swap l)) ''the app may swap as much as it likes''
     @ noted P ''memory-high'' (map_option TString (memory_high l))
         ''the app is never throttled, only killed at the memory limit''
     @ noted P ''cpu'' (map_option TFloat (cpu l)) ''the app may use every core''
     @ noted P ''cpu-shares'' (map_option TInteger (cpu_shares l)) ''the app competes for the CPU on equal terms''
     @ noted P ''pids'' (map_option TInteger (pids l)) ''the app may start as many processes as it likes''"

definition headed :: "printer \<Rightarrow> table \<Rightarrow> string \<Rightarrow> item list" where
  "headed P raw n = (if defaults P \<or> has_keys raw n then [Blank, Header n] else [])"

definition shown_items :: "toml_printer \<Rightarrow> printer \<Rightarrow> app_config \<Rightarrow> table \<Rightarrow> item list" where
  "shown_items T P cfg raw =
     (Header ''app'' # app_items (app cfg)) @ (Blank # Header ''image'' # image_items P raw (image_cfg cfg))
     @ (headed P raw ''run'' @ run_items T P raw (run cfg))
     @ (headed P raw ''limits'' @ limits_items P (limits cfg))"

lemma prints_cong: "prints T m is \<Longrightarrow> is = js \<Longrightarrow> prints T m js" by simp

lemma prints_keyed: "\<not> color P \<Longrightarrow> prints T (print_key T P k v d) (keyed P d k v)"
  using prints_key by (simp add: keyed_def)

lemma prints_stated: "\<not> color P \<Longrightarrow> prints T (print_key T P k v False) [Setting k v]"
  using prints_key [of P T k v False] by simp

lemma prints_limited: "\<not> color P \<Longrightarrow> prints T (print_limit T P k v note) (noted P k v note)"
  using prints_limit by (simp add: noted_def)

lemma prints_entrypoint:
  "\<not> color P \<Longrightarrow> prints T (case e of Some e \<Rightarrow> print_key T P k (f e) False
      | None \<Rightarrow> print_defaulted P (''# '' @ unset_note k note)) (noted P k (map_option f e) note)"
  using prints_stated prints_noted by (cases e) (simp_all add: noted_def)

lemma prints_headed:
  "prints T (whenM (defaults P \<or> has_keys raw n) (println (newline # ''['' @ n @ '']''))) (headed P raw n)"
  using prints_when [OF prints_header] by (simp add: headed_def)

lemma prints_settings:
  assumes "\<not> color P"
  shows "prints T (show_settings T P cfg raw) (shown_items T P cfg raw)"
proof -
  have "prints T (show_app T P a) (Header ''app'' # app_items a)" for a
  proof -
    have "prints T (println ''[app]'') [Header ''app'']" by (rule prints_println) simp
    then have "prints T (show_app T P a) ([Header ''app''] @ [Setting ''name'' (TString (name a))]
        @ [Setting ''description'' (TString (description a))] @ [Setting ''license'' (TString (license a))])"
      unfolding show_app_def by (intro prints_bind prints_stated assms)
    then show ?thesis by (simp add: app_items_def)
  qed
  moreover have "prints T (show_image T P raw i) (Blank # Header ''image'' # image_items P raw i)" for i
  proof -
    have "prints T (case install i of Some script \<Rightarrow> println (key_line ''install'' (script_value T script))
        | None \<Rightarrow> print_defaulted P (''# '' @ unset_note ''install'' ''the image runs as pulled''))
      (case install i of
          Some s \<Rightarrow> [if as_literal s then Literal ''install'' s else Setting ''install'' (TString s)]
        | None \<Rightarrow> if defaults P then [Remark (unset_note ''install'' ''the image runs as pulled'')] else [])"
      (is "prints T _ ?js")
      using prints_script prints_noted [OF assms] by (cases "install i") simp_all
    moreover have "prints T (println (newline # ''[image]'')) [Blank, Header ''image'']"
      by (rule prints_println) simp
    ultimately have "prints T (show_image T P raw i) ([Blank, Header ''image''] @ [Setting ''reference'' (TString (reference i))]
        @ keyed P (absent raw ''image'' ''pull'') ''pull'' (TBoolean (pull i)) @ ?js)"
      unfolding show_image_def by (intro prints_bind prints_stated prints_keyed assms)
    then show ?thesis by (simp add: image_items_def)
  qed
  moreover have "prints T (show_run T P raw r) (headed P raw ''run'' @ run_items T P raw r)" for r
    using prints_headed [of T P raw "''run''"] unfolding show_run_def run_items_def
    by (intro prints_bind prints_keyed prints_entrypoint assms) simp_all
  moreover have "prints T (show_limits T P raw l) (headed P raw ''limits'' @ limits_items P l)" for l
    using prints_headed [of T P raw "''limits''"] unfolding show_limits_def limits_items_def
    by (intro prints_bind prints_limited assms) simp_all
  ultimately show ?thesis unfolding show_settings_def shown_items_def by (intro prints_bind)
qed

section \<open>Reading it back\<close>

fun pair_of :: "item \<Rightarrow> (string \<times> toml) option" where
  "pair_of (Setting k v) = Some (k, v)"
| "pair_of (Literal k s) = Some (k, TString s)"
| "pair_of _ = None"

definition pairs :: "item list \<Rightarrow> table" where
  "pairs is = filter_map pair_of is"

fun is_header :: "item \<Rightarrow> bool" where
  "is_header (Header s) = True"
| "is_header _ = False"

abbreviation headless :: "item list \<Rightarrow> bool" where
  "headless \<equiv> list_all (\<lambda>i. \<not> is_header i)"

lemma pairs_simps [simp]: "pairs [] = []" "pairs (is @ js) = pairs is @ pairs js"
  "pairs (i # is) = (case pair_of i of None \<Rightarrow> pairs is | Some kv \<Rightarrow> kv # pairs is)"
  by (simp_all add: pairs_def split: option.splits)

lemma doc_parts_append:
  "headless is \<Longrightarrow> doc_parts (is @ js) = (pairs is @ fst (doc_parts js), snd (doc_parts js))"
  by (induction "is") (auto split: item.splits prod.splits)

lemma doc_parts_section:
  assumes "headless is" "fst (doc_parts js) = []"
  shows "doc_parts (Header n # is @ js) = ([], (n, TTable (pairs is)) # snd (doc_parts js))"
  using assms by (simp add: doc_parts_append)

lemma doc_parts_headed:
  assumes "headless is" "fst (doc_parts js) = []" "\<not> defaults P \<Longrightarrow> \<not> has_keys raw n \<Longrightarrow> pairs is = []"
  shows "doc_parts (headed P raw n @ is @ js) =
    ([], (if defaults P \<or> has_keys raw n then [(n, TTable (pairs is))] else []) @ snd (doc_parts js))"
  using assms by (auto simp: headed_def doc_parts_append)

lemma headless_keyed [simp]: "headless (keyed P d k v)" "headless (noted P k ov note)"
  by (auto simp: keyed_def noted_def split: option.splits)

lemma pairs_keyed:
  "pairs (keyed P d k v) = (if d \<and> \<not> defaults P then [] else [(k, v)])"
  "pairs (noted P k ov note) = (case ov of None \<Rightarrow> [] | Some v \<Rightarrow> [(k, v)])"
  by (auto simp: keyed_def noted_def split: option.splits)

declare map_of_append [simp del]

lemma map_of_keyed [simp]:
  "map_of (pairs (keyed P d k v) @ es) k' = (if k = k' \<and> (d \<longrightarrow> defaults P) then Some v else map_of es k')"
  "map_of (pairs (keyed P d k v)) k' = (if k = k' \<and> (d \<longrightarrow> defaults P) then Some v else None)"
  "map_of (pairs (noted P k ov note) @ es) k' = (if k = k' \<and> ov \<noteq> None then ov else map_of es k')"
  "map_of (pairs (noted P k ov note)) k' = (if k = k' \<and> ov \<noteq> None then ov else None)"
  by (auto simp: pairs_keyed split: option.splits)

lemma distinct_keyed [simp]:
  "distinct (map fst (pairs (keyed P d k v) @ es)) \<longleftrightarrow>
     distinct (map fst es) \<and> ((d \<longrightarrow> defaults P) \<longrightarrow> map_of es k = None)"
  "distinct (map fst (pairs (keyed P d k v)))"
  "distinct (map fst (pairs (noted P k ov note) @ es)) \<longleftrightarrow>
     distinct (map fst es) \<and> (ov \<noteq> None \<longrightarrow> map_of es k = None)"
  "distinct (map fst (pairs (noted P k ov note)))"
  by (auto simp: pairs_keyed map_of_eq_None_iff split: option.splits)

lemma keys_keyed [simp]:
  "list_all Q (pairs (keyed P d k v)) \<longleftrightarrow> ((d \<longrightarrow> defaults P) \<longrightarrow> Q (k, v))"
  "list_all Q (pairs (noted P k ov note)) \<longleftrightarrow> (\<forall>v. ov = Some v \<longrightarrow> Q (k, v))"
  by (auto simp: pairs_keyed split: option.splits)

subsection \<open>Values\<close>

lemma de_strings_value [simp]: "de_strings (strings_value ss) = Inr ss"
  by (simp add: strings_value_def map_res_Inr_iff list_all2_map1 list.rel_eq list_all2_refl)

lemma de_entrypoint_value [simp]: "de_entrypoint (entrypoint_value e) = Inr e"
  by (cases e) (simp_all add: de_entrypoint_def entrypoint_value_def, simp add: strings_value_def
      flip: de_strings.simps, simp flip: strings_value_def)

lemma de_network_value [simp]: "de_network (network_value n) = Inr n"
  by (cases n) (simp_all add: de_network_def network_value_def)

lemma de_capabilities_value:
  "\<forall>c \<in> set cs. caps (capability_str T c) = Some c \<Longrightarrow> de_capabilities caps (capabilities_value T cs) = Inr cs"
  by (auto simp: de_capabilities_def capabilities_value_def map_res_Inr_iff list_all2_map1 list_all2_same)

lemma defaulted_printed:
  "map_of es k = (if b then Some v else None) \<Longrightarrow> f v = Inr x \<Longrightarrow> (\<not> b \<Longrightarrow> d = x) \<Longrightarrow> defaulted es k d f = Inr x"
  by (auto simp: defaulted_def)

lemma defaulted_stated:
  "map_of es k = ov \<Longrightarrow> (\<And>v. ov = Some v \<Longrightarrow> f v = Inr x) \<Longrightarrow> (ov = None \<Longrightarrow> d = x) \<Longrightarrow> defaulted es k d f = Inr x"
  by (auto simp: defaulted_def split: option.splits)

lemma defaulted_absent: "defaulted t k d f = Inr x \<Longrightarrow> map_of t k = None \<Longrightarrow> x = d"
  by (simp add: defaulted_def)

subsection \<open>Sections\<close>

lemma raw_app_config:
  assumes "app_config_of caps raw = Inr cfg"
  shows "\<exists>t. raw_table raw ''image'' = Some t \<and> image_config_of t = Inr (image_cfg cfg)"
    "case raw_table raw ''run'' of None \<Rightarrow> run cfg = run_default | Some t \<Rightarrow> run_config_of caps t = Inr (run cfg)"
    "case raw_table raw ''limits'' of None \<Rightarrow> limits cfg = limits_default | Some t \<Rightarrow> limits_config_of t = Inr (limits cfg)"
proof -
  have *: "de_table v = Inr t \<longleftrightarrow> v = TTable t" for v t
    by (cases v) auto
  show "\<exists>t. raw_table raw ''image'' = Some t \<and> image_config_of t = Inr (image_cfg cfg)"
    using assms by (auto simp: app_config_of_def and_then_Inr_iff required_def raw_table_def * split: option.splits)
  show "case raw_table raw ''run'' of None \<Rightarrow> run cfg = run_default | Some t \<Rightarrow> run_config_of caps t = Inr (run cfg)"
    using assms by (auto simp: app_config_of_def and_then_Inr_iff defaulted_def raw_table_def * split: option.splits)
  show "case raw_table raw ''limits'' of None \<Rightarrow> limits cfg = limits_default | Some t \<Rightarrow> limits_config_of t = Inr (limits cfg)"
    using assms by (auto simp: app_config_of_def and_then_Inr_iff defaulted_def raw_table_def * split: option.splits)
qed

text \<open>What is not stated is at its default.\<close>

lemma run_absent:
  assumes "case ot of None \<Rightarrow> r = run_default | Some t \<Rightarrow> run_config_of caps t = Inr r"
    and "\<And>t. ot = Some t \<Longrightarrow> map_of t k = None"
  shows "k = ''entrypoint'' \<longrightarrow> entrypoint r = None" "k = ''args'' \<longrightarrow> args r = []" "k = ''env'' \<longrightarrow> env r = []"
    "k = ''mount-cwd'' \<longrightarrow> mount_cwd r" "k = ''mount'' \<longrightarrow> mount r = []" "k = ''network'' \<longrightarrow> network r = network_default"
    "k = ''capabilities'' \<longrightarrow> capabilities r = []" "k = ''seccomp-allow'' \<longrightarrow> seccomp_allow r = []"
    "k = ''seccomp-deny'' \<longrightarrow> seccomp_deny r = []"
  using assms
  by (auto simp: run_default_def run_config_of_def and_then_Inr_iff dest: defaulted_absent split: option.splits)

lemma limits_absent:
  assumes "case ot of None \<Rightarrow> l = limits_default | Some t \<Rightarrow> limits_config_of t = Inr l"
    and "\<And>t. ot = Some t \<Longrightarrow> map_of t k = None"
  shows "k = ''memory'' \<longrightarrow> memory l = None" "k = ''swap'' \<longrightarrow> swap l = None" "k = ''memory-high'' \<longrightarrow> memory_high l = None"
    "k = ''cpu'' \<longrightarrow> cpu l = None" "k = ''cpu-shares'' \<longrightarrow> cpu_shares l = None" "k = ''pids'' \<longrightarrow> pids l = None"
  using assms
  by (auto simp: limits_default_def limits_config_of_def and_then_Inr_iff dest: defaulted_absent split: option.splits)

lemma absent_table: "absent raw n k \<Longrightarrow> raw_table raw n = Some t \<Longrightarrow> map_of t k = None"
  by (simp add: absent_def)

lemma no_keys_table: "\<not> has_keys raw n \<Longrightarrow> raw_table raw n = Some t \<Longrightarrow> t = []"
  by (simp add: has_keys_def)

lemma no_keys_absent: "\<not> has_keys raw n \<Longrightarrow> absent raw n k"
  by (auto simp: has_keys_def absent_def split: option.splits)

lemma app_items_read: "app_meta_of (pairs (app_items a)) = Inr a"
  by (simp add: app_items_def app_meta_of_def deny_unknown_def required_def)

lemma image_items_read:
  assumes "raw_table raw ''image'' = Some t" "image_config_of t = Inr i"
  shows "image_config_of (pairs (image_items P raw i)) = Inr i"
proof -
  have "absent raw ''image'' ''pull'' \<Longrightarrow> pull i"
    using assms by (auto simp: image_config_of_def and_then_Inr_iff dest!: defaulted_absent absent_table)
  then show ?thesis
    by (auto simp: image_items_def image_config_of_def deny_unknown_def required_def defaulted_def some_of_def keyed_def
        split: option.splits)
qed

lemma run_items_read:
  assumes "case raw_table raw ''run'' of None \<Rightarrow> r = run_default | Some t \<Rightarrow> run_config_of caps t = Inr r"
    and caps: "\<forall>c \<in> set (capabilities r). caps (capability_str T c) = Some c"
  shows "run_config_of caps (pairs (run_items T P raw r)) = Inr r"
proof -
  note d = run_absent [OF assms(1) absent_table]
  let ?es = "pairs (run_items T P raw r)"
  have "deny_unknown run_keys ?es = Inr ()" by (simp add: deny_unknown_def run_items_def run_keys_def)
  moreover have "defaulted ?es ''entrypoint'' None (some_of de_entrypoint) = Inr (entrypoint r)"
    by (rule defaulted_stated [where ov = "map_option entrypoint_value (entrypoint r)"])
      (auto simp: run_items_def some_of_def)
  moreover have "defaulted ?es ''args'' [] de_strings = Inr (args r)"
    by (rule defaulted_printed [where b = "absent raw ''run'' ''args'' \<longrightarrow> defaults P"]) (auto simp: run_items_def d)
  moreover have "defaulted ?es ''env'' [] de_strings = Inr (env r)"
    by (rule defaulted_printed [where b = "absent raw ''run'' ''env'' \<longrightarrow> defaults P"]) (auto simp: run_items_def d)
  moreover have "defaulted ?es ''mount-cwd'' True de_bool = Inr (mount_cwd r)"
    by (rule defaulted_printed [where b = "absent raw ''run'' ''mount-cwd'' \<longrightarrow> defaults P" and v = "TBoolean (mount_cwd r)"]) (auto simp: run_items_def d)
  moreover have "defaulted ?es ''mount'' [] de_strings = Inr (mount r)"
    by (rule defaulted_printed [where b = "absent raw ''run'' ''mount'' \<longrightarrow> defaults P"]) (auto simp: run_items_def d)
  moreover have "defaulted ?es ''network'' network_default de_network = Inr (network r)"
    by (rule defaulted_printed [where b = "absent raw ''run'' ''network'' \<longrightarrow> defaults P"]) (auto simp: run_items_def d)
  moreover have "defaulted ?es ''capabilities'' [] (de_capabilities caps) = Inr (capabilities r)"
    by (rule defaulted_printed [where b = "absent raw ''run'' ''capabilities'' \<longrightarrow> defaults P" and v = "capabilities_value T (capabilities r)"])
      (auto simp: run_items_def d de_capabilities_value [OF caps])
  moreover have "defaulted ?es ''seccomp-allow'' [] de_strings = Inr (seccomp_allow r)"
    by (rule defaulted_printed [where b = "absent raw ''run'' ''seccomp-allow'' \<longrightarrow> defaults P"]) (auto simp: run_items_def d)
  moreover have "defaulted ?es ''seccomp-deny'' [] de_strings = Inr (seccomp_deny r)"
    by (rule defaulted_printed [where b = "absent raw ''run'' ''seccomp-deny'' \<longrightarrow> defaults P"]) (auto simp: run_items_def d)
  ultimately show ?thesis by (simp add: run_config_of_def)
qed

lemma limits_items_read:
  "limits_config_of (pairs (limits_items P l)) = Inr l"
proof -
  let ?es = "pairs (limits_items P l)"
  have "deny_unknown limits_keys ?es = Inr ()" by (simp add: deny_unknown_def limits_items_def limits_keys_def)
  moreover have "defaulted ?es ''memory'' None de_size = Inr (memory l)"
    by (rule defaulted_stated [where ov = "map_option TString (memory l)"]) (auto simp: limits_items_def)
  moreover have "defaulted ?es ''swap'' None de_size = Inr (swap l)"
    by (rule defaulted_stated [where ov = "map_option TString (swap l)"]) (auto simp: limits_items_def)
  moreover have "defaulted ?es ''memory-high'' None de_size = Inr (memory_high l)"
    by (rule defaulted_stated [where ov = "map_option TString (memory_high l)"]) (auto simp: limits_items_def)
  moreover have "defaulted ?es ''cpu'' None (some_of de_f64) = Inr (cpu l)"
    by (rule defaulted_stated [where ov = "map_option TFloat (cpu l)"]) (auto simp: limits_items_def some_of_def)
  moreover have "defaulted ?es ''cpu-shares'' None (some_of de_i64) = Inr (cpu_shares l)"
    by (rule defaulted_stated [where ov = "map_option TInteger (cpu_shares l)"]) (auto simp: limits_items_def some_of_def)
  moreover have "defaulted ?es ''pids'' None (some_of de_i64) = Inr (pids l)"
    by (rule defaulted_stated [where ov = "map_option TInteger (pids l)"]) (auto simp: limits_items_def some_of_def)
  ultimately show ?thesis by (simp add: limits_config_of_def)
qed

subsection \<open>The document\<close>

text \<open>What TOML allows in a literal string, a comment and a bare key.\<close>

definition printable :: "char \<Rightarrow> bool" where
  "printable c \<longleftrightarrow> (of_char c :: nat) \<ge> 32 \<and> (of_char c :: nat) \<noteq> 127 \<or> (of_char c :: nat) = 9"

definition in_literal :: "char \<Rightarrow> bool" where
  "in_literal c \<longleftrightarrow> c = newline \<or> printable c"

definition bare_key :: "string \<Rightarrow> bool" where
  "bare_key k \<longleftrightarrow> k \<noteq> [] \<and> list_all (\<lambda>c. is_ascii_alphanumeric c \<or> c = CHR ''-'' \<or> c = CHR ''_'') k"

fun wf_item :: "item \<Rightarrow> bool" where
  "wf_item Blank = True"
| "wf_item (Remark r) = list_all printable r"
| "wf_item (Header n) = bare_key n"
| "wf_item (Setting k v) = bare_key k"
| "wf_item (Literal k s) = (bare_key k \<and> list_all in_literal s \<and> \<not> contains_str quotes3 s)"

definition wf_doc :: "item list \<Rightarrow> bool" where
  "wf_doc is \<longleftrightarrow> list_all wf_item is \<and> fst (doc_parts is) = [] \<and>
     distinct (map fst (snd (doc_parts is))) \<and>
     list_all (\<lambda>(_, v). case v of TTable t \<Rightarrow> distinct (map fst t) | _ \<Rightarrow> False) (snd (doc_parts is))"

text \<open>What the code relies on: the library reads a well-formed document, printed with its own values, as it says.\<close>

definition reads_document :: "libs \<Rightarrow> toml_printer \<Rightarrow> item list \<Rightarrow> bool" where
  "reads_document L T is \<longleftrightarrow> (wf_doc is \<longrightarrow> toml_of L (doc_text T is) = Inr (doc_table is))"

lemma no_keys_default:
  assumes raw: "app_config_of caps raw = Inr cfg"
  shows "\<not> has_keys raw ''run'' \<Longrightarrow> run cfg = run_default" "\<not> has_keys raw ''limits'' \<Longrightarrow> limits cfg = limits_default"
  using raw_app_config(2,3) [OF raw] no_keys_table [of raw "''run''"] no_keys_table [of raw "''limits''"]
  by (auto simp: run_config_of_def run_default_def limits_config_of_def limits_default_def deny_unknown_def defaulted_def
      split: option.splits)

lemma shown_parts:
  assumes "app_config_of caps raw = Inr cfg"
  shows "doc_parts (shown_items T P cfg raw) =
    ([], [(''app'', TTable (pairs (app_items (app cfg)))), (''image'', TTable (pairs (image_items P raw (image_cfg cfg))))]
      @ (if defaults P \<or> has_keys raw ''run'' then [(''run'', TTable (pairs (run_items T P raw (run cfg))))] else [])
      @ (if defaults P \<or> has_keys raw ''limits'' then [(''limits'', TTable (pairs (limits_items P (limits cfg))))] else []))"
proof -
  have l: "pairs (limits_items P (limits cfg)) = []" if "\<not> defaults P" "\<not> has_keys raw ''limits''"
    using no_keys_default(2) [OF assms that(2)] by (simp add: limits_items_def pairs_keyed limits_default_def)
  have "doc_parts (headed P raw ''limits'' @ limits_items P (limits cfg) @ []) =
      ([], (if defaults P \<or> has_keys raw ''limits'' then [(''limits'', TTable (pairs (limits_items P (limits cfg))))] else [])
        @ snd (doc_parts []))"
    by (rule doc_parts_headed) (simp_all add: l, simp add: limits_items_def)
  then have 1: "doc_parts (headed P raw ''limits'' @ limits_items P (limits cfg)) =
      ([], if defaults P \<or> has_keys raw ''limits'' then [(''limits'', TTable (pairs (limits_items P (limits cfg))))] else [])"
    by simp
  have r: "pairs (run_items T P raw (run cfg)) = []" if "\<not> defaults P" "\<not> has_keys raw ''run''"
    using no_keys_default(1) [OF assms that(2)] that no_keys_absent [OF that(2)]
    by (simp add: run_items_def pairs_keyed run_default_def)
  have 2: "doc_parts (headed P raw ''run'' @ run_items T P raw (run cfg) @ headed P raw ''limits'' @ limits_items P (limits cfg)) =
      ([], (if defaults P \<or> has_keys raw ''run'' then [(''run'', TTable (pairs (run_items T P raw (run cfg))))] else [])
        @ snd (doc_parts (headed P raw ''limits'' @ limits_items P (limits cfg))))"
    by (rule doc_parts_headed) (simp_all add: 1 r, simp add: run_items_def)
  have "headless (image_items P raw (image_cfg cfg))" "headless (app_items (app cfg))"
    by (simp_all add: image_items_def app_items_def split: option.splits)
  then show ?thesis using 1 2
    by (simp add: shown_items_def doc_parts_append)
qed

lemma shown_items_read:
  assumes raw: "app_config_of caps raw = Inr cfg" and caps: "\<forall>c \<in> set (capabilities (run cfg)). caps (capability_str T c) = Some c"
  shows "app_config_of caps (doc_table (shown_items T P cfg raw)) = Inr cfg"
proof -
  obtain t where t: "raw_table raw ''image'' = Some t" "image_config_of t = Inr (image_cfg cfg)"
    using raw_app_config(1) [OF raw] by blast
  show ?thesis
    unfolding doc_table_def shown_parts [OF raw] app_config_of_def
    using app_items_read [of "app cfg"] image_items_read [OF t] run_items_read [OF raw_app_config(2) [OF raw] caps]
      limits_items_read [of P "limits cfg"] no_keys_default [OF raw]
    by (cases "has_keys raw ''run''"; cases "has_keys raw ''limits''"; cases "defaults P")
      (simp_all add: deny_unknown_def required_def defaulted_def del: pairs_simps)
qed

lemma wf_keyed:
  "bare_key k \<Longrightarrow> list_all wf_item (keyed P d k v)"
  "bare_key k \<Longrightarrow> list_all printable (unset_note k note) \<Longrightarrow> list_all wf_item (noted P k ov note)"
  by (auto simp: keyed_def noted_def split: option.splits)

lemma bare_keys: "list_all bare_key ([''app'', ''image'', ''run'', ''limits'', ''name'', ''description'', ''license'',
    ''reference'', ''pull'', ''install''] @ run_keys @ limits_keys)"
  by code_simp

lemma notes_printable:
  "list_all printable (unset_note ''install'' ''the image runs as pulled'')"
  "list_all printable (unset_note ''entrypoint'' ''the image's own entrypoint runs'')"
  "list_all printable (unset_note ''memory'' ''the app may use as much memory as it likes'')"
  "list_all printable (unset_note ''swap'' ''the app may swap as much as it likes'')"
  "list_all printable (unset_note ''memory-high'' ''the app is never throttled, only killed at the memory limit'')"
  "list_all printable (unset_note ''cpu'' ''the app may use every core'')"
  "list_all printable (unset_note ''cpu-shares'' ''the app competes for the CPU on equal terms'')"
  "list_all printable (unset_note ''pids'' ''the app may start as many processes as it likes'')"
  by code_simp+

lemma shown_wf_items:
  assumes "\<forall>s. install (image_cfg cfg) = Some s \<longrightarrow> list_all in_literal s"
  shows "list_all wf_item (shown_items T P cfg raw)"
proof -
  note k = bare_keys [unfolded run_keys_def limits_keys_def, simplified]
  have "list_all wf_item (limits_items P (limits cfg))"
    unfolding limits_items_def list_all_append by (intro conjI wf_keyed notes_printable) (simp_all add: k)
  moreover have "list_all wf_item (run_items T P raw (run cfg))"
    unfolding run_items_def list_all_append by (intro conjI wf_keyed notes_printable) (simp_all add: k)
  moreover have "list_all wf_item (image_items P raw (image_cfg cfg))"
    using assms k notes_printable(1) wf_keyed(1) [of "''pull''"]
    by (auto simp: image_items_def as_literal_def split: option.splits)
  ultimately show ?thesis
    by (simp add: shown_items_def app_items_def headed_def k)
qed

lemma shown_wf:
  assumes "app_config_of caps raw = Inr cfg" "\<forall>s. install (image_cfg cfg) = Some s \<longrightarrow> list_all in_literal s"
  shows "wf_doc (shown_items T P cfg raw)"
proof -
  have "distinct (map fst (pairs (run_items T P raw (run cfg))))"
    by (simp add: run_items_def del: distinct_append map_append)
  moreover have "distinct (map fst (pairs (limits_items P (limits cfg))))"
    by (simp add: limits_items_def del: distinct_append map_append)
  moreover have "distinct (map fst (pairs (app_items (app cfg))))" by (simp add: app_items_def)
  moreover have "distinct (map fst (pairs (image_items P raw (image_cfg cfg))))"
    by (auto simp: image_items_def keyed_def split: option.splits)
  ultimately show ?thesis
    using shown_wf_items [OF assms(2)] by (simp add: wf_doc_def shown_parts [OF assms(1)])
qed

lemma load_with_raw_parsed:
  "load_with_raw L S h n w = (Inr (cfg, raw), t) \<Longrightarrow> app_config_of (capability_of L) raw = Inr cfg"
  by (auto simp: load_with_raw_def bindM_Inr script_simps liftM_def parse_app_def Let_def and_then_Inr_iff
      split: option.splits prod.splits)


definition demo_printer :: toml_printer where
  "demo_printer = \<lparr>value_str = (\<lambda>_. ''1''), capability_str = (\<lambda>_. ''C'')\<rparr>"

definition demo_shown :: "item list" where
  "demo_shown = shown_items demo_printer \<lparr>color = False, defaults = True\<rparr> demo_loaded demo_raw"

definition demo_show_libs :: libs where
  "demo_show_libs = demo_read_libs\<lparr>toml_of := (\<lambda>txt.
     if txt = doc_text demo_printer demo_shown then Inr (doc_table demo_shown) else demo_table_of txt)\<rparr>"


end
