(* ===== verification/Store_Integrity.thy ===== *)
theory Store_Integrity
  imports Fetch
begin

text \<open>
  What the image store promises: a blob is the content its digest names, a layer is whole, and an
  image that is recorded under \<open>refs/\<close> has its manifest, its configuration and all its layers.
  \<open>fetch_image\<close> keeps this whichever call fails or wherever the process is killed, as long as no
  write is torn; a torn write breaks it, which the last section shows.
\<close>

section \<open>The invariant\<close>

definition built :: "string \<Rightarrow> bool" where
  "built d \<longleftrightarrow> starts_with ''build:'' d"

definition blobs_right :: "(string \<Rightarrow> string) \<Rightarrow> path \<Rightarrow> fs \<Rightarrow> bool" where
  "blobs_right blob s f \<longleftrightarrow>
     (\<forall>d p c. filed ''blobs'' s d p \<and> \<not> built d \<and> node_at f p = Some (File c) \<longrightarrow> c = blob d)"

definition ref_path :: "path \<Rightarrow> string \<Rightarrow> path" where
  "ref_path s n = s @ [Normal ''refs'', Normal n]"

definition present :: "string \<Rightarrow> path \<Rightarrow> fs \<Rightarrow> string \<Rightarrow> bool" where
  "present area s f d \<longleftrightarrow> (\<exists>p. filed area s d p \<and> node_at f p \<noteq> None)"

text \<open>Everything a run needs of the image whose manifest has the digest \<open>D\<close>.\<close>

definition image_in :: "libs \<Rightarrow> path \<Rightarrow> fs \<Rightarrow> string \<Rightarrow> bool" where
  "image_in L s f D \<longleftrightarrow>
     (\<exists>p c m. filed ''blobs'' s D p \<and> node_at f p = Some (File c) \<and> manifest_of L c = Inr m \<and>
        present ''blobs'' s f (digest (man_config m)) \<and>
        (\<forall>l \<in> set (man_layers m). present ''layers'' s f (digest l)))"

definition refs_whole :: "libs \<Rightarrow> path \<Rightarrow> fs \<Rightarrow> bool" where
  "refs_whole L s f \<longleftrightarrow> (\<forall>n D. node_at f (ref_path s n) = Some (File D) \<longrightarrow> image_in L s f D)"

definition store_ok :: "libs \<Rightarrow> (string \<Rightarrow> string) \<Rightarrow> path \<Rightarrow> fs \<Rightarrow> bool" where
  "store_ok L blob s f \<longleftrightarrow>
     wf_fs f \<and> layers_whole L blob s f \<and> blobs_right blob s f \<and> refs_whole L s f"

text \<open>Nothing of the store is lost from \<open>f\<close> to \<open>g\<close>, and the recorded images are the same.\<close>

definition data_kept :: "path \<Rightarrow> fs \<Rightarrow> fs \<Rightarrow> bool" where
  "data_kept s f g \<longleftrightarrow>
     (\<forall>d p c. filed ''blobs'' s d p \<and> node_at f p = Some (File c) \<longrightarrow> node_at g p = Some (File c)) \<and>
     (\<forall>area d p. area \<in> {''blobs'', ''layers''} \<and> filed area s d p \<and> node_at f p \<noteq> None \<longrightarrow>
        node_at g p \<noteq> None)"

definition grows :: "path \<Rightarrow> fs \<Rightarrow> fs \<Rightarrow> bool" where
  "grows s f g \<longleftrightarrow> (\<forall>n. node_at g (ref_path s n) = node_at f (ref_path s n)) \<and> data_kept s f g"

lemma grows_refl [simp]: "grows s f f"
  by (simp add: grows_def data_kept_def)

lemma grows_trans: "grows s f g \<Longrightarrow> grows s g h \<Longrightarrow> grows s f h"
  unfolding grows_def data_kept_def by (elim conjE, intro conjI allI impI) (simp, blast, meson)

lemma grows_data: "grows s f g \<Longrightarrow> data_kept s f g"
  by (simp add: grows_def)

lemma present_kept:
  "present area s f d \<Longrightarrow> data_kept s f g \<Longrightarrow> area \<in> {''blobs'', ''layers''} \<Longrightarrow> present area s g d"
  unfolding present_def data_kept_def by blast

lemma present_grows:
  "present area s f d \<Longrightarrow> grows s f g \<Longrightarrow> area \<in> {''blobs'', ''layers''} \<Longrightarrow> present area s g d"
  by (rule present_kept [OF _ grows_data])

lemma image_in_kept: "image_in L s f D \<Longrightarrow> data_kept s f g \<Longrightarrow> image_in L s g D"
proof -
  assume "image_in L s f D" and g: "data_kept s f g"
  then obtain p c m where *: "filed ''blobs'' s D p" "node_at f p = Some (File c)" "manifest_of L c = Inr m"
    "present ''blobs'' s f (digest (man_config m))"
    "\<forall>l \<in> set (man_layers m). present ''layers'' s f (digest l)"
    by (auto simp: image_in_def)
  moreover have "node_at g p = Some (File c)" using * g unfolding data_kept_def by blast
  ultimately show ?thesis
    using present_kept [OF _ g] unfolding image_in_def by (intro exI conjI ballI) auto
qed

lemma refs_whole_grows: "refs_whole L s f \<Longrightarrow> grows s f g \<Longrightarrow> refs_whole L s g"
  using image_in_kept unfolding refs_whole_def grows_def by metis

text \<open>What an operation may do between two states of the store that both are fine.\<close>

definition grow_ok :: "(string \<Rightarrow> string) \<Rightarrow> path \<Rightarrow> fs \<Rightarrow> fs \<Rightarrow> bool" where
  "grow_ok blob s f0 f \<longleftrightarrow> blobs_right blob s f \<and> grows s f0 f"

definition images_ok :: "libs \<Rightarrow> (string \<Rightarrow> string) \<Rightarrow> path \<Rightarrow> fs \<Rightarrow> fs \<Rightarrow> bool" where
  "images_ok L blob s f0 f \<longleftrightarrow> layers_whole L blob s f \<and> grow_ok blob s f0 f"

definition image_place :: "path \<Rightarrow> path \<Rightarrow> bool" where
  "image_place s q \<longleftrightarrow> layer_place s q \<or> (\<exists>d. filed ''blobs'' s d q) \<or> (\<exists>n. q = ref_path s n)"

interpretation grown: protected "image_place s" "grow_ok blob s f0" for s blob f0
proof
  fix f g assume f: "grow_ok blob s f0 f" and same: "same_on (image_place s) f g"
  have b: "node_at g p = node_at f p" if "filed ''blobs'' s d p" for d p
    using that same by (auto simp: same_on_def image_place_def)
  moreover have "node_at g p = node_at f p" if "filed ''layers'' s d p" for d p
    using that same under_refl [of p] unfolding same_on_def image_place_def layer_place_def by blast
  moreover have "node_at g (ref_path s n) = node_at f (ref_path s n)" for n
    using same by (auto simp: same_on_def image_place_def)
  ultimately have "blobs_right blob s g" "grows s f g"
    using f by (auto simp: grow_ok_def blobs_right_def grows_def data_kept_def)
  then show "grow_ok blob s f0 g" using f grows_trans unfolding grow_ok_def by blast
qed

interpretation images: protected "image_place s" "images_ok L blob s f0" for s L blob f0
proof
  fix f g assume "images_ok L blob s f0 f" and same: "same_on (image_place s) f g"
  moreover from same have "same_on (layer_place s) f g" by (simp add: same_on_def image_place_def)
  ultimately show "images_ok L blob s f0 g"
    using layer_store.stable grown.stable unfolding images_ok_def by blast
qed

lemma not_image_place:
  assumes "p = s @ Normal b # r"
    "b \<notin> {''layers'', ''blobs'', ''refs''} \<or> r = [] \<or>
     (b \<noteq> ''refs'' \<and> (length r = 1 \<or> (\<exists>y. r ! 1 = Normal y \<and> \<not> is_clean y)))"
  shows "\<not> image_place s p"
  using assms
  by (auto simp: image_place_def layer_place_def filed_def ref_path_def under_iff)

lemma not_image_place_above: "under p s \<Longrightarrow> \<not> image_place s p"
  by (auto simp: image_place_def layer_place_def filed_def ref_path_def under_iff)

lemma area_dir:
  assumes "under q (s @ [Normal b, Normal a])" "b \<noteq> ''refs''"
  shows "\<not> image_place s q"
proof -
  have "under q s \<or> q = s @ [Normal b] \<or> q = s @ [Normal b, Normal a]"
    using assms by (auto simp: under_iff append_eq_append_conv2 append_eq_Cons_conv Cons_eq_append_conv)
  with assms(2) show ?thesis
    using not_image_place_above not_image_place [of q s b] by auto
qed

lemma refs_dir: "under q (s @ [Normal ''refs'']) \<Longrightarrow> \<not> image_place s q"
proof -
  assume "under q (s @ [Normal ''refs''])"
  then have "under q s \<or> q = s @ [Normal ''refs'']"
    by (auto simp: under_iff append_eq_append_conv2 append_eq_Cons_conv Cons_eq_append_conv)
  then show ?thesis using not_image_place_above not_image_place [of q s "''refs''"] by auto
qed

section \<open>The steps of a download\<close>

text \<open>No call stops half way; it may fail, and the process may be killed between two calls.\<close>

definition untorn :: "(nat \<Rightarrow> nat option) \<Rightarrow> bool" where
  "untorn F \<longleftrightarrow> (\<forall>n k. F n \<noteq> Some (Suc k))"

definition registry_ok :: "libs \<Rightarrow> registry \<Rightarrow> (string \<Rightarrow> string) \<Rightarrow> bool" where
  "registry_ok L R blob \<longleftrightarrow>
     (\<forall>ref t m D. pull_image_manifest R ref t = Inr (m, D) \<longrightarrow> \<not> built D \<and> manifest_of L (blob D) = Inr m) \<and>
     (\<forall>ref D t raw. pull_manifest_raw R ref D t = Inr raw \<longrightarrow> raw = blob D) \<and>
     (\<forall>ref d t c. pull_blob R ref d t = (c, Inr ()) \<longrightarrow> c = blob (digest d) \<and> \<not> built (digest d))"

definition going :: "libs \<Rightarrow> (string \<Rightarrow> string) \<Rightarrow> path \<Rightarrow> fs \<Rightarrow> world \<Rightarrow> bool" where
  "going L blob s f0 w \<longleftrightarrow> wf_fs (fs w) \<and> images_ok L blob s f0 (fs w) \<and> untorn (fault w)"

lemma keeps_going:
  "keeps (\<lambda>w. wf_fs (fs w)) m \<Longrightarrow> keeps (\<lambda>w. images_ok L blob s f0 (fs w)) m \<Longrightarrow>
   keeps (\<lambda>w. untorn (fault w)) m \<Longrightarrow> keeps (going L blob s f0) m"
  unfolding going_def by (intro keeps_conj)

lemma going_grows: "going L blob s f0 w \<Longrightarrow> grows s f0 (fs w)"
  by (simp add: going_def images_ok_def grow_ok_def)

text \<open>A download goes to a file of its own directly in the store's directory.\<close>

lemma download_name_areas [simp]:
  "download_name n \<noteq> ''layers''" "download_name n \<noteq> ''blobs''" "download_name n \<noteq> ''refs''"
  "''layers'' \<noteq> download_name n" "''blobs'' \<noteq> download_name n" "''refs'' \<noteq> download_name n"
  by (simp_all add: download_name_def)

definition temp_of :: "path \<Rightarrow> path \<Rightarrow> bool" where
  "temp_of s p \<longleftrightarrow> (\<exists>n. p = s @ [Normal (download_name n)])"

lemma temp_place: "temp_of s p \<Longrightarrow> under p q \<Longrightarrow> \<not> image_place s q"
  using not_image_place [of q s] by (auto simp: temp_of_def under_iff)

lemma plain_digits: "CHR ''/'' \<notin> set (nat_str n)"
  using nat_str_digits [of "CHR ''/''" n] by (auto simp: is_ascii_digit_def)

lemma temp_path_triple:
  assumes "store_dir h = Inr s" "CHR ''/'' \<notin> set tag"
  shows "triple (going L blob s f0) (temp_path h tag)
           (\<lambda>temp w. going L blob s f0 w \<and> temp_of s temp) (going L blob s f0)"
proof -
  have 1: "keeps (going L blob s f0) (contextM m (create_dir_all s))" for m
    by (intro keeps_going keeps_intros images.create_dir_all) (use not_image_place_above in auto)
  have 2: "triple (going L blob s f0) (unique_id h)
      (\<lambda>i w. going L blob s f0 w \<and> temp_of s (join_str s (download_name (tag @ ''-'' @ i)))) E" for E
  proof -
    have "plain_name (download_name (tag @ ''-'' @ nat_str m @ ''-'' @ nat_str k))" for m k
      using assms(2) plain_digits by (auto simp: plain_name_def download_name_def)
    then show ?thesis unfolding triple_def unique_id_def temp_of_def
      by (auto simp: going_def join_plain simp del: append_Cons)
  qed
  show ?thesis unfolding temp_path_def assms(1) liftM_simps bindM_simps
    by (rule triple_bind [OF keeps_into [OF 1]], assumption, rule triple_bind [OF 2],
        rule triple_weaken [OF triple_return]) auto
qed

lemma write_file_Inr: "write_file p c w = (Inr u, t) \<Longrightarrow> node_at (fs t) p = Some (File c)"
proof -
  assume "write_file p c w = (Inr u, t)"
  then have "write_node p c (fs w) = (Inr u, fs t)" unfolding write_file_def by (blast dest: prim_Inr)
  then have "fs t = set_node p (File c) (fs w)"
    by (auto simp: write_node_def split: option.splits node.splits)
  then show ?thesis by (simp add: node_at_set_node)
qed

lemma download_triple:
  assumes "registry_ok L R blob" "temp_of s temp"
  shows "triple (going L blob s f0) (download_blob R ref d temp)
           (\<lambda>_ w. going L blob s f0 w \<and> node_at (fs w) temp = Some (File (blob (digest d))) \<and> \<not> built (digest d))
           (going L blob s f0)"
proof -
  have w: "keeps (going L blob s f0) (write_file temp c)" for c
    by (intro keeps_going keeps_intros images.write_file temp_place [OF assms(2)]) simp
  have k: "keeps (going L blob s f0) (at_tick f)" for f :: "nat \<Rightarrow> string \<times> unit res"
    by (intro keeps_going keeps_intros)
  show ?thesis
  proof (rule tripleI)
    fix v u t assume v: "going L blob s f0 v" and t: "download_blob R ref d temp v = (Inr u, t)"
    then obtain v1 v2 c where *: "write_file temp [] v = (Inr (), v1)"
      "at_tick (pull_blob R ref d) v1 = (Inr (c, Inr ()), v2)" "write_file temp c v2 = (Inr (), t)"
      by (auto simp: download_blob_def bindM_Inr script_simps split: prod.splits)
    moreover from *(2) obtain n where "pull_blob R ref d n = (c, Inr ())" by (auto simp: at_tick_def)
    then have "c = blob (digest d) \<and> \<not> built (digest d)" using assms(1) unfolding registry_ok_def by blast
    moreover have "going L blob s f0 t" using v w k * by (blast dest: keepsD)
    ultimately show "going L blob s f0 t \<and> node_at (fs t) temp = Some (File (blob (digest d))) \<and> \<not> built (digest d)"
      using write_file_Inr [OF *(3)] by simp
  next
    fix v e t assume v: "going L blob s f0 v" and t: "download_blob R ref d temp v = (Inl e, t)"
    have "keeps (going L blob s f0) (download_blob R ref d temp)"
      unfolding download_blob_def by (intro keeps_intros w k)
    with v t show "going L blob s f0 t" by (blast dest: keepsD)
  qed
qed

text \<open>What unpacking a layer keeps is what its calls keep.\<close>

lemma extract_layer_keeps:
  assumes s: "store_dir h = Inr s"
    and calls: "\<And>a x es. is_clean a \<Longrightarrow> is_clean x \<Longrightarrow>
      keeps I (create_dir_all (s @ [Normal ''layers'', Normal a])) \<and>
      keeps I (remove_tree (s @ [Normal ''layers'', Normal a, Normal (stage_name x)])) \<and>
      keeps I (unpack_entries (s @ [Normal ''layers'', Normal a, Normal (stage_name x)]) es) \<and>
      keeps I (rename (s @ [Normal ''layers'', Normal a, Normal (stage_name x)])
                      (s @ [Normal ''layers'', Normal a, Normal x]))"
    and read: "keeps I (read_file temp)"
  shows "keeps I (extract_layer L h temp d mt)"
proof (cases "layer_path h d")
  case (Inl e)
  then show ?thesis by (simp add: extract_layer_def keeps_fail)
next
  case (Inr dest)
  then obtain a x where ax: "is_clean a" "is_clean x" "dest = s @ [Normal ''layers'', Normal a, Normal x]"
    using s by (auto simp: layer_path_Inr filed_def)
  have ext: "plain_name (stage_name x)" by (rule plain_stage [OF ax(2)])
  have par: "parent (s @ [Normal ''layers'', Normal a, Normal x]) = Some (s @ [Normal ''layers'', Normal a])"
    "file_name (s @ [Normal ''layers'', Normal a, Normal x]) = Some x"
    by (simp_all add: parent_def file_name_def butlast_append)
  have st: "staging_path (s @ [Normal ''layers'', Normal a, Normal x]) = returnM (s @ [Normal ''layers'', Normal a, Normal (stage_name x)])"
    using join_plain [OF ext, of "s @ [Normal ''layers'', Normal a]"]
    by (simp only: staging_path_def par prod.case option.case append_assoc append.simps)
  note c = calls [OF ax(1,2)]
  show ?thesis
    unfolding extract_layer_def Inr liftM_simps bindM_simps ax(3) st create_parent_def par option.case
    by (intro keeps_intros c [THEN conjunct1] c [THEN conjunct2, THEN conjunct1]
        c [THEN conjunct2, THEN conjunct2, THEN conjunct1] c [THEN conjunct2, THEN conjunct2, THEN conjunct2] read)
      (auto intro!: keeps_intros split: codec.split)
qed

lemma rename_present:
  assumes "a \<noteq> p" "\<not> under a p"
  shows "keeps (\<lambda>w. node_at (fs w) p \<noteq> None) (rename a p)"
proof (rule keepsI)
  fix w r t assume w: "node_at (fs w) p \<noteq> None" and t: "rename a p w = (r, t)"
  have "fs t = fs w \<or> (\<exists>u. rename_node a p (fs w) = (Inr u, fs t))"
    using t unfolding rename_def prim_def
    by (auto simp: Let_def rename_node_def split: option.splits nat.splits prod.splits if_splits)
  then show "node_at (fs t) p \<noteq> None"
    using w rename_node_Inr(1) [of a p "fs w" _ "fs t" "[]"] rename_node_Inr(2) [of a p "fs w" _ "fs t"] assms
    by auto
qed

lemma rename_layer_images:
  assumes d: "is_clean a" "is_clean x"
  shows "keeps (\<lambda>w. grow_ok blob s f0 (fs w))
     (rename (s @ [Normal ''layers'', Normal a, Normal (stage_name x)]) (s @ [Normal ''layers'', Normal a, Normal x]))"
    (is "keeps _ (rename ?a ?p)")
proof (rule keepsI)
  fix w r t assume w: "grow_ok blob s f0 (fs w)" and t: "rename ?a ?p w = (r, t)"
  have ap: "?a \<noteq> ?p" "\<not> under ?a ?p" by (auto simp: under_iff)
  have "snd (rename_node ?a ?p (fs w)) = fs t \<or> fs t = fs w"
    using t unfolding rename_def prim_def by (auto simp: Let_def split: option.splits nat.splits prod.splits)
  then have same: "same_on P (fs w) (fs t)" if "\<forall>q. under ?a q \<or> under ?p q \<longrightarrow> \<not> P q" for P
    using same_on_rename [OF that, of "fs w"] by auto
  have other: "node_at (fs t) q = node_at (fs w) q" if "\<not> under ?a q" "\<not> under ?p q" for q
    using same [of "(=) q"] that by (auto simp: same_on_def)
  have b: "node_at (fs t) q = node_at (fs w) q" if "filed ''blobs'' s d q" for d q
    using that by (intro other) (auto simp: filed_def under_iff)
  have l: "node_at (fs t) q \<noteq> None" if "filed ''layers'' s d q" "node_at (fs w) q \<noteq> None" for d q
  proof (cases "q = ?p")
    case True
    then show ?thesis using keepsD [OF rename_present [OF ap]] that(2) t by blast
  next
    case False
    have "\<not> is_clean (stage_name x)" by (rule not_clean_extract)
    then have "\<not> under ?a q" "\<not> under ?p q" using that(1) False by (auto simp: filed_def under_iff)
    then show ?thesis using other that(2) by simp
  qed
  have r: "node_at (fs t) (ref_path s n) = node_at (fs w) (ref_path s n)" for n
    by (intro other) (auto simp: ref_path_def under_iff)
  have "grows s (fs w) (fs t)" using b l r by (auto simp: grows_def data_kept_def)
  then show "grow_ok blob s f0 (fs t)"
    using w b grows_trans unfolding grow_ok_def blobs_right_def by metis
qed

lemma extract_step:
  assumes L: "archives_ordered L" and s: "store_dir h = Inr s" and temp: "temp_of s temp"
    and b: "\<not> built d"
  shows "triple (\<lambda>w. going L blob s f0 w \<and> node_at (fs w) temp = Some (File (blob d)))
           (extract_layer L h temp d mt)
           (\<lambda>_ w. going L blob s f0 w \<and> present ''layers'' s (fs w) d) (going L blob s f0)"
proof -
  have st: "\<not> image_place s q" if "under (s @ [Normal ''layers'', Normal a, Normal (stage_name x)]) q" for a x q
    using that not_image_place [of q s "''layers''"] not_clean_extract by (auto simp: under_iff)
  have pre: "\<not> image_place s q" if "under q (s @ [Normal ''layers'', Normal a, Normal (stage_name x)])" for a x q
    using that area_dir [of q s "''layers''" a] st [of a x q] under_butlast [OF that]
    by (cases "q = s @ [Normal ''layers'', Normal a, Normal (stage_name x)]") (auto simp: butlast_append)
  have k: "keeps (\<lambda>w. untorn (fault w) \<and> grow_ok blob s f0 (fs w)) (extract_layer L h temp d mt)"
  proof (rule extract_layer_keeps [OF s])
    fix a x es assume "is_clean a" "is_clean x"
    then show "keeps (\<lambda>w. untorn (fault w) \<and> grow_ok blob s f0 (fs w)) (create_dir_all (s @ [Normal ''layers'', Normal a])) \<and>
      keeps (\<lambda>w. untorn (fault w) \<and> grow_ok blob s f0 (fs w)) (remove_tree (s @ [Normal ''layers'', Normal a, Normal (stage_name x)])) \<and>
      keeps (\<lambda>w. untorn (fault w) \<and> grow_ok blob s f0 (fs w)) (unpack_entries (s @ [Normal ''layers'', Normal a, Normal (stage_name x)]) es) \<and>
      keeps (\<lambda>w. untorn (fault w) \<and> grow_ok blob s f0 (fs w)) (rename (s @ [Normal ''layers'', Normal a, Normal (stage_name x)])
        (s @ [Normal ''layers'', Normal a, Normal x]))"
      by (intro conjI keeps_conj keeps_intros rename_layer_images grown.create_dir_all grown.remove_tree grown.unpack)
        (use st pre area_dir [of _ s "''layers''" a] in \<open>auto simp del: append.simps(2)\<close>)
  qed (intro keeps_conj keeps_intros)
  obtain n where n: "temp = s @ [Normal (download_name n)]" "download_name n \<noteq> ''layers''"
    using temp by (auto simp: temp_of_def)
  from triple_conj [OF extract_layer_triple [OF L s b [unfolded built_def] n, of blob mt] iffD1 [OF keeps_triple k]]
  show ?thesis
    by (rule triple_weaken)
      (auto simp: going_def ready_def images_ok_def present_def layer_path_Inr s)
qed

text \<open>What only grows stays.\<close>

lemma going_persists:
  assumes "\<And>f. keeps (going L blob s f) m" "\<And>f g. Q f \<Longrightarrow> grows s f g \<Longrightarrow> Q g"
  shows "keeps (\<lambda>w. going L blob s f0 w \<and> Q (fs w)) m"
proof (rule keepsI)
  fix w r t assume w: "going L blob s f0 w \<and> Q (fs w)" and t: "m w = (r, t)"
  then have "going L blob s (fs w) w" by (simp add: going_def images_ok_def grow_ok_def)
  then have "going L blob s (fs w) t" using keepsD [OF assms(1)] t by blast
  then have "Q (fs t)" using w assms(2) going_grows by blast
  moreover have "going L blob s f0 t" using keepsD [OF assms(1)] t w by blast
  ultimately show "going L blob s f0 t \<and> Q (fs t)" by simp
qed

lemma going_remove_temp:
  "temp_of s temp \<Longrightarrow> keeps (going L blob s f0) (remove_file temp)"
  by (intro keeps_going keeps_intros images.remove_file)
    (use temp_place in \<open>auto simp: temp_of_def\<close>)

lemma fetch_layer_step:
  assumes L: "archives_ordered L" and s: "store_dir h = Inr s" and R: "registry_ok L R blob"
  shows "triple (going L blob s f0) (fetch_layer L h R ref d)
           (\<lambda>_ w. going L blob s f0 w \<and> present ''layers'' s (fs w) (digest d)) (going L blob s f0)"
proof -
  let ?got = "\<lambda>res w. going L blob s f0 w \<and> (res = Inr () \<longrightarrow> present ''layers'' s (fs w) (digest d))"
  have tag: "CHR ''/'' \<notin> set ''layer''" by simp
  have 1: "triple (\<lambda>w. going L blob s f0 w \<and> temp_of s temp)
      (tryM (bindM (download_blob R ref d temp) (\<lambda>_. extract_layer L h temp (digest d) (media_type d))))
      (\<lambda>res w. ?got res w \<and> temp_of s temp) E" for temp E
  proof (cases "temp_of s temp")
    case True
    have "triple (going L blob s f0)
       (bindM (download_blob R ref d temp) (\<lambda>_. extract_layer L h temp (digest d) (media_type d)))
       (\<lambda>_ w. going L blob s f0 w \<and> present ''layers'' s (fs w) (digest d)) (going L blob s f0)"
    proof (rule triple_bind [OF download_triple [OF R True]], rule tripleI)
      fix w x t
      assume w: "going L blob s f0 w \<and> node_at (fs w) temp = Some (File (blob (digest d))) \<and> \<not> built (digest d)"
        and t: "extract_layer L h temp (digest d) (media_type d) w = (Inr x, t)"
      then show "going L blob s f0 t \<and> present ''layers'' s (fs t) (digest d)"
        using triple_Inr [OF extract_step [OF L s True]] by blast
    next
      fix w e t
      assume w: "going L blob s f0 w \<and> node_at (fs w) temp = Some (File (blob (digest d))) \<and> \<not> built (digest d)"
        and t: "extract_layer L h temp (digest d) (media_type d) w = (Inl e, t)"
      then show "going L blob s f0 t" using triple_Inl [OF extract_step [OF L s True]] by blast
    qed
    then show ?thesis by (intro triple_try, elim triple_weaken) (use True in auto)
  qed (simp add: triple_def)
  have 2: "triple (\<lambda>w. ?got res w \<and> temp_of s temp) (ignoreM (remove_file temp)) (\<lambda>_. ?got res) E" for res temp E
  proof (cases "temp_of s temp")
    case True
    have "keeps (\<lambda>w. going L blob s f0 w \<and> (res = Inr () \<longrightarrow> present ''layers'' s (fs w) (digest d))) (remove_file temp)"
      using going_remove_temp [OF True] present_grows
      by (intro going_persists [where Q = "\<lambda>f. res = Inr () \<longrightarrow> present ''layers'' s f (digest d)"]) auto
    then have "keeps (\<lambda>w. ?got res w) (ignoreM (remove_file temp))" by (rule keeps_ignore)
    then show ?thesis by (auto simp: triple_def ignoreM_def keeps_def)
  qed (simp add: triple_def)
  have 3: "triple (?got res) (liftM res) (\<lambda>_ w. going L blob s f0 w \<and> present ''layers'' s (fs w) (digest d)) (going L blob s f0)"
    for res by (cases res) (auto simp: triple_def script_simps)
  show ?thesis unfolding fetch_layer_def
    by (rule triple_bind [OF temp_path_triple [OF s tag]], rule triple_bind [OF 1], rule triple_bind [OF 2], rule 3)
qed

lemma stat_Some: "stat f p \<noteq> None \<Longrightarrow> node_at f p \<noteq> None"
  by (auto simp: stat_def eval_nat_numeral split: option.splits)

lemma asking_true: "asking q w = (Inr True, t) \<Longrightarrow> q (fs w) \<and> fs t = fs w"
  unfolding asking_def by (auto simp: bindM_Inr script_simps dest!: query_Inr)

lemma going_asking: "keeps (going L blob s f0) (asking q)"
  unfolding asking_def query_def
  by (intro keeps_going keeps_intros keeps_prim keeps_fault_prim) auto

lemma exists_step:
  assumes "filed area s d p"
  shows "triple (going L blob s f0) (path_exists p)
           (\<lambda>there w. going L blob s f0 w \<and> (there \<longrightarrow> present area s (fs w) d)) (going L blob s f0)"
proof -
  have "keeps (going L blob s f0) (path_exists p)" unfolding path_exists_def by (rule going_asking)
  moreover have "node_at (fs t) p \<noteq> None" if "path_exists p w = (Inr True, t)" for w t
    using asking_true [OF that [unfolded path_exists_def]] stat_Some by metis
  ultimately show ?thesis
    using assms by (intro tripleI) (auto dest: keepsD simp: present_def)
qed

lemma has_layer_step:
  assumes "store_dir h = Inr s"
  shows "triple (going L blob s f0) (has_layer h d)
           (\<lambda>there w. going L blob s f0 w \<and> (there \<longrightarrow> present ''layers'' s (fs w) d)) (going L blob s f0)"
proof (cases "layer_path h d")
  case (Inr p)
  with assms have "filed ''layers'' s d p" by (simp add: layer_path_Inr)
  with Inr show ?thesis by (simp add: has_layer_def exists_step)
qed (simp add: has_layer_def triple_fail)

lemma has_blob_step:
  assumes "store_dir h = Inr s"
  shows "triple (going L blob s f0) (has_blob h d)
           (\<lambda>there w. going L blob s f0 w \<and> (there \<longrightarrow> present ''blobs'' s (fs w) d)) (going L blob s f0)"
proof (cases "blob_path h d")
  case (Inr p)
  with assms have "filed ''blobs'' s d p" by (simp add: blob_path_Inr)
  with Inr show ?thesis by (simp add: has_blob_def exists_step)
qed (simp add: has_blob_def triple_fail)

section \<open>Blobs\<close>

lemma create_area_step:
  "b \<noteq> ''refs'' \<Longrightarrow> keeps (going L blob s f0) (contextM m (create_dir_all (s @ [Normal b, Normal a])))"
  by (intro keeps_context keeps_going keeps_intros images.create_dir_all) (use area_dir in auto)

definition below_temp :: "path \<Rightarrow> path \<Rightarrow> bool" where
  "below_temp s q \<longleftrightarrow> (\<exists>t. temp_of s t \<and> under t q)"

lemma going_set_blob:
  assumes g: "going L blob s f0 w" and p: "filed ''blobs'' s d p" and d: "\<not> built d"
    and f: "wf_fs g" "node_at g p = Some (File (blob d))" 
      "\<And>q. q \<noteq> p \<Longrightarrow> \<not> below_temp s q \<Longrightarrow> node_at g q = node_at (fs w) q"
    and fault: "untorn F"
  shows "wf_fs g \<and> images_ok L blob s f0 g \<and> untorn F"
proof -
  have layer: "\<not> layer_place s q" if "q = p \<or> below_temp s q" for q
    using that p by (auto simp: layer_place_def filed_def temp_of_def below_temp_def under_iff)
  have eq: "node_at g q = node_at (fs w) q" if "layer_place s q" for q
    using f(3) layer that by blast
  have "layers_whole L blob s g"
    using g eq layer_store.stable unfolding going_def images_ok_def same_on_def by blast
  moreover have br: "blobs_right blob s (fs w)" and gr: "grows s f0 (fs w)"
    using g by (auto simp: going_def images_ok_def grow_ok_def)
  have other: "node_at g q = node_at (fs w) q" if "filed area s e q" "q \<noteq> p" "area \<in> {''blobs'', ''layers''}" for area e q
  proof -
    have "\<not> below_temp s q" using that(1,3) by (auto simp: filed_def temp_of_def below_temp_def under_iff)
    then show ?thesis by (rule f(3) [OF that(2)])
  qed
  have "blobs_right blob s g"
    unfolding blobs_right_def
  proof (intro allI impI)
    fix e q c assume *: "filed ''blobs'' s e q \<and> \<not> built e \<and> node_at g q = Some (File c)"
    show "c = blob e"
    proof (cases "q = p")
      case True
      then have "e = d" using * p filed_inj by blast
      with * True f(2) show ?thesis by simp
    next
      case False
      with * other [of "''blobs''" e q] br show ?thesis unfolding blobs_right_def by auto
    qed
  qed
  moreover have "grows s (fs w) g"
    unfolding grows_def data_kept_def
  proof (intro conjI allI impI)
    show "node_at g (ref_path s n) = node_at (fs w) (ref_path s n)" for n
      using p by (intro f(3)) (auto simp: ref_path_def filed_def temp_of_def below_temp_def under_iff)
    fix e q c assume *: "filed ''blobs'' s e q \<and> node_at (fs w) q = Some (File c)"
    show "node_at g q = Some (File c)"
    proof (cases "q = p")
      case True
      then have "e = d" using * p filed_inj by blast
      with * True br d f(2) show ?thesis unfolding blobs_right_def by metis
    qed (use * other in auto)
  next
    fix area e q assume "area \<in> {''blobs'', ''layers''} \<and> filed area s e q \<and> node_at (fs w) q \<noteq> None"
    then show "node_at g q \<noteq> None" using other f(2) by (cases "q = p") auto
  qed
  ultimately show ?thesis using f(1) fault gr grows_trans unfolding images_ok_def grow_ok_def by blast
qed

lemma write_node_cases:
  assumes "untorn (fault w)" "write_file p c w = (r, t)"
  shows "fault t = fault w \<and> (fs t = fs w \<and> (\<exists>e. r = Inl e) \<or> fs t = set_node p (File c) (fs w) \<and> r = Inr ())"
proof -
  have "fault t = fault w"
    using keepsD [OF keeps_fault(8), of "\<lambda>f. f = fault w"] assms(2) by blast
  moreover have "fault w (tick w) = Some 0 \<or> fault w (tick w) = None"
    using assms(1) unfolding untorn_def by (metis not0_implies_Suc not_None_eq)
  ultimately show ?thesis using assms(2)
    by (auto simp: write_file_def prim_def write_node_def Let_def split: option.splits node.splits)
qed

lemma write_blob_step:
  assumes s: "store_dir h = Inr s" and d: "\<not> built d" "bytes = blob d"
  shows "triple (going L blob s f0) (write_blob h d bytes)
           (\<lambda>_ w. going L blob s f0 w \<and> (\<exists>p. filed ''blobs'' s d p \<and> node_at (fs w) p = Some (File (blob d))))
           (going L blob s f0)"
proof (cases "blob_path h d")
  case (Inl e)
  then show ?thesis by (simp add: write_blob_def triple_fail)
next
  case (Inr p)
  then have p: "filed ''blobs'' s d p" using s by (simp add: blob_path_Inr)
  then obtain a x where ax: "p = s @ [Normal ''blobs'', Normal a, Normal x]" by (auto simp: filed_def)
  have par: "parent p = Some (s @ [Normal ''blobs'', Normal a])"
    by (simp add: ax parent_def butlast_append)
  have wr: "going L blob s f0 t \<and> (r = Inr () \<longrightarrow> node_at (fs t) p = Some (File (blob d)))"
    if g: "going L blob s f0 w" and t: "write_file p bytes w = (r, t)" for w r t
  proof -
    have "untorn (fault w)" using g by (simp add: going_def)
    note c = write_node_cases [OF this t]
    have wf: "wf_fs (fs t)" using keepsD [OF keeps_wf(1) _ t] g by (simp add: going_def)
    show ?thesis
    proof (cases "fs t = fs w")
      case True
      then have "going L blob s f0 t" using g c by (simp add: going_def)
      moreover have "r = Inr () \<Longrightarrow> node_at (fs t) p = Some (File (blob d))"
        using write_file_Inr [of p bytes w "()" t] t d(2) by simp
      ultimately show ?thesis by blast
    next
      case False
      with c have f: "fs t = set_node p (File bytes) (fs w)" "fault t = fault w" by blast+
      have n: "node_at (fs t) p = Some (File (blob d))" by (simp add: f(1) d(2) node_at_set_node)
      have o: "node_at (fs t) q = node_at (fs w) q" if "q \<noteq> p" for q
        using that by (simp add: f(1) node_at_set_node)
      have u: "untorn (fault t)" using g f(2) by (simp add: going_def)
      have "wf_fs (fs t) \<and> images_ok L blob s f0 (fs t) \<and> untorn (fault t)"
        by (rule going_set_blob [OF g p d(1) wf n o u])
      with n show ?thesis by (simp add: going_def)
    qed
  qed
  have 2: "triple (going L blob s f0) (contextM m (write_file p bytes))
      (\<lambda>_ w. going L blob s f0 w \<and> (\<exists>p. filed ''blobs'' s d p \<and> node_at (fs w) p = Some (File (blob d))))
      (going L blob s f0)" for m
  proof (rule triple_context, rule tripleI)
    fix w x t assume "going L blob s f0 w" "write_file p bytes w = (Inr x, t)"
    from wr [OF this] p show "going L blob s f0 t \<and> (\<exists>p. filed ''blobs'' s d p \<and> node_at (fs t) p = Some (File (blob d)))"
      by auto
  next
    fix w e t assume "going L blob s f0 w" "write_file p bytes w = (Inl e, t)"
    from wr [OF this] show "going L blob s f0 t" by simp
  qed
  show ?thesis
    unfolding write_blob_def Inr liftM_simps bindM_simps create_parent_def par option.case
    by (rule triple_bind [OF keeps_into [OF create_area_step] 2]) auto
qed

lemma rename_node_Inr_empty:
  "rename_node a b f = (Inr u, g) \<Longrightarrow> a \<noteq> b \<Longrightarrow> under b q \<Longrightarrow> q \<noteq> b \<Longrightarrow> node_at f q = None"
  unfolding rename_node_def node_at_def
  by (auto simp: list_ex_iff map_of_eq_None_iff split: option.splits if_splits)

lemma commit_step:
  assumes s: "store_dir h = Inr s" and temp: "temp_of s temp" and d: "\<not> built d"
  shows "triple (\<lambda>w. going L blob s f0 w \<and> node_at (fs w) temp = Some (File (blob d)))
           (commit_blob h temp d)
           (\<lambda>_ w. going L blob s f0 w \<and> present ''blobs'' s (fs w) d) (going L blob s f0)"
proof (cases "blob_path h d")
  case (Inl e)
  then show ?thesis by (simp add: commit_blob_def triple_def script_simps)
next
  case (Inr p)
  then have p: "filed ''blobs'' s d p" using s by (simp add: blob_path_Inr)
  then obtain a x where ax: "p = s @ [Normal ''blobs'', Normal a, Normal x]" by (auto simp: filed_def)
  have par: "parent p = Some (s @ [Normal ''blobs'', Normal a])"
    by (simp add: ax parent_def butlast_append)
  let ?P = "\<lambda>w. going L blob s f0 w \<and> node_at (fs w) temp = Some (File (blob d))"
  have tp: "temp \<noteq> p" "\<not> under temp p" "temp \<noteq> []" "p \<noteq> []" "below_temp s temp"
    using temp under_refl by (auto simp: ax temp_of_def under_iff below_temp_def)
  have 1: "keeps ?P (contextM m (create_dir_all (s @ [Normal ''blobs'', Normal a])))" for m
  proof (rule keeps_conj)
    have "temp \<noteq> q" if "under q (s @ [Normal ''blobs'', Normal a])" for q
    proof
      assume "temp = q"
      with that temp show False by (auto simp: temp_of_def under_iff)
    qed
    then show "keeps (\<lambda>w. node_at (fs w) temp = Some (File (blob d)))
        (contextM m (create_dir_all (s @ [Normal ''blobs'', Normal a])))"
      by (intro keeps_context kept_node.create_dir_all) auto
  qed (rule create_area_step, simp)
  have 2: "triple ?P (contextM m (rename temp p))
      (\<lambda>_ w. going L blob s f0 w \<and> present ''blobs'' s (fs w) d) (going L blob s f0)" for m
  proof (rule triple_context, rule tripleI)
    fix w x t assume w: "?P w" and t: "rename temp p w = (Inr x, t)"
    from t have r: "rename_node temp p (fs w) = (Inr x, fs t)" and ft: "fault t = fault w"
      unfolding rename_def by (blast dest: prim_Inr)+
    have wf: "wf_fs (fs t)" using wf_rename [of "fs w" temp p] w tp r by (simp add: going_def)
    have n: "node_at (fs t) p = Some (File (blob d))"
      using rename_node_Inr(1) [OF r tp(1,2), of "[]"] w by simp
    have o: "node_at (fs t) q = node_at (fs w) q" if "q \<noteq> p" "\<not> below_temp s q" for q
    proof (cases "under p q")
      case True
      then obtain y where y: "q = p @ y" by (auto simp: under_iff)
      with that(1) have "y \<noteq> []" by auto
      note y = y this
      have "node_at (fs w) (temp @ y) = None"
        using wf_absent [of "fs w" temp "temp @ y"] w y(2) tp(3) by (simp add: going_def)
      then show ?thesis using rename_node_Inr(1) [OF r tp(1,2), of y] y(1)
          rename_node_Inr_empty [OF r tp(1) True that(1)] by simp
    next
      case False
      have "\<not> under temp q" using that(2) temp by (auto simp: below_temp_def)
      with False have "same_on ((=) q) (fs w) (snd (rename_node temp p (fs w)))"
        by (intro same_on_rename) auto
      then show ?thesis using r by (simp add: same_on_def)
    qed
    have "wf_fs (fs t) \<and> images_ok L blob s f0 (fs t) \<and> untorn (fault t)"
      by (rule going_set_blob [OF conjunct1 [OF w] p d wf n o]) (use w ft in \<open>auto simp: going_def\<close>)
    with n p show "going L blob s f0 t \<and> present ''blobs'' s (fs t) d"
      by (auto simp: going_def present_def)
  next
    fix w e t assume w: "?P w" and t: "rename temp p w = (Inl e, t)"
    have "fs t = fs w \<and> fault t = fault w" using t unfolding rename_def prim_def
      by (auto simp: Let_def rename_node_def split: option.splits nat.splits prod.splits if_splits)
    with w show "going L blob s f0 t" by (simp add: going_def)
  qed
  show ?thesis
    unfolding commit_blob_def Inr liftM_simps bindM_simps create_parent_def par option.case
    by (rule triple_bind [OF keeps_into [OF 1] 2]) auto
qed

lemma fetch_config_step:
  assumes s: "store_dir h = Inr s" and R: "registry_ok L R blob"
  shows "triple (going L blob s f0) (fetch_config h R ref d)
           (\<lambda>_ w. going L blob s f0 w \<and> present ''blobs'' s (fs w) (digest d)) (going L blob s f0)"
proof -
  have tag: "CHR ''/'' \<notin> set ''config''" by simp
  have 1: "triple (\<lambda>w. going L blob s f0 w \<and> temp_of s temp)
      (bindM (download_blob R ref d temp) (\<lambda>_. commit_blob h temp (digest d)))
      (\<lambda>_ w. going L blob s f0 w \<and> present ''blobs'' s (fs w) (digest d)) (going L blob s f0)" for temp
  proof (cases "temp_of s temp")
    case True
    show ?thesis
    proof (rule triple_bind)
      show "triple (\<lambda>w. going L blob s f0 w \<and> temp_of s temp) (download_blob R ref d temp)
         (\<lambda>_ w. going L blob s f0 w \<and> node_at (fs w) temp = Some (File (blob (digest d))) \<and> \<not> built (digest d))
         (going L blob s f0)"
        by (rule triple_weaken [OF download_triple [OF R True]]) auto
      show "triple (\<lambda>w. going L blob s f0 w \<and> node_at (fs w) temp = Some (File (blob (digest d))) \<and> \<not> built (digest d))
         (commit_blob h temp (digest d))
         (\<lambda>_ w. going L blob s f0 w \<and> present ''blobs'' s (fs w) (digest d)) (going L blob s f0)"
        using commit_step [OF s True, of "digest d" L blob f0]
        by (cases "built (digest d)") (auto simp: triple_def)
    qed
  qed (simp add: triple_def)
  have 2: "triple (\<lambda>w. going L blob s f0 w \<and> (there \<longrightarrow> present ''blobs'' s (fs w) (digest d)))
      (whenM (\<not> there) (bindM (temp_path h ''config'') (\<lambda>temp.
         bindM (download_blob R ref d temp) (\<lambda>_. commit_blob h temp (digest d)))))
      (\<lambda>_ w. going L blob s f0 w \<and> present ''blobs'' s (fs w) (digest d)) (going L blob s f0)" for there
  proof (cases there)
    case False
    with triple_bind [OF temp_path_triple [OF s tag] 1] show ?thesis by simp
  qed (auto simp: triple_def script_simps)
  show ?thesis unfolding fetch_config_def by (rule triple_bind [OF has_blob_step [OF s] 2])
qed

section \<open>A whole image\<close>

lemma triple_keeps: "triple I m (\<lambda>x s. I s \<and> Q x s) I \<Longrightarrow> keeps I m"
  unfolding keeps_triple by (erule triple_weaken) auto

lemma pending_step:
  assumes s: "store_dir h = Inr s"
  shows "triple (going L blob s f0) (pending_layers h ds)
           (\<lambda>pend w. going L blob s f0 w \<and> (\<forall>d \<in> set ds. d \<in> set pend \<or> present ''layers'' s (fs w) (digest d)))
           (going L blob s f0)"
proof (induction ds)
  case Nil
  then show ?case by (auto simp: triple_def script_simps)
next
  case (Cons d ds)
  let ?T = "\<lambda>there f. there \<longrightarrow> present ''layers'' s f (digest d)"
  have k: "keeps (going L blob s f) (pending_layers h ds)" for f
  proof (induction ds)
    case (Cons e es)
    then show ?case using triple_keeps [OF has_layer_step [OF s]] by (auto intro!: keeps_intros)
  qed (simp add: keeps_return)
  have "keeps (\<lambda>w. going L blob s f0 w \<and> ?T there (fs w)) (pending_layers h ds)" for there
    by (rule going_persists [OF k]) (use present_grows in auto)
  from triple_conj [OF iffD1 [OF keeps_triple this] Cons]
  have "triple (\<lambda>w. going L blob s f0 w \<and> ?T there (fs w)) (pending_layers h ds)
      (\<lambda>pend w. going L blob s f0 w \<and> ?T there (fs w) \<and>
         (\<forall>d \<in> set ds. d \<in> set pend \<or> present ''layers'' s (fs w) (digest d))) (going L blob s f0)" for there
    by (rule triple_weaken) auto
  then have "triple (\<lambda>w. going L blob s f0 w \<and> ?T there (fs w))
      (bindM (pending_layers h ds) (\<lambda>rest. returnM (if there then rest else d # rest)))
      (\<lambda>pend w. going L blob s f0 w \<and>
         (\<forall>d \<in> set (d # ds). d \<in> set pend \<or> present ''layers'' s (fs w) (digest d))) (going L blob s f0)" for there
    by (rule triple_bind) (auto simp: triple_def script_simps)
  then show ?case unfolding pending_layers.simps by (rule triple_bind [OF has_layer_step [OF s]])
qed

lemma fetch_layers_step:
  assumes L: "archives_ordered L" and s: "store_dir h = Inr s" and R: "registry_ok L R blob"
  shows "triple (going L blob s f0) (forM ds (fetch_layer L h R ref))
           (\<lambda>_ w. going L blob s f0 w \<and> (\<forall>d \<in> set ds. present ''layers'' s (fs w) (digest d)))
           (going L blob s f0)"
proof (induction ds)
  case Nil
  then show ?case by (auto simp: triple_def script_simps)
next
  case (Cons d ds)
  have "keeps (going L blob s f) (forM ds (fetch_layer L h R ref))" for f
    using triple_keeps [OF fetch_layer_step [OF L s R]] by (intro keeps_forM) auto
  then have "keeps (\<lambda>w. going L blob s f0 w \<and> present ''layers'' s (fs w) (digest d)) (forM ds (fetch_layer L h R ref))"
    by (rule going_persists) (use present_grows in auto)
  from triple_conj [OF iffD1 [OF keeps_triple this] Cons]
  have "triple (\<lambda>w. going L blob s f0 w \<and> present ''layers'' s (fs w) (digest d)) (forM ds (fetch_layer L h R ref))
      (\<lambda>_ w. going L blob s f0 w \<and> (\<forall>d \<in> set (d # ds). present ''layers'' s (fs w) (digest d))) (going L blob s f0)"
    by (rule triple_weaken) auto
  then show ?case unfolding forM.simps by (rule triple_bind [OF fetch_layer_step [OF L s R]])
qed

text \<open>The record is written last.\<close>

definition proper_ref :: "string \<Rightarrow> bool" where
  "proper_ref r \<longleftrightarrow> r \<notin> {[], ''.'', ''..''}"

lemma going_store_ok: "going L blob s f0 w \<Longrightarrow> refs_whole L s f0 \<Longrightarrow> store_ok L blob s (fs w)"
  using refs_whole_grows by (auto simp: going_def images_ok_def grow_ok_def store_ok_def)

lemma record_step:
  assumes s: "store_dir h = Inr s" and r: "proper_ref r" and refs: "refs_whole L s f0"
  shows "triple (\<lambda>w. going L blob s f0 w \<and> image_in L s (fs w) D) (record_ref h r D)
           (\<lambda>_ w. store_ok L blob s (fs w) \<and> data_kept s f0 (fs w) \<and> image_in L s (fs w) D \<and>
                  node_at (fs w) (ref_path s (marker_name r)) = Some (File D))
           (going L blob s f0)"
proof -
  let ?p = "ref_path s (marker_name r)"
  have m: "ref_marker h r = Inr ?p"
    using r by (simp add: ref_marker_def s join_plain plain_areas marker_plain proper_ref_def ref_path_def)
  have par: "parent ?p = Some (s @ [Normal ''refs''])" by (simp add: ref_path_def parent_def butlast_append)
  have 1: "keeps (\<lambda>w. going L blob s f0 w \<and> image_in L s (fs w) D) (create_parent ?p)"
    unfolding create_parent_def par option.case
    by (rule going_persists; (intro keeps_context keeps_going keeps_intros images.create_dir_all)?)
      (use refs_dir image_in_kept grows_data in auto)
  have 2: "triple (\<lambda>w. going L blob s f0 w \<and> image_in L s (fs w) D) (write_file ?p D)
      (\<lambda>_ w. store_ok L blob s (fs w) \<and> data_kept s f0 (fs w) \<and> image_in L s (fs w) D \<and> node_at (fs w) ?p = Some (File D))
      (going L blob s f0)"
  proof (rule tripleI)
    fix w x t assume w: "going L blob s f0 w \<and> image_in L s (fs w) D" and t: "write_file ?p D w = (Inr x, t)"
    then have f: "fs t = set_node ?p (File D) (fs w)"
      using write_node_cases [of w ?p D "Inr x" t] by (auto simp: going_def)
    have b: "node_at (fs t) q = node_at (fs w) q" if "\<forall>n. q \<noteq> ref_path s n" for q
      using that by (auto simp: f node_at_set_node)
    have d: "data_kept s (fs w) (fs t)"
      unfolding data_kept_def by (auto simp: b filed_def ref_path_def)
    have im: "image_in L s (fs t) E" if "image_in L s (fs w) E" for E
      using image_in_kept [OF that d] .
    have "refs_whole L s (fs t)" unfolding refs_whole_def
    proof (intro allI impI)
      fix n E assume "node_at (fs t) (ref_path s n) = Some (File E)"
      then have "image_in L s (fs w) E"
        using w refs_whole_grows [OF refs going_grows]
        by (auto simp: f node_at_set_node refs_whole_def ref_path_def split: if_splits)
      then show "image_in L s (fs t) E" by (rule im)
    qed
    moreover have "layers_whole L blob s (fs t)"
    proof -
      have "same_on (layer_place s) (fs w) (fs t)"
        by (auto simp: same_on_def b layer_place_def filed_def ref_path_def under_iff)
      then show ?thesis using w layer_store.stable unfolding going_def images_ok_def by blast
    qed
    moreover have "blobs_right blob s (fs t)"
    proof -
      have "node_at (fs t) q = node_at (fs w) q" if "filed ''blobs'' s e q" for e q
        using that by (intro b) (auto simp: filed_def ref_path_def)
      then show ?thesis using w unfolding going_def images_ok_def grow_ok_def blobs_right_def by metis
    qed
    moreover have "wf_fs (fs t)" using keepsD [OF keeps_wf(1) _ t] w by (simp add: going_def)
    moreover have "data_kept s f0 (fs t)"
      using grows_data [OF going_grows] w d unfolding data_kept_def by (meson conjE)
    ultimately show "store_ok L blob s (fs t) \<and> data_kept s f0 (fs t) \<and> image_in L s (fs t) D \<and> node_at (fs t) ?p = Some (File D)"
      using im w by (simp add: store_ok_def f node_at_set_node)
  next
    fix w e t assume w: "going L blob s f0 w \<and> image_in L s (fs w) D" and t: "write_file ?p D w = (Inl e, t)"
    then show "going L blob s f0 t"
      using write_node_cases [of w ?p D "Inl e" t] by (auto simp: going_def)
  qed
  show ?thesis unfolding record_ref_def m liftM_simps bindM_simps
    by (rule triple_bind [OF keeps_into [OF 1] triple_context [OF 2]]) simp
qed

lemma fetch_image_triple:
  assumes L: "archives_ordered L" and s: "store_dir h = Inr s" and R: "registry_ok L R blob"
    and r: "proper_ref ref" and refs: "refs_whole L s f0"
  shows "triple (going L blob s f0) (fetch_image L h R ref)
           (\<lambda>_ w. store_ok L blob s (fs w) \<and> data_kept s f0 (fs w) \<and>
              (\<exists>D. node_at (fs w) (ref_path s (marker_name ref)) = Some (File D) \<and> image_in L s (fs w) D))
           (going L blob s f0)"
proof -
  have at: "keeps (going L blob s f0) (contextM m (bindM (at_tick q) liftM))" for m and q :: "nat \<Rightarrow> 'x res"
    by (intro keeps_intros keeps_going)
  have 1: "triple (going L blob s f0) (contextM m (bindM (at_tick (pull_image_manifest R ref)) liftM))
      (\<lambda>x w. going L blob s f0 w \<and> \<not> built (snd x) \<and> manifest_of L (blob (snd x)) = Inr (fst x))
      (going L blob s f0)" for m
  proof (rule tripleI)
    fix w x t assume w: "going L blob s f0 w"
      and t: "contextM m (bindM (at_tick (pull_image_manifest R ref)) liftM) w = (Inr x, t)"
    then have "pull_image_manifest R ref (tick w) = Inr x" by (auto simp: bindM_Inr at_tick_def script_simps)
    then show "going L blob s f0 t \<and> \<not> built (snd x) \<and> manifest_of L (blob (snd x)) = Inr (fst x)"
      using keepsD [OF at w t] R unfolding registry_ok_def by (cases x) auto
  qed (use keepsD [OF at] in blast)
  have 2: "triple (\<lambda>w. going L blob s f0 w \<and> X) (contextM m (bindM (at_tick (pull_manifest_raw R ref D)) liftM))
      (\<lambda>raw w. (going L blob s f0 w \<and> X) \<and> raw = blob D) (going L blob s f0)" for m D X
  proof (rule tripleI)
    fix w x t assume w: "going L blob s f0 w \<and> X"
      and t: "contextM m (bindM (at_tick (pull_manifest_raw R ref D)) liftM) w = (Inr x, t)"
    then have "pull_manifest_raw R ref D (tick w) = Inr x" by (auto simp: bindM_Inr at_tick_def script_simps)
    then show "(going L blob s f0 t \<and> X) \<and> x = blob D"
      using keepsD [OF at _ t] w R unfolding registry_ok_def by auto
  qed (use keepsD [OF at] in blast)
  let ?man = "\<lambda>D f. \<exists>p. filed ''blobs'' s D p \<and> node_at f p = Some (File (blob D))"
  let ?con = "\<lambda>M f. present ''blobs'' s f (digest (man_config M))"
  have man: "?man D f \<Longrightarrow> data_kept s f g \<Longrightarrow> ?man D g" for D f g
    unfolding data_kept_def by blast
  have rest: "triple (\<lambda>w. going L blob s f0 w \<and> ?man D (fs w))
      (bindM (fetch_config h R ref (man_config M)) (\<lambda>_.
       bindM (pending_layers h (man_layers M)) (\<lambda>pending.
       bindM (forM pending (fetch_layer L h R ref)) (\<lambda>_.
       bindM (record_ref h ref D) (\<lambda>_. eprint (msg pending))))))
      (\<lambda>_ w. store_ok L blob s (fs w) \<and> data_kept s f0 (fs w) \<and>
         image_in L s (fs w) D \<and> node_at (fs w) (ref_path s (marker_name ref)) = Some (File D))
      (going L blob s f0)" if M: "manifest_of L (blob D) = Inr M" for D M msg
  proof -
    let ?Q1 = "\<lambda>f. ?man D f"
    let ?Q2 = "\<lambda>f. ?man D f \<and> ?con M f"
    let ?Q3 = "\<lambda>pend f. ?Q2 f \<and> (\<forall>d \<in> set (man_layers M). d \<in> set pend \<or> present ''layers'' s f (digest d))"
    have a: "triple (\<lambda>w. going L blob s f0 w \<and> ?Q1 (fs w)) (fetch_config h R ref (man_config M))
        (\<lambda>_ w. going L blob s f0 w \<and> ?Q2 (fs w)) (going L blob s f0)"
    proof -
      have "keeps (\<lambda>w. going L blob s f0 w \<and> ?Q1 (fs w)) (fetch_config h R ref (man_config M))"
        by (rule going_persists [OF triple_keeps [OF fetch_config_step [OF s R]]]) (rule man [OF _ grows_data])
      from triple_conj [OF iffD1 [OF keeps_triple this] fetch_config_step [OF s R]]
      show ?thesis by (rule triple_weaken) auto
    qed
    have b: "triple (\<lambda>w. going L blob s f0 w \<and> ?Q2 (fs w)) (pending_layers h (man_layers M))
        (\<lambda>pend w. going L blob s f0 w \<and> ?Q3 pend (fs w)) (going L blob s f0)"
    proof -
      have "keeps (\<lambda>w. going L blob s f0 w \<and> ?Q2 (fs w)) (pending_layers h (man_layers M))"
        by (rule going_persists [OF triple_keeps [OF pending_step [OF s]]])
          (use man grows_data present_grows in blast)
      from triple_conj [OF iffD1 [OF keeps_triple this] pending_step [OF s]]
      show ?thesis by (rule triple_weaken) auto
    qed
    have c: "triple (\<lambda>w. going L blob s f0 w \<and> ?Q3 pend (fs w)) (forM pend (fetch_layer L h R ref))
        (\<lambda>_ w. going L blob s f0 w \<and> image_in L s (fs w) D) (going L blob s f0)" for pend
    proof -
      have "keeps (\<lambda>w. going L blob s f0 w \<and> ?Q3 pend (fs w)) (forM pend (fetch_layer L h R ref))"
        by (rule going_persists [OF triple_keeps [OF fetch_layers_step [OF L s R]]])
          (use man grows_data present_grows in blast)
      from triple_conj [OF iffD1 [OF keeps_triple this] fetch_layers_step [OF L s R]]
      show ?thesis
      proof (rule triple_weaken)
        fix w assume w: "(going L blob s f0 w \<and> ?Q3 pend (fs w)) \<and> going L blob s f0 w \<and>
            (\<forall>d \<in> set pend. present ''layers'' s (fs w) (digest d))"
        then obtain p where "filed ''blobs'' s D p" "node_at (fs w) p = Some (File (blob D))" by blast
        with w M have "image_in L s (fs w) D" unfolding image_in_def by blast
        with w show "going L blob s f0 w \<and> image_in L s (fs w) D" by blast
      qed auto
    qed
    have e: "triple Q (eprint m) (\<lambda>_. Q) E" if "\<And>w m. Q w \<Longrightarrow> Q (w\<lparr>stderr := m\<rparr>)" for Q E m
      using that by (simp add: triple_def eprint_def)
    show ?thesis
      by (rule triple_bind [OF a], rule triple_bind [OF b], rule triple_bind [OF c],
          rule triple_bind [OF record_step [OF s r refs]], rule e) simp
  qed
  have 3: "triple (\<lambda>w. (going L blob s f0 w \<and> \<not> built D \<and> manifest_of L (blob D) = Inr M) \<and> raw = blob D)
      (bindM (write_blob h D raw) (\<lambda>_.
       bindM (fetch_config h R ref (man_config M)) (\<lambda>_.
       bindM (pending_layers h (man_layers M)) (\<lambda>pending.
       bindM (forM pending (fetch_layer L h R ref)) (\<lambda>_.
       bindM (record_ref h ref D) (\<lambda>_. eprint (msg pending)))))))
      (\<lambda>_ w. store_ok L blob s (fs w) \<and> data_kept s f0 (fs w) \<and>
         (\<exists>D. node_at (fs w) (ref_path s (marker_name ref)) = Some (File D) \<and> image_in L s (fs w) D))
      (going L blob s f0)" for D M raw msg
  proof (cases "\<not> built D \<and> manifest_of L (blob D) = Inr M \<and> raw = blob D")
    case True
    then show ?thesis
      using triple_bind [OF write_blob_step [OF s, of D raw blob L f0] rest [of D M msg]]
      by (auto elim!: triple_weaken)
  qed (auto simp: triple_def)
  show ?thesis unfolding fetch_image_def
  proof (rule triple_bind [OF 1], goal_cases)
    case (1 x)
    show ?case by (cases x) (simp, rule triple_bind [OF 2], rule 3)
  qed
qed


definition demo_manifest :: manifest where
  "demo_manifest = \<lparr>man_config = \<lparr>media_type = ''c'', digest = ''a:c'', blob_size = 7\<rparr>,
     man_layers = [\<lparr>media_type = ''application/tar'', digest = ''a:b'', blob_size = 7\<rparr>]\<rparr>"

definition demo_image_libs :: libs where
  "demo_image_libs = demo_libs\<lparr>manifest_of := (\<lambda>b. if b = ''content'' then Inr demo_manifest else Inl (Ext ''torn''))\<rparr>"

definition demo_registry :: registry where
  "demo_registry = \<lparr>pull_image_manifest = (\<lambda>_ _. Inr (demo_manifest, ''a:m'')),
     pull_manifest_raw = (\<lambda>_ _ _. Inr ''content''),
     pull_blob = (\<lambda>_ d _. (''content'', if built (digest d) then Inl (Ext ''digest'') else Inr ()))\<rparr>"

lemma demo_registry_ok: "registry_ok demo_image_libs demo_registry (\<lambda>_. ''content'')"
  by (auto simp: registry_ok_def demo_registry_def demo_image_libs_def built_def starts_with_def
      split: if_splits)

lemma demo_store_ok: "store_ok demo_image_libs (\<lambda>_. ''content'') demo_images demo_store_fs"
  by (auto simp: store_ok_def wf_fs_def layers_whole_def blobs_right_def refs_whole_def filed_def
      ref_path_def node_at_def demo_store_fs_def demo_images_def split: if_splits)


section \<open>A torn write\<close>

lemma make_dirs_there:
  assumes "wf_fs f" "node_at f p \<noteq> None"
  shows "make_dirs (ancestors (butlast p)) f = (Inr (), f)"
proof -
  have d: "make_dir a f = (Inr (), f)" if "a \<in> set (ancestors (butlast p))" for a
  proof -
    have "a \<noteq> []" "under a (butlast p)" using that by (auto simp: set_ancestors)
    then obtain x where "p = a @ x" "x \<noteq> []"
      by (metis under_iff append_butlast_last_id append_assoc butlast.simps(1) append_is_Nil_conv list.distinct(1))
    then have "is_dir_node (node_at f a)" using wf_under [OF assms(1), of a x] assms(2) \<open>a \<noteq> []\<close> by simp
    then show ?thesis
      by (auto simp: make_dir_def stat_def eval_nat_numeral is_dir_node_iff)
  qed
  have "make_dirs as f = (Inr (), f)" if "set as \<subseteq> set (ancestors (butlast p))" for as
    using that by (induction as) (auto simp: d)
  then show ?thesis by blast
qed

text \<open>
  C35: \<open>write_blob\<close> writes the manifest in place, so fetching an image that is already in the store
  can destroy it: when the disk is full or the process is killed at the moment the manifest is
  written again, its first bytes are all that is left, while the reference stays recorded.
\<close>

theorem refetch_torn_manifest:
  assumes "store_dir h = Inr s" "wf_fs (fs w)"
    and "pull_image_manifest R ref (tick w) = Inr (m, D)" "pull_manifest_raw R ref D (Suc (tick w)) = Inr raw"
    and "filed ''blobs'' s D p" "node_at (fs w) p = Some (File old)"
    and "fault w = (\<lambda>n. if n = tick w + 3 then Some (Suc k) else None)"
  shows "\<exists>e t. fetch_image L h R ref w = (Inl e, t) \<and> node_at (fs t) p = Some (File (take k raw)) \<and>
           (\<forall>q. q \<noteq> p \<longrightarrow> node_at (fs t) q = node_at (fs w) q)"
proof -
  have b: "blob_path h D = Inr p" using assms(1,5) by (simp add: blob_path_Inr)
  obtain a x where ax: "p = s @ [Normal ''blobs'', Normal a, Normal x]" using assms(5) by (auto simp: filed_def)
  have par: "parent p = Some (butlast p)" by (simp add: ax parent_def)
  have dirs: "make_dirs (ancestors (butlast p)) (fs w) = (Inr (), fs w)"
    by (rule make_dirs_there) (use assms in auto)
  show ?thesis
    by (simp add: fetch_image_def bindM_def contextM_def at_tick_def script_simps assms(3,4) write_blob_def b
        create_parent_def par create_dir_all_def prim_def assms(7) dirs write_file_def write_node_def assms(6)
        Let_def node_at_set_node)
qed

definition demo_blob :: path where
  "demo_blob = demo_images @ [Normal ''blobs'', Normal ''a'', Normal ''m'']"

definition demo_torn_world :: world where
  "demo_torn_world = demo_world ((demo_images @ [Normal ''blobs''], Dir 0x1ED) #
      (demo_images @ [Normal ''blobs'', Normal ''a''], Dir 0x1ED) # (demo_blob, File ''content'') #
      demo_store_fs) \<lparr>fault := (\<lambda>n. if n = 3 then Some 1 else None)\<rparr>"

theorem refetch_torn_manifest_witness:
  "\<exists>e t. fetch_image demo_image_libs demo_host demo_registry ''r'' demo_torn_world = (Inl e, t) \<and>
     node_at (fs demo_torn_world) demo_blob = Some (File ''content'') \<and>
     node_at (fs t) demo_blob = Some (File [])"
proof -
  have c: "is_clean ''a''" "is_clean ''m''"
    by (simp_all add: is_clean_def is_ascii_alphanumeric_def is_ascii_alphabetic_def is_ascii_lowercase_def)
  have s: "store_dir demo_host = Inr demo_images" by (simp add: demo_store demo_images_def)
  have p: "filed ''blobs'' demo_images ''a:m'' demo_blob"
    using c by (auto simp: filed_def demo_blob_def)
  have n: "node_at (fs demo_torn_world) demo_blob = Some (File ''content'')"
    by (simp add: demo_torn_world_def demo_world_def node_at_def demo_blob_def)
  have wf: "wf_fs (fs demo_torn_world)"
    by (auto simp: wf_fs_def node_at_def demo_torn_world_def demo_world_def demo_store_fs_def
        demo_images_def demo_blob_def split: if_splits)
  have f: "tick demo_torn_world = 0" "fault demo_torn_world = (\<lambda>n. if n = tick demo_torn_world + 3 then Some (Suc 0) else None)"
    by (simp_all add: demo_torn_world_def demo_world_def fun_eq_iff)
  have r: "pull_image_manifest demo_registry ''r'' (tick demo_torn_world) = Inr (demo_manifest, ''a:m'')"
    "pull_manifest_raw demo_registry ''r'' ''a:m'' (Suc (tick demo_torn_world)) = Inr ''content''"
    by (simp_all add: demo_registry_def)
  from refetch_torn_manifest [OF s wf r p n f(2), of demo_image_libs] n show ?thesis by auto
qed

end
