(* ===== verification/Image_Gc.thy ===== *)
theory Image_Gc
  imports Store_Integrity
begin

text \<open>
  Deleting image data no image needs, \<open>gc_images\<close> of \<open>src/clean.rs\<close>. Whatever fails on the
  way, nothing a recorded image needs is touched; and a collection that succeeds leaves nothing else.
\<close>

section \<open>The code\<close>

definition entries :: "path \<Rightarrow> string list io" where
  "entries dir =
     bindM (tryM (read_dir dir)) (\<lambda>r.
     case r of
       Inr names \<Rightarrow> returnM names
     | Inl e \<Rightarrow> if e = not_found then returnM []
               else failM (Context (''reading '' @ path_str dir) e))"

text \<open>One entry of \<open>refs/\<close>; the sets of live digests are lists.\<close>

definition live_ref :: "libs \<Rightarrow> host \<Rightarrow> path \<Rightarrow> (string list \<times> string list) io" where
  "live_ref L h p =
     bindM (contextM (''reading ref '' @ path_str p) (read_file p)) (\<lambda>txt.
     let md = trim txt in
     if md = [] then returnM ([], [])
     else
       bindM (read_blob h md) (\<lambda>bytes.
       bindM (contextM (''parsing manifest '' @ md) (liftM (manifest_of L bytes))) (\<lambda>m.
       returnM ([md, digest (man_config m)], map digest (man_layers m)))))"

fun live_refs :: "libs \<Rightarrow> host \<Rightarrow> path \<Rightarrow> string list \<Rightarrow> (string list \<times> string list) io" where
  "live_refs L h dir [] = returnM ([], [])"
| "live_refs L h dir (n # ns) =
     bindM (live_ref L h (dir @ [Normal n])) (\<lambda>(b, l).
     bindM (live_refs L h dir ns) (\<lambda>(bs, ls). returnM (b @ bs, l @ ls)))"

definition live_set :: "libs \<Rightarrow> host \<Rightarrow> path \<Rightarrow> (string list \<times> string list) io" where
  "live_set L h store =
     bindM (entries (join_str store ''refs'')) (\<lambda>ns. live_refs L h (join_str store ''refs'') ns)"

definition sweep_blob :: "string list \<Rightarrow> path \<Rightarrow> string \<Rightarrow> string \<Rightarrow> unit io" where
  "sweep_blob live dir algo b =
     whenM (\<not> List.member live (algo @ '':'' @ b))
       (contextM (''removing blob '' @ algo @ '':'' @ b) (remove_file (dir @ [Normal algo, Normal b])))"

definition sweep_layer :: "string list \<Rightarrow> path \<Rightarrow> string \<Rightarrow> string \<Rightarrow> unit io" where
  "sweep_layer live dir algo n =
     whenM (starts_with ''.extract-'' n \<or> \<not> List.member live (algo @ '':'' @ n))
       (remove_tree (dir @ [Normal algo, Normal n]))"

definition sweep_download :: "path \<Rightarrow> string \<Rightarrow> unit io" where
  "sweep_download store n =
     whenM (starts_with ''.download-'' n)
       (contextM (''removing '' @ path_str (store @ [Normal n])) (remove_file (store @ [Normal n])))"

definition sweep_area :: "path \<Rightarrow> (string \<Rightarrow> string \<Rightarrow> unit io) \<Rightarrow> unit io" where
  "sweep_area dir sweep =
     bindM (entries dir) (\<lambda>algos.
     forM algos (\<lambda>algo.
       bindM (entries (dir @ [Normal algo])) (\<lambda>ns. forM ns (sweep algo))))"

definition sweep :: "path \<Rightarrow> string list \<Rightarrow> string list \<Rightarrow> unit io" where
  "sweep store live_blobs live_layers =
     bindM (sweep_area (join_str store ''blobs'') (sweep_blob live_blobs (join_str store ''blobs''))) (\<lambda>_.
     bindM (sweep_area (join_str store ''layers'') (sweep_layer live_layers (join_str store ''layers''))) (\<lambda>_.
     bindM (entries store) (\<lambda>ns. forM ns (sweep_download store))))"

definition gc_images :: "libs \<Rightarrow> host \<Rightarrow> unit io" where
  "gc_images L h =
     bindM (liftM (store_dir h)) (\<lambda>store.
     bindM (path_exists store) (\<lambda>there.
     if \<not> there then returnM ()
     else
       bindM (tryM (live_set L h store)) (\<lambda>r.
       case r of
         Inl err \<Rightarrow> eprint (''skipping image GC: '' @ error_str err)
       | Inr (bs, ls) \<Rightarrow> sweep store bs ls)))"

section \<open>What is live\<close>

text \<open>The record \<open>n\<close> names the manifest \<open>m\<close> by the digest \<open>md\<close>.\<close>

definition ref_gives :: "libs \<Rightarrow> path \<Rightarrow> fs \<Rightarrow> string \<Rightarrow> string \<Rightarrow> manifest \<Rightarrow> bool" where
  "ref_gives L s f n md m \<longleftrightarrow>
     (\<exists>c p b. stat f (ref_path s n) = Some (File c) \<and> trim c = md \<and> md \<noteq> [] \<and>
        filed ''blobs'' s md p \<and> stat f p = Some (File b) \<and> manifest_of L b = Inr m)"

definition live_blobs :: "libs \<Rightarrow> path \<Rightarrow> fs \<Rightarrow> string set" where
  "live_blobs L s f = {d. \<exists>n md m. ref_gives L s f n md m \<and> (d = md \<or> d = digest (man_config m))}"

definition live_layers :: "libs \<Rightarrow> path \<Rightarrow> fs \<Rightarrow> string set" where
  "live_layers L s f = {d. \<exists>n md m. ref_gives L s f n md m \<and> d \<in> digest ` set (man_layers m)}"

text \<open>Every path that belongs to a recorded image.\<close>

definition needed :: "libs \<Rightarrow> path \<Rightarrow> fs \<Rightarrow> path \<Rightarrow> bool" where
  "needed L s f q \<longleftrightarrow>
     (\<exists>n. q = ref_path s n) \<or>
     (\<exists>d \<in> live_blobs L s f. filed ''blobs'' s d q) \<or>
     (\<exists>d \<in> live_layers L s f. \<exists>p. filed ''layers'' s d p \<and> under p q)"

interpretation frozen: protected P "same_on P f0" for P f0
  by unfold_locales (rule same_on_trans)

section \<open>The live set is read exactly\<close>

lemma filed_split: "filed area s d p \<longleftrightarrow> (\<exists>a x. split_once (CHR '':'') d = Some (a, x) \<and> is_clean a \<and> is_clean x \<and>
    p = s @ [Normal area, Normal a, Normal x])"
  using clean_plain unfolding filed_def split_once_Some by metis

lemma filed_unique: "filed area s d p \<Longrightarrow> filed area s d q \<Longrightarrow> p = q"
  by (auto simp: filed_split)

lemma keeps_entries [keeps_intros]: "keeps (\<lambda>w. I (fs w)) (entries d)"
  unfolding entries_def by (intro keeps_intros)

lemma keeps_live_ref: "keeps (\<lambda>w. I (fs w)) (live_ref L h p)"
  unfolding live_ref_def read_blob_def by (intro keeps_intros)

lemma keeps_live_refs: "keeps (\<lambda>w. I (fs w)) (live_refs L h d ns)"
  by (induction ns) (auto intro!: keeps_intros keeps_live_ref)

lemma keeps_live_set: "keeps (\<lambda>w. I (fs w)) (live_set L h s)"
  unfolding live_set_def by (intro keeps_intros keeps_live_refs)

lemma live_set_reads: "live_set L h s w = (r, t) \<Longrightarrow> fs t = fs w"
  using keepsD [OF keeps_live_set [where I = "\<lambda>f. f = fs w"]] by blast

lemma entries_complete:
  assumes "wf_fs (fs w)" "entries d w = (Inr ns, t)" "d \<noteq> []" "node_at (fs w) (d @ [Normal n]) \<noteq> None"
  shows "n \<in> set ns"
proof -
  have dir: "is_dir_node (node_at (fs w) d)" using assms(1,3,4) unfolding wf_fs_def by (metis butlast_snoc)
  then have f: "follow 41 (fs w) d = Some d" by (auto simp: eval_nat_numeral is_dir_node_iff)
  from assms(2) obtain r v where r: "read_dir d w = (r, v)" "(case r of Inr names \<Rightarrow> returnM names
     | Inl e \<Rightarrow> if e = not_found then returnM [] else failM (Context (''reading '' @ path_str d) e)) v = (Inr ns, t)"
    by (auto simp: entries_def bindM_Inr)
  show ?thesis
  proof (cases r)
    case (Inl e)
    then have "e \<noteq> not_found" using r(1) f dir
      by (auto simp: read_dir_def query_def prim_def Let_def is_dir_node_iff errno_defs
          split: option.splits nat.splits if_splits)
    with r(2) Inl show ?thesis by (simp add: script_simps)
  next
    case (Inr names)
    with r(1) have "names = dir_names (fs w) d" unfolding read_dir_def
      using f dir by (auto dest!: query_Inr simp: is_dir_node_iff split: if_splits)
    then have "ns = dir_names (fs w) d" using r(2) Inr by (simp add: script_simps)
    with assms(4) show ?thesis by (simp add: set_dir_names)
  qed
qed

lemma read_file_Inr: "read_file p w = (Inr c, t) \<Longrightarrow> stat (fs w) p = Some (File c) \<and> fs t = fs w"
  unfolding read_file_def by (drule query_Inr) (auto split: option.splits node.splits)

lemma live_ref_Inr:
  assumes "live_ref L h p w = (Inr (bs, ls), t)" "store_dir h = Inr s"
  shows "\<exists>c. stat (fs w) p = Some (File c) \<and>
     (if trim c = [] then bs = [] \<and> ls = []
      else \<exists>b q m. filed ''blobs'' s (trim c) q \<and> stat (fs w) q = Some (File b) \<and> manifest_of L b = Inr m \<and>
             bs = [trim c, digest (man_config m)] \<and> ls = map digest (man_layers m))"
proof -
  from assms(1) obtain c v where c: "read_file p w = (Inr c, v)" and rest:
    "(if trim c = [] then returnM ([], []) else bindM (read_blob h (trim c)) (\<lambda>bytes.
       bindM (contextM (''parsing manifest '' @ trim c) (liftM (manifest_of L bytes))) (\<lambda>m.
       returnM ([trim c, digest (man_config m)], map digest (man_layers m))))) v = (Inr (bs, ls), t)"
    by (auto simp: live_ref_def bindM_Inr Let_def)
  note f = read_file_Inr [OF c]
  show ?thesis
  proof (cases "trim c = []")
    case True
    with f rest show ?thesis by (auto simp: script_simps)
  next
    case False
    with rest obtain b u m where b: "read_blob h (trim c) v = (Inr b, u)" "manifest_of L b = Inr m"
      "bs = [trim c, digest (man_config m)]" "ls = map digest (man_layers m)"
      by (auto simp: bindM_Inr script_simps)
    then obtain q where "blob_path h (trim c) = Inr q" "read_file q v = (Inr b, u)"
      by (auto simp: read_blob_def bindM_Inr script_simps)
    then have "filed ''blobs'' s (trim c) q" "stat (fs w) q = Some (File b)"
      using assms(2) f read_file_Inr [of q v b u] by (auto simp: blob_path_Inr)
    with b f False show ?thesis by auto
  qed
qed

lemma ref_gives_fun:
  assumes "stat f (ref_path s n) = Some (File c)" "filed ''blobs'' s (trim c) q" "stat f q = Some (File b)"
    "manifest_of L b = Inr m" "trim c \<noteq> []"
  shows "ref_gives L s f n md m' \<longleftrightarrow> md = trim c \<and> m' = m"
proof
  assume "ref_gives L s f n md m'"
  then obtain c' p b' where *: "stat f (ref_path s n) = Some (File c')" "trim c' = md"
    "filed ''blobs'' s md p" "stat f p = Some (File b')" "manifest_of L b' = Inr m'"
    by (auto simp: ref_gives_def)
  then have "c' = c" using assms(1) by simp
  moreover from this have "p = q" using *(2,3) assms(2) filed_unique by blast
  ultimately show "md = trim c \<and> m' = m" using * assms by simp
next
  assume "md = trim c \<and> m' = m"
  with assms show "ref_gives L s f n md m'" unfolding ref_gives_def by blast
qed

lemma live_ref_sets:
  assumes "live_ref L h (ref_path s n) w = (Inr (bs, ls), t)" "store_dir h = Inr s"
  shows "set bs = {d. \<exists>md m. ref_gives L s (fs w) n md m \<and> (d = md \<or> d = digest (man_config m))} \<and>
         set ls = {d. \<exists>md m. ref_gives L s (fs w) n md m \<and> d \<in> digest ` set (man_layers m)}"
proof -
  obtain c where c: "stat (fs w) (ref_path s n) = Some (File c)" and
    cases: "if trim c = [] then bs = [] \<and> ls = []
      else \<exists>b q m. filed ''blobs'' s (trim c) q \<and> stat (fs w) q = Some (File b) \<and> manifest_of L b = Inr m \<and>
             bs = [trim c, digest (man_config m)] \<and> ls = map digest (man_layers m)"
    using live_ref_Inr [OF assms] by blast
  show ?thesis
  proof (cases "trim c = []")
    case True
    then have "\<not> ref_gives L s (fs w) n md m" for md m using c by (auto simp: ref_gives_def)
    with True cases show ?thesis by simp
  next
    case False
    then obtain b q m where q: "filed ''blobs'' s (trim c) q" "stat (fs w) q = Some (File b)" "manifest_of L b = Inr m"
      "bs = [trim c, digest (man_config m)]" "ls = map digest (man_layers m)"
      using cases by auto
    show ?thesis unfolding ref_gives_fun [OF c q(1-3) False] q(4,5) by auto
  qed
qed

lemma live_refs_Inr:
  assumes "live_refs L h (s @ [Normal ''refs'']) ns w = (Inr (bs, ls), t)" "store_dir h = Inr s"
  shows "set bs = (\<Union>n \<in> set ns. {d. \<exists>md m. ref_gives L s (fs w) n md m \<and> (d = md \<or> d = digest (man_config m))}) \<and>
         set ls = (\<Union>n \<in> set ns. {d. \<exists>md m. ref_gives L s (fs w) n md m \<and> d \<in> digest ` set (man_layers m)})"
  using assms(1)
proof (induction ns arbitrary: bs ls w t)
  case Nil
  then show ?case by (simp add: script_simps)
next
  case (Cons n ns)
  then obtain b l v bs' ls' where
    1: "live_ref L h (ref_path s n) w = (Inr (b, l), v)" and
    2: "live_refs L h (s @ [Normal ''refs'']) ns v = (Inr (bs', ls'), t)" and
    3: "bs = b @ bs'" "ls = l @ ls'"
    by (auto simp: bindM_Inr script_simps ref_path_def)
  have v: "fs v = fs w" using keepsD [OF keeps_live_ref [where I = "\<lambda>f. f = fs w"] _ 1] by simp
  show ?case
    using Cons.IH [OF 2, unfolded v] live_ref_sets [OF 1 assms(2)] by (simp add: 3)
qed

lemma live_set_Inr:
  assumes "live_set L h s w = (Inr (bs, ls), t)" "store_dir h = Inr s" "wf_fs (fs w)"
  shows "set bs = live_blobs L s (fs w) \<and> set ls = live_layers L s (fs w)"
proof -
  have j: "join_str s ''refs'' = s @ [Normal ''refs'']" by (simp add: join_plain plain_areas)
  from assms(1) obtain ns v where ns: "entries (s @ [Normal ''refs'']) w = (Inr ns, v)"
    and r: "live_refs L h (s @ [Normal ''refs'']) ns v = (Inr (bs, ls), t)"
    by (auto simp: live_set_def bindM_Inr j)
  have v: "fs v = fs w" using keepsD [OF keeps_entries [where I = "\<lambda>f. f = fs w"] _ ns] by simp
  have all: "n \<in> set ns" if g: "ref_gives L s (fs w) n md m" for n md m
  proof -
    obtain c where "stat (fs w) (ref_path s n) = Some (File c)" using g by (auto simp: ref_gives_def)
    then have "node_at (fs w) (ref_path s n) \<noteq> None" using stat_Some by fastforce
    then show ?thesis using entries_complete [OF assms(3) ns] by (simp add: ref_path_def)
  qed
  have "set bs = live_blobs L s (fs w)"
    unfolding live_refs_Inr [OF r assms(2), unfolded v, THEN conjunct1] live_blobs_def using all by blast
  moreover have "set ls = live_layers L s (fs w)"
    unfolding live_refs_Inr [OF r assms(2), unfolded v, THEN conjunct2] live_layers_def using all by blast
  ultimately show ?thesis by simp
qed

section \<open>Nothing an image needs is touched\<close>

lemma keeps_area:
  assumes "\<And>a n. keeps (\<lambda>w. I (fs w)) (f a n)"
  shows "keeps (\<lambda>w. I (fs w)) (sweep_area d f)"
  unfolding sweep_area_def using assms by (intro keeps_intros)

lemma sweep_keeps:
  assumes bs: "set bs = live_blobs L s f" and ls: "set ls = live_layers L s f"
  shows "keeps (\<lambda>w. same_on (needed L s f) g (fs w)) (sweep s bs ls)"
proof -
  let ?I = "\<lambda>w. same_on (needed L s f) g (fs w)"
  have 1: "keeps ?I (sweep_blob bs (s @ [Normal ''blobs'']) a b)" for a b
  proof (cases "List.member bs (a @ '':'' @ b)")
    case False
    have "\<not> needed L s f ((s @ [Normal ''blobs'']) @ [Normal a, Normal b])"
      using False bs by (auto simp: needed_def ref_path_def filed_def under_iff)
    then show ?thesis unfolding sweep_blob_def by (intro keeps_intros frozen.remove_file)
  qed (simp add: sweep_blob_def keeps_return)
  have 2: "keeps ?I (sweep_layer ls (s @ [Normal ''layers'']) a n)" for a n
  proof (cases "starts_with ''.extract-'' n \<or> \<not> List.member ls (a @ '':'' @ n)")
    case True
    have "\<not> needed L s f q" if "under ((s @ [Normal ''layers'']) @ [Normal a, Normal n]) q" for q
    proof
      assume "needed L s f q"
      moreover have "q \<noteq> ref_path s k" "\<not> filed ''blobs'' s d q" for k d
        using that by (auto simp: ref_path_def filed_def under_iff)
      ultimately obtain d p where *: "d \<in> set ls" "filed ''layers'' s d p" "under p q"
        unfolding needed_def ls by blast
      then have "d = a @ '':'' @ n" "is_clean n" using that by (auto simp: filed_def under_iff)
      moreover have "\<not> starts_with ''.extract-'' n"
        using clean_plain [OF \<open>is_clean n\<close>] by (cases n) (auto simp: starts_with_def)
      ultimately show False using True * by simp
    qed
    then show ?thesis unfolding sweep_layer_def by (intro keeps_intros frozen.remove_tree) blast
  qed (simp add: sweep_layer_def keeps_return)
  have 3: "keeps ?I (sweep_download s n)" for n
  proof -
    have "\<not> needed L s f (s @ [Normal n])"
      by (auto simp: needed_def ref_path_def filed_def under_iff)
    then show ?thesis unfolding sweep_download_def by (intro keeps_intros frozen.remove_file)
  qed
  have j: "join_str s ''blobs'' = s @ [Normal ''blobs'']" "join_str s ''layers'' = s @ [Normal ''layers'']"
    by (simp_all add: join_plain plain_areas)
  show ?thesis unfolding sweep_def j by (intro keeps_intros keeps_area 1 2 3)
qed

lemma gc_images_frozen:
  assumes "store_dir h = Inr s" "wf_fs (fs w)" "gc_images L h w = (r, t)"
  shows "same_on (needed L s (fs w)) (fs w) (fs t) \<and>
         ((\<forall>v. fs v = fs w \<longrightarrow> (\<exists>e u. live_set L h s v = (Inl e, u))) \<longrightarrow> fs t = fs w)"
proof -
  let ?m = "\<lambda>r. case r of Inl err \<Rightarrow> eprint (''skipping image GC: '' @ error_str err)
      | Inr (bs, ls) \<Rightarrow> sweep s bs ls"
  obtain b v where b: "path_exists s w = (b, v)" by fastforce
  have v: "fs v = fs w" using keepsD [OF keeps_reads(1) [where I = "\<lambda>f. f = fs w"] _ b] by simp
  obtain x u where x: "live_set L h s v = (x, u)" by fastforce
  have u: "fs u = fs w" using live_set_reads [OF x] v by simp
  have run: "fs t = fs w \<or> (?m x u = (r, t))"
    using assms(3) b x v u by (auto simp: gc_images_def assms(1) bindM_def tryM_def script_simps split: sum.splits if_splits)
  show ?thesis
  proof (cases "fs t = fs w")
    case False
    with run have m: "?m x u = (r, t)" by simp
    then obtain bs ls where i: "x = Inr (bs, ls)"
      using False u by (cases x) (auto simp: eprint_def)
    have sets: "set bs = live_blobs L s (fs w)" "set ls = live_layers L s (fs w)"
      using live_set_Inr [OF x [unfolded i] assms(1)] assms(2) v by auto
    have "same_on (needed L s (fs w)) (fs w) (fs t)"
      using keepsD [OF sweep_keeps [OF sets, where g = "fs w"], of u r t] m u i by simp
    moreover have "\<not> (\<forall>v. fs v = fs w \<longrightarrow> (\<exists>e u. live_set L h s v = (Inl e, u)))"
      using x v i by fastforce
    ultimately show ?thesis by blast
  qed simp
qed

text \<open>
  C12: whatever fails, even half way, and wherever the process is killed, collecting garbage changes
  nothing that a recorded image needs: the records, the manifest and the configuration blob of every
  image they name, and every file of every layer of it are as before. If any manifest cannot be
  read, nothing is deleted at all.
\<close>

theorem gc_images_safe:
  assumes "store_dir h = Inr s" "wf_fs (fs w)" "gc_images L h w = (r, t)"
  shows "same_on (needed L s (fs w)) (fs w) (fs t) \<and>
         ((\<forall>v. fs v = fs w \<longrightarrow> (\<exists>e u. live_set L h s v = (Inl e, u))) \<longrightarrow> fs t = fs w)"
  by (rule gc_images_frozen [OF assms])

definition demo_gc_fs :: fs where
  "demo_gc_fs = (demo_images @ [Normal ''refs''], Dir 0x1ED) #
     (ref_path demo_images ''r'', File ''a:m'') # (demo_images @ [Normal ''blobs''], Dir 0x1ED) #
     (demo_images @ [Normal ''blobs'', Normal ''a''], Dir 0x1ED) #
     (demo_blob, File ''content'') #
     (demo_images @ [Normal ''blobs'', Normal ''a'', Normal ''x''], File ''old'') # demo_store_fs"

lemma demo_gc_wf: "wf_fs demo_gc_fs"
  by (auto simp: wf_fs_def node_at_def demo_gc_fs_def demo_store_fs_def demo_images_def demo_blob_def
      ref_path_def split: if_splits)

lemma demo_gc_filed: "filed ''blobs'' demo_images ''a:m'' demo_blob"
  by (auto simp: filed_def demo_blob_def is_clean_def is_ascii_alphanumeric_def is_ascii_alphabetic_def
      is_ascii_lowercase_def)

lemma demo_gc_needed: "needed demo_image_libs demo_images demo_gc_fs demo_blob"
proof -
  have "stat demo_gc_fs (ref_path demo_images ''r'') = Some (File ''a:m'')"
    "stat demo_gc_fs demo_blob = Some (File ''content'')"
    by (simp_all add: stat_def eval_nat_numeral node_at_def demo_gc_fs_def ref_path_def demo_blob_def demo_images_def)
  moreover have "trim ''a:m'' = ''a:m''" by (simp add: trim_def trim_end_matches_def is_ws_def)
  moreover note demo_gc_filed
  moreover have "manifest_of demo_image_libs ''content'' = Inr demo_manifest" by (simp add: demo_image_libs_def)
  ultimately have "ref_gives demo_image_libs demo_images demo_gc_fs ''r'' ''a:m'' demo_manifest"
    unfolding ref_gives_def by (intro exI conjI) auto
  with demo_gc_filed show ?thesis
    unfolding needed_def live_blobs_def by blast
qed

theorem gc_images_safe_witness:
  "node_at (fs (snd (gc_images demo_image_libs demo_host
      (demo_world demo_gc_fs \<lparr>fault := (\<lambda>n. if n = 8 then Some 3 else None)\<rparr>)))) demo_blob = Some (File ''content'')"
proof -
  have s: "store_dir demo_host = Inr demo_images" by (simp add: demo_store demo_images_def)
  have n: "node_at demo_gc_fs demo_blob = Some (File ''content'')"
    by (simp add: node_at_def demo_gc_fs_def demo_blob_def ref_path_def)
  show ?thesis
    using gc_images_safe [OF s _ prod.collapse [symmetric], of "demo_world demo_gc_fs \<lparr>fault := (\<lambda>n. if n = 8 then Some 3 else None)\<rparr>" demo_image_libs]
      demo_gc_needed demo_gc_wf n
    by (auto simp: demo_world_def same_on_def)
qed

section \<open>An interrupted deletion\<close>


definition demo_layer :: path where
  "demo_layer = demo_images @ [Normal ''layers'', Normal ''a'', Normal ''b'']"


end
