(* ===== verification/Runtime_Gc.thy ===== *)
theory Runtime_Gc
  imports Image_Gc
begin

text \<open>
  Cleaning up after killed runs, \<open>prune_runtime\<close> of \<open>src/clean.rs\<close>. Which run made a directory is
  read out of its name; the directories of runs that are still alive are left alone.
\<close>

section \<open>The code\<close>

definition runtime_dir :: "host \<Rightarrow> path" where
  "runtime_dir h = join_str (case run_time_dir h of Some d \<Rightarrow> d | None \<Rightarrow> temp_dir h) ''climate''"

definition pid_of :: "string \<Rightarrow> string \<Rightarrow> int option" where
  "pid_of n pre =
     (case strip_prefix pre n of None \<Rightarrow> None | Some rest \<Rightarrow> parse_signed 32 (hd (split_on (CHR ''-'') rest)))"

text \<open>
  The rest of the system: whether \<open>kill(pid, 0)\<close> answers that there is no such process, the
  container library, whose \<open>load\<close> gives the deletion of the container it found, and the
  \<open>fusermount3\<close> program, which returns whether it succeeded or that it could not be started.
\<close>

record system =
  no_such_process :: "int \<Rightarrow> bool"
  load_container :: "path \<Rightarrow> (unit io) res"
  fusermount :: "path \<Rightarrow> bool io"

definition alive :: "system \<Rightarrow> int \<Rightarrow> bool" where
  "alive S pid \<longleftrightarrow> pid \<noteq> 0 \<and> \<not> no_such_process S pid"

definition proc_mounts :: path where
  "proc_mounts = [RootDir, Normal ''proc'', Normal ''self'', Normal ''mounts'']"

definition mount_points :: "string \<Rightarrow> string list" where
  "mount_points txt = filter_map (\<lambda>line. get 1 (split_on (CHR '' '') line)) (lines txt)"

definition is_mounted :: "path \<Rightarrow> bool io" where
  "is_mounted p =
     bindM (tryM (read_file proc_mounts)) (\<lambda>r.
     case r of
       Inl _ \<Rightarrow> returnM False
     | Inr txt \<Rightarrow> returnM (List.member (mount_points txt) (path_str p)))"

definition prune_container :: "system \<Rightarrow> path \<Rightarrow> string \<Rightarrow> unit io" where
  "prune_container S dir i =
     (case pid_of i ''climate-'' of
        None \<Rightarrow> returnM ()
      | Some pid \<Rightarrow>
          if alive S pid then returnM ()
          else
            let p = dir @ [Normal i] in
            bindM (case load_container S p of
                     Inr delete \<Rightarrow>
                       bindM (tryM delete) (\<lambda>r.
                       case r of
                         Inr _ \<Rightarrow> returnM ()
                       | Inl e \<Rightarrow>
                           bindM (eprint (''deleting container '' @ i @ '': '' @ error_str e)) (\<lambda>_.
                           ignoreM (remove_dir_all p)))
                   | Inl e \<Rightarrow>
                       bindM (eprint (''loading container '' @ i @ '': '' @ error_str e)) (\<lambda>_.
                       ignoreM (remove_dir_all p)))
              (\<lambda>_. eprint (''pruned container '' @ i)))"

definition dead :: "system \<Rightarrow> int option \<Rightarrow> bool" where
  "dead S p = (case p of None \<Rightarrow> False | Some pid \<Rightarrow> \<not> alive S pid)"

definition prune_bundle :: "system \<Rightarrow> path \<Rightarrow> string \<Rightarrow> unit io" where
  "prune_bundle S dir i =
     whenM (dead S (pid_of i ''climate-''))
       (contextM (''removing bundle '' @ i) (remove_dir_all (dir @ [Normal i])))"

definition prune_overlay :: "system \<Rightarrow> path \<Rightarrow> string \<Rightarrow> unit io" where
  "prune_overlay S dir i =
     whenM (dead S (pid_of i ''''))
       (let p = dir @ [Normal i]; merged = join_str p ''merged'' in
        bindM (is_mounted merged) (\<lambda>mounted.
        bindM (if mounted
               then bindM (contextM ''running fusermount3'' (fusermount S merged)) (\<lambda>success.
                    if success then returnM False else is_mounted merged)
               else returnM False) (\<lambda>blocked.
        if blocked then eprint (''fusermount3 failed to unmount '' @ path_str merged)
        else bindM (contextM (''removing overlay '' @ i) (remove_dir_all p)) (\<lambda>_.
             eprint (''pruned overlay '' @ i)))))"

definition prune_runtime :: "system \<Rightarrow> host \<Rightarrow> unit io" where
  "prune_runtime S h =
     (let base = runtime_dir h in
      bindM (entries (join_str base ''containers'')) (\<lambda>cs.
      bindM (forM cs (prune_container S (join_str base ''containers''))) (\<lambda>_.
      bindM (entries (join_str base ''bundles'')) (\<lambda>bs.
      bindM (forM bs (prune_bundle S (join_str base ''bundles''))) (\<lambda>_.
      bindM (entries (join_str base ''overlays'')) (\<lambda>os.
      forM os (prune_overlay S (join_str base ''overlays''))))))))"

section \<open>Names of runs\<close>

lemma pid_of_id:
  assumes "int p < 2 ^ 31"
  shows "pid_of (pre @ nat_str p @ CHR ''-'' # rest) pre = Some (int p)"
proof -
  have "CHR ''-'' \<notin> set (nat_str p)" using nat_str_digits digit_not_sign by blast
  then have "hd (split_on (CHR ''-'') (nat_str p @ CHR ''-'' # rest)) = nat_str p"
    by (simp add: split_on_append_sep)
  then show ?thesis using assms by (simp add: pid_of_def parse_signed_nat_str)
qed

text \<open>
  The pid in the name of a directory that a run makes under \<open>containers\<close>, \<open>bundles\<close> or
  \<open>overlays\<close> is read back as the pid of that run's process.
\<close>

theorem pid_of_unique_id:
  assumes "int (process_id h) < 2 ^ 31" "unique_id h w = (Inr i, t)"
  shows "pid_of (''climate-'' @ i) ''climate-'' = Some (int (process_id h)) \<and>
         pid_of i '''' = Some (int (process_id h))"
proof -
  have "i = nat_str (process_id h) @ CHR ''-'' # nat_str (nanos h (tick w))"
    using assms(2) by (simp add: unique_id_def)
  then show ?thesis
    using pid_of_id [OF assms(1), of "''climate-''"] pid_of_id [OF assms(1), of "[]"] by simp
qed

theorem pid_of_unique_id_witness:
  "pid_of (''climate-'' @ ''7-0'') ''climate-'' = Some 7 \<and> pid_of ''7-0'' '''' = Some 7"
proof -
  have "unique_id demo_host (demo_world []) = (Inr ''7-0'', (demo_world [])\<lparr>tick := 1\<rparr>)"
    by (simp add: unique_id_def demo_host_def demo_world_def nat_str.simps)
  from pid_of_unique_id [OF _ this] show ?thesis by (simp add: demo_host_def)
qed

section \<open>Live runs are left alone\<close>

text \<open>The directories of a run that is alive, and the image store are out of reach.\<close>

definition run_of :: "string \<Rightarrow> string" where
  "run_of area = (if area = ''overlays'' then '''' else ''climate-'')"

definition live_run_place :: "system \<Rightarrow> host \<Rightarrow> path \<Rightarrow> bool" where
  "live_run_place S h q \<longleftrightarrow>
     (\<exists>area \<in> {''containers'', ''bundles'', ''overlays''}. \<exists>i.
        \<not> dead S (pid_of i (run_of area)) \<and> under (runtime_dir h @ [Normal area, Normal i]) q)"

definition outside_runs :: "host \<Rightarrow> path \<Rightarrow> bool" where
  "outside_runs h q \<longleftrightarrow>
     (\<forall>area \<in> {''containers'', ''bundles'', ''overlays''}. \<not> under (runtime_dir h @ [Normal area]) q)"

definition spared :: "system \<Rightarrow> host \<Rightarrow> path \<Rightarrow> bool" where
  "spared S h q \<longleftrightarrow> live_run_place S h q \<or> outside_runs h q"

text \<open>What the code relies on: deleting a container or unmounting works on that path only.\<close>

definition local_calls :: "system \<Rightarrow> bool" where
  "local_calls S \<longleftrightarrow>
     (\<forall>p del P f. load_container S p = Inr del \<and> (\<forall>q. under p q \<longrightarrow> \<not> P q) \<longrightarrow>
        keeps (\<lambda>w. same_on P f (fs w)) del) \<and>
     (\<forall>p P f. (\<forall>q. under p q \<longrightarrow> \<not> P q) \<longrightarrow> keeps (\<lambda>w. same_on P f (fs w)) (fusermount S p))"

lemma run_dir_not_spared:
  assumes "area \<in> {''containers'', ''bundles'', ''overlays''}" "dead S (pid_of i (run_of area))"
    "under ((runtime_dir h @ [Normal area]) @ [Normal i]) q"
  shows "\<not> spared S h q"
  using assms by (auto simp: spared_def live_run_place_def outside_runs_def under_iff)

lemma keeps_is_mounted [keeps_intros]: "keeps (\<lambda>w. I (fs w)) (is_mounted p)"
  unfolding is_mounted_def by (intro keeps_intros)

lemma under_longer: "under (p @ c) q \<Longrightarrow> under p q"
  by (auto simp: under_iff)

lemma prune_runtime_frozen:
  assumes "local_calls S" "prune_runtime S h w = (r, t)"
  shows "same_on (spared S h) (fs w) (fs t)"
proof -
  let ?K = "\<lambda>w'. same_on (spared S h) (fs w) (fs w')"
  let ?dir = "\<lambda>area. runtime_dir h @ [Normal area]"
  have load: "keeps ?K del" if "load_container S (?dir a @ [Normal i]) = Inr del"
    "\<forall>q. under (?dir a @ [Normal i]) q \<longrightarrow> \<not> spared S h q" for a i del
    using assms(1) that unfolding local_calls_def by blast
  have um: "keeps ?K (fusermount S ((?dir a @ [Normal i]) @ [Normal ''merged'']))"
    if "\<forall>q. under (?dir a @ [Normal i]) q \<longrightarrow> \<not> spared S h q" for a i
  proof -
    have "\<forall>q. under ((?dir a @ [Normal i]) @ [Normal ''merged'']) q \<longrightarrow> \<not> spared S h q"
      using that under_longer by blast
    then show ?thesis using assms(1) unfolding local_calls_def by blast
  qed
  have m: "plain_name ''merged''" "plain_name ''containers''" "plain_name ''bundles''" "plain_name ''overlays''"
    by (simp_all add: plain_name_def)
  have 1: "keeps ?K (prune_container S (?dir ''containers'') i)" for i
  proof (cases "dead S (pid_of i ''climate-'')")
    case True
    then have "\<forall>q. under (?dir ''containers'' @ [Normal i]) q \<longrightarrow> \<not> spared S h q"
      using run_dir_not_spared [of "''containers''" S i h] by (simp add: run_of_def)
    then show ?thesis unfolding prune_container_def Let_def
      by (intro keeps_intros frozen.remove_dir_all load) auto
  qed (auto simp: prune_container_def dead_def keeps_return split: option.splits)
  have 2: "keeps ?K (prune_bundle S (?dir ''bundles'') i)" for i
  proof (cases "dead S (pid_of i ''climate-'')")
    case True
    then show ?thesis unfolding prune_bundle_def
      using run_dir_not_spared [of "''bundles''" S i h]
      by (intro keeps_intros frozen.remove_dir_all) (simp add: run_of_def)
  qed (simp add: prune_bundle_def keeps_return)
  have 3: "keeps ?K (prune_overlay S (?dir ''overlays'') i)" for i
  proof (cases "dead S (pid_of i '''')")
    case True
    then have d: "\<forall>q. under (?dir ''overlays'' @ [Normal i]) q \<longrightarrow> \<not> spared S h q"
      using run_dir_not_spared [of "''overlays''" S i h] by (simp add: run_of_def)
    then show ?thesis unfolding prune_overlay_def Let_def join_plain [OF m(1)]
      using um [OF d] by (intro keeps_intros frozen.remove_dir_all) auto
  qed (simp add: prune_overlay_def keeps_return)
  have "keeps ?K (prune_runtime S h)"
    unfolding prune_runtime_def Let_def join_plain [OF m(2)] join_plain [OF m(3)] join_plain [OF m(4)]
    by (intro keeps_intros 1 2 3)
  from keepsD [OF this, of w, OF _ assms(2)] show ?thesis by simp
qed

text \<open>
  C26: cleaning up after killed runs touches nothing that belongs to a run whose process still
  exists, and nothing outside the three directories of runs, whichever calls fail.
\<close>

theorem prune_runtime_spares:
  assumes "local_calls S" "prune_runtime S h w = (r, t)"
  shows "same_on (spared S h) (fs w) (fs t)"
  by (rule prune_runtime_frozen [OF assms])

definition demo_system :: system where
  "demo_system = \<lparr>no_such_process = (\<lambda>p. p = 9), load_container = (\<lambda>_. Inl (Ext ''none'')),
     fusermount = (\<lambda>_. returnM True)\<rparr>"

lemma demo_system_local: "local_calls demo_system"
  by (simp add: local_calls_def demo_system_def keeps_return)

theorem prune_runtime_spares_witness:
  "node_at (fs (snd (prune_runtime demo_system demo_host
      (demo_world [(runtime_dir demo_host @ [Normal ''bundles'', Normal ''climate-7-0''], Dir 0x1ED)]))))
     (runtime_dir demo_host @ [Normal ''bundles'', Normal ''climate-7-0'']) = Some (Dir 0x1ED)"
proof -
  note l = demo_system_local
  have "pid_of ''climate-7-0'' ''climate-'' = Some 7"
    by (simp add: pid_of_def strip_prefix_def starts_with_def parse_signed_def digit_val_def is_ascii_digit_def)
  then have "\<not> dead demo_system (pid_of ''climate-7-0'' (run_of ''bundles''))"
    by (simp add: run_of_def dead_def alive_def demo_system_def)
  then have "spared demo_system demo_host (runtime_dir demo_host @ [Normal ''bundles'', Normal ''climate-7-0''])"
    unfolding spared_def live_run_place_def by (intro disjI1 bexI [of _ "''bundles''"] exI [of _ "''climate-7-0''"]) auto
  with prune_runtime_spares [OF l prod.collapse [symmetric], of demo_host
      "demo_world [(runtime_dir demo_host @ [Normal ''bundles'', Normal ''climate-7-0''], Dir 0x1ED)]"]
  show ?thesis by (simp add: same_on_def demo_world_def node_at_def)
qed

end
