(* ===== verification/Clean.thy ===== *)
theory Clean
  imports Apps Runtime_Gc
begin

text \<open>
  \<open>climate clean\<close>: dropping the records of images no app needs, and \<open>clean\<close> of \<open>src/clean.rs\<close>, which
  runs the three passes one after the other.
\<close>

section \<open>The code\<close>

text \<open>The records one app keeps, as file names.\<close>

definition markers_of :: "libs \<Rightarrow> app_config \<Rightarrow> string list" where
  "markers_of L cfg =
     (case image_key L cfg of Inl _ \<Rightarrow> [] | Inr key \<Rightarrow> [marker_name key])
     @ (case parse_reference L (reference (image_cfg cfg)) of None \<Rightarrow> [] | Some r \<Rightarrow> [marker_name r])"

definition live_markers :: "libs \<Rightarrow> seacomb \<Rightarrow> host \<Rightarrow> string \<Rightarrow> string list io" where
  "live_markers L S h n =
     bindM (load_or_warn L S h n) (\<lambda>r.
     returnM (case r of None \<Rightarrow> [] | Some cfg \<Rightarrow> markers_of L cfg))"

definition drop_ref :: "path \<Rightarrow> string list \<Rightarrow> string \<Rightarrow> unit io" where
  "drop_ref dir live n =
     whenM (\<not> List.member live n)
       (bindM (contextM (''removing ref '' @ path_str (dir @ [Normal n])) (remove_file (dir @ [Normal n]))) (\<lambda>_.
        eprint (''dropped ref '' @ replace_char (CHR ''+'') (CHR ''/'') n)))"

definition drop_orphan_refs :: "libs \<Rightarrow> seacomb \<Rightarrow> host \<Rightarrow> unit io" where
  "drop_orphan_refs L S h =
     bindM (app_names h) (\<lambda>ns.
     bindM (mapM (live_markers L S h) ns) (\<lambda>lives.
     bindM (liftM (store_dir h)) (\<lambda>store.
     bindM (entries (join_str store ''refs'')) (\<lambda>es.
     forM es (drop_ref (join_str store ''refs'') (concat lives))))))"

definition clean :: "libs \<Rightarrow> seacomb \<Rightarrow> system \<Rightarrow> host \<Rightarrow> unit io" where
  "clean L S Y h =
     bindM (drop_orphan_refs L S h) (\<lambda>_.
     bindM (gc_images L h) (\<lambda>_.
     prune_runtime Y h))"

section \<open>The apps there are\<close>

lemma reading_mapM [readings]:
  assumes "\<And>x. reading (g x) (\<lambda>f. Inr (p f x))"
  shows "reading (mapM g xs) (\<lambda>f. Inr (map (p f) xs))"
proof (induction xs)
  case (Cons x xs)
  have "reading (mapM g (x # xs)) (\<lambda>f. and_then (Inr (p f x)) (\<lambda>y. and_then (Inr (map (p f) xs)) (\<lambda>ys. Inr (y # ys))))"
    unfolding mapM.simps by (rule readings assms Cons)+
  then show ?case by (rule reading_cong) simp
qed (simp add: readings)

lemma reading_eprint [readings]: "reading (eprint m) (\<lambda>_. Inr ())"
  by (simp add: reading_def eprint_def no_faults_def)

lemma reading_sum [readings]:
  "(\<And>e. reading (g e) (p e)) \<Longrightarrow> (\<And>x. reading (k x) (q x)) \<Longrightarrow>
   reading (case r of Inl e \<Rightarrow> g e | Inr x \<Rightarrow> k x) (\<lambda>f. case r of Inl e \<Rightarrow> p e f | Inr x \<Rightarrow> q x f)"
  by (cases r) simp_all

definition dir_list :: "fs \<Rightarrow> path \<Rightarrow> string list res" where
  "dir_list f p = (case follow 41 f p of
     None \<Rightarrow> Inl not_found
   | Some q \<Rightarrow> (case node_at f q of
        Some (Dir m) \<Rightarrow> if readable m then Inr (dir_names f q) else Inl denied
      | None \<Rightarrow> Inl not_found
      | Some _ \<Rightarrow> Inl not_a_directory))"

lemma reading_read_dir [readings]: "reading (read_dir p) (\<lambda>f. dir_list f p)"
  unfolding read_dir_def dir_list_def by (rule reading_query)

definition list_of :: "'a list res \<Rightarrow> 'a list" where
  "list_of r = (case r of Inl _ \<Rightarrow> [] | Inr xs \<Rightarrow> xs)"

lemma reading_names_in [readings]: "reading (names_in d) (\<lambda>f. Inr (list_of (dir_list f d)))"
  unfolding names_in_def by (rule reading_cong, (rule readings)+) (simp add: list_of_def)

definition apps_in :: "fs \<Rightarrow> path \<Rightarrow> string list" where
  "apps_in f d = concat (map (\<lambda>g. filter_map toml_stem (list_of (dir_list f (d @ [Normal g])))) (list_of (dir_list f d)))"

definition apps_of :: "host \<Rightarrow> fs \<Rightarrow> string list" where
  "apps_of h f = sort (remdups (concat (map (apps_in f) (search_dirs h))))"

lemma reading_group_apps [readings]:
  "reading (group_apps d g) (\<lambda>f. Inr (filter_map toml_stem (list_of (dir_list f (d @ [Normal g])))))"
  unfolding group_apps_def by (rule reading_cong, (rule readings)+) simp

lemma reading_dir_apps [readings]: "reading (dir_apps d) (\<lambda>f. Inr (apps_in f d))"
  unfolding dir_apps_def by (rule reading_cong, (rule readings)+) (simp add: apps_in_def)

lemma reading_app_names [readings]: "reading (app_names h) (\<lambda>f. Inr (apps_of h f))"
  unfolding app_names_def by (rule reading_cong, (rule readings)+) (simp add: apps_of_def)

definition config_of :: "libs \<Rightarrow> seacomb \<Rightarrow> host \<Rightarrow> fs \<Rightarrow> string \<Rightarrow> app_config option" where
  "config_of L S h f n = (case loaded L S h f n of Inl _ \<Rightarrow> None | Inr (cfg, _) \<Rightarrow> Some cfg)"

lemma reading_load [readings]: "reading (load L S h n) (\<lambda>f. and_then (loaded L S h f n) (\<lambda>(cfg, _). Inr cfg))"
  unfolding load_def
  by (rule reading_cong, rule reading_bind, rule reading_load_with_raw, (rule readings)+)
    (simp split: prod.splits)

lemma reading_load_or_warn [readings]: "reading (load_or_warn L S h n) (\<lambda>f. Inr (config_of L S h f n))"
  unfolding load_or_warn_def
  by (rule reading_cong, (rule readings)+)
    (auto simp: config_of_def and_then_def split: sum.splits)

definition markers_at :: "libs \<Rightarrow> seacomb \<Rightarrow> host \<Rightarrow> fs \<Rightarrow> string list" where
  "markers_at L S h f = concat (map (\<lambda>n. case config_of L S h f n of None \<Rightarrow> [] | Some cfg \<Rightarrow> markers_of L cfg) (apps_of h f))"

lemma reading_live_markers [readings]:
  "reading (live_markers L S h n) (\<lambda>f. Inr (case config_of L S h f n of None \<Rightarrow> [] | Some cfg \<Rightarrow> markers_of L cfg))"
  unfolding live_markers_def by (rule reading_cong, (rule readings)+) simp

section \<open>What is dropped\<close>

definition drop_records :: "path \<Rightarrow> string list \<Rightarrow> unit io" where
  "drop_records dir live = bindM (entries dir) (\<lambda>es. forM es (drop_ref dir live))"

lemma drop_orphan_refs_split:
  assumes "no_faults w" "store_dir h = Inr s"
  shows "\<exists>u. fs u = fs w \<and> no_faults u \<and>
    drop_orphan_refs L S h w = drop_records (s @ [Normal ''refs'']) (markers_at L S h (fs w)) u"
proof -
  obtain u where u: "app_names h w = (Inr (apps_of h (fs w)), u)" "fs u = fs w" "no_faults u"
    using readingD [OF reading_app_names assms(1)] by blast
  have "reading (mapM (live_markers L S h) ns) (\<lambda>f. Inr (map (\<lambda>n.
      case config_of L S h f n of None \<Rightarrow> [] | Some cfg \<Rightarrow> markers_of L cfg) ns))" for ns
    by (rule reading_mapM) (rule reading_live_markers)
  from readingD [OF this u(3), unfolded u(2)]
  obtain v where v: "mapM (live_markers L S h) (apps_of h (fs w)) u = (Inr (map (\<lambda>n.
      case config_of L S h (fs w) n of None \<Rightarrow> [] | Some cfg \<Rightarrow> markers_of L cfg) (apps_of h (fs w))), v)"
    "fs v = fs w" "no_faults v" by blast
  have "drop_orphan_refs L S h w = drop_records (s @ [Normal ''refs'']) (markers_at L S h (fs w)) v"
    using u(1) v(1)
    by (simp add: drop_orphan_refs_def bindM_runs [where m = "app_names h" and s = w, OF u(1)]
        bindM_runs [where m = "mapM (live_markers L S h) (apps_of h (fs w))" and s = u, OF v(1)] assms(2) join_plain plain_areas
        drop_records_def markers_at_def)
  with v show ?thesis by blast
qed

definition kept_place :: "path \<Rightarrow> string list \<Rightarrow> path \<Rightarrow> bool" where
  "kept_place s live q \<longleftrightarrow> (\<forall>n. q = ref_path s n \<longrightarrow> n \<in> set live)"

lemma keeps_drop_records:
  "keeps (\<lambda>w. same_on (kept_place s live) f0 (fs w)) (drop_records (s @ [Normal ''refs'']) live)"
proof -
  have "keeps (\<lambda>w. same_on (kept_place s live) f0 (fs w)) (drop_ref (s @ [Normal ''refs'']) live n)" for n
  proof (cases "n \<in> set live")
    case False
    then have "\<not> kept_place s live ((s @ [Normal ''refs'']) @ [Normal n])"
      by (simp add: kept_place_def ref_path_def)
    then show ?thesis unfolding drop_ref_def by (intro keeps_intros frozen.remove_file)
  qed (simp add: drop_ref_def keeps_return)
  then show ?thesis unfolding drop_records_def by (intro keeps_intros)
qed

lemma keeps_drop_wf: "keeps (\<lambda>w. wf_fs (fs w)) (drop_records (s @ [Normal ''refs'']) live)"
  unfolding drop_records_def drop_ref_def by (intro keeps_intros) simp

section \<open>A clean keeps what loadable apps need\<close>

text \<open>What the record \<open>n\<close> stands for, as long as no link is in its way: its manifest's digest and the manifest.\<close>

definition names_image :: "libs \<Rightarrow> path \<Rightarrow> fs \<Rightarrow> string \<Rightarrow> string \<Rightarrow> manifest \<Rightarrow> bool" where
  "names_image L s f n md m \<longleftrightarrow>
     (\<exists>c p b. node_at f (ref_path s n) = Some (File c) \<and> trim c = md \<and> md \<noteq> [] \<and>
        filed ''blobs'' s md p \<and> node_at f p = Some (File b) \<and> manifest_of L b = Inr m)"

definition image_part :: "path \<Rightarrow> string \<Rightarrow> string \<Rightarrow> manifest \<Rightarrow> path \<Rightarrow> bool" where
  "image_part s n md m q \<longleftrightarrow> q = ref_path s n \<or> filed ''blobs'' s md q \<or>
     filed ''blobs'' s (digest (man_config m)) q \<or>
     (\<exists>l \<in> set (man_layers m). \<exists>p. filed ''layers'' s (digest l) p \<and> under p q)"

lemma stat_file: "node_at f p = Some (File c) \<Longrightarrow> stat f p = Some (File c)"
  by (simp add: stat_def numeral_eq_Suc)

lemma names_image_gives: "names_image L s f n md m \<Longrightarrow> ref_gives L s f n md m"
  unfolding names_image_def ref_gives_def using stat_file by blast

lemma image_part_needed: "names_image L s f n md m \<Longrightarrow> image_part s n md m q \<Longrightarrow> needed L s f q"
proof -
  assume "names_image L s f n md m" and q: "image_part s n md m q"
  then have g: "ref_gives L s f n md m" by (intro names_image_gives)
  have b: "md \<in> live_blobs L s f" "digest (man_config m) \<in> live_blobs L s f"
    using g unfolding live_blobs_def by blast+
  have l: "digest x \<in> live_layers L s f" if "x \<in> set (man_layers m)" for x
    using g that unfolding live_layers_def by blast
  from q consider "q = ref_path s n" | "filed ''blobs'' s md q" | "filed ''blobs'' s (digest (man_config m)) q"
    | x p where "x \<in> set (man_layers m)" "filed ''layers'' s (digest x) p" "under p q"
    unfolding image_part_def by blast
  then show ?thesis unfolding needed_def using b l by cases blast+
qed

lemma not_record_kept: "filed area s d p \<Longrightarrow> area \<noteq> ''refs'' \<Longrightarrow> under p q \<Longrightarrow> kept_place s live q"
  by (auto simp: kept_place_def ref_path_def filed_def under_iff)

lemma image_part_kept: "n \<in> set live \<Longrightarrow> image_part s n md m q \<Longrightarrow> kept_place s live q"
  unfolding image_part_def using not_record_kept [of "''blobs''" s _ q q] not_record_kept [of "''layers''" s]
  by (auto simp: kept_place_def ref_path_def)

lemma names_image_kept:
  assumes "names_image L s f n md m" "n \<in> set live" "same_on (kept_place s live) f g"
  shows "names_image L s g n md m"
proof -
  have "kept_place s live p" if "filed ''blobs'' s md p" for p using not_record_kept [OF that] by simp
  moreover have "kept_place s live (ref_path s n)" using assms(2) by (simp add: kept_place_def ref_path_def)
  ultimately show ?thesis using assms(1,3) unfolding names_image_def same_on_def by metis
qed

text \<open>C7: \<open>climate clean\<close> on a disk where no call fails: for every app that is found and loads, the record of its
  image, and that of the image it is built on, its manifest, its configuration and every file of
  its layers are as they were.\<close>

theorem clean_keeps_images:
  assumes "no_faults w" "wf_fs (fs w)" "store_dir h = Inr s" "local_calls Y" "\<forall>q. under s q \<longrightarrow> outside_runs h q"
    and "n \<in> set (apps_of h (fs w))" "config_of L S h (fs w) n = Some cfg" "k \<in> set (markers_of L cfg)"
    and "names_image L s (fs w) k md m" "clean L S Y h w = (r, t)"
  shows "same_on (image_part s k md m) (fs w) (fs t)"
proof -
  let ?live = "markers_at L S h (fs w)"
  have k: "k \<in> set ?live" unfolding markers_at_def using assms(6-8) by force
  obtain u where u: "fs u = fs w"
    "drop_orphan_refs L S h w = drop_records (s @ [Normal ''refs'']) ?live u"
    using drop_orphan_refs_split [OF assms(1,3)] by blast
  obtain r1 v where v: "drop_records (s @ [Normal ''refs'']) ?live u = (r1, v)" by fastforce
  have fv: "same_on (kept_place s ?live) (fs w) (fs v)"
    using keepsD [OF keeps_drop_records _ v] u(1) by simp
  have wf: "wf_fs (fs v)" using keepsD [OF keeps_drop_wf _ v] u(1) assms(2) by simp
  have 1: "same_on (image_part s k md m) (fs w) (fs v)"
    using fv image_part_kept [OF k] by (auto simp: same_on_def)
  obtain r2 x where x: "gc_images L h v = (r2, x)" by fastforce
  have "same_on (needed L s (fs v)) (fs v) (fs x)" using gc_images_frozen [OF assms(3) wf x] by blast
  then have 2: "same_on (image_part s k md m) (fs v) (fs x)"
    using image_part_needed [OF names_image_kept [OF assms(9) k fv]] by (auto simp: same_on_def)
  obtain r3 y where y: "prune_runtime Y h x = (r3, y)" by fastforce
  have "under s q" if "image_part s k md m q" for q
    using that by (auto simp: image_part_def ref_path_def filed_def under_iff)
  then have 3: "same_on (image_part s k md m) (fs x) (fs y)"
    using prune_runtime_frozen [OF assms(4) y] assms(5) by (auto simp: same_on_def spared_def)
  have "t = v \<or> t = x \<or> t = y"
    using assms(10) u(2) v x y by (cases r1; cases r2) (auto simp: clean_def bindM_def)
  with 1 2 3 show ?thesis by (blast intro: same_on_trans)
qed

definition demo_clean_libs :: libs where
  "demo_clean_libs = demo_image_libs\<lparr>toml_of := demo_table_of, capability_of := (\<lambda>_. None)\<rparr>"

definition demo_clean_fs :: fs where
  "demo_clean_fs = ([RootDir, Normal ''c''], Dir 0x1ED) # ([RootDir, Normal ''c'', Normal ''climate''], Dir 0x1ED) #
     ([RootDir, Normal ''c'', Normal ''climate'', Normal ''apps''], Dir 0x1ED) #
     ([RootDir, Normal ''c'', Normal ''climate'', Normal ''apps'', Normal ''x''], Dir 0x1ED) #
     (demo_app_path, File ''base'') # demo_gc_fs"

lemma demo_clean_wf: "wf_fs demo_clean_fs"
  by (auto simp: wf_fs_def node_at_def demo_clean_fs_def demo_gc_fs_def demo_store_fs_def demo_images_def demo_blob_def
      ref_path_def demo_app_path_def split: if_splits)

lemma demo_clean_dirs: "search_dirs demo_host =
  [[RootDir, Normal ''c'', Normal ''climate'', Normal ''apps''], [RootDir, Normal ''d'', Normal ''climate'', Normal ''apps''],
   path_of SYSTEM_DIR]"
  by (simp add: search_dirs_def demo_host_def join_plain plain_name_def)

lemma apps_of_listed:
  assumes "d \<in> set (search_dirs h)" "dir_list f d = Inr gs" "g \<in> set gs" "dir_list f (d @ [Normal g]) = Inr ns"
    "x \<in> set ns" "toml_stem x = Some n"
  shows "n \<in> set (apps_of h f)"
proof -
  have "n \<in> set (filter_map toml_stem (list_of (dir_list f (d @ [Normal g]))))"
    using assms(4-6) by (auto simp: set_filter_map list_of_def)
  then have "n \<in> set (apps_in f d)" using assms(2,3) by (auto simp: apps_in_def list_of_def)
  with assms(1) show ?thesis by (auto simp: apps_of_def)
qed

lemma demo_clean_names: "''x'' \<in> set (apps_of demo_host demo_clean_fs)"
proof -
  let ?d = "[RootDir, Normal ''c'', Normal ''climate'', Normal ''apps'']"
  have "dir_list demo_clean_fs ?d = Inr (dir_names demo_clean_fs ?d)"
    "dir_list demo_clean_fs (?d @ [Normal ''x'']) = Inr (dir_names demo_clean_fs (?d @ [Normal ''x'']))"
    by (simp_all add: dir_list_def follow.simps numeral_eq_Suc node_at_def demo_clean_fs_def readable_def)
  moreover have "''x'' \<in> set (dir_names demo_clean_fs ?d)"
    by (simp add: set_dir_names node_at_def demo_clean_fs_def)
  moreover have "''x.toml'' \<in> set (dir_names demo_clean_fs (?d @ [Normal ''x'']))"
    by (simp add: set_dir_names node_at_def demo_clean_fs_def demo_app_path_def)
  moreover have "toml_stem ''x.toml'' = Some ''x''"
    by (simp add: toml_stem_def stem_ext_def)
  ultimately show ?thesis
    by (intro apps_of_listed [where d = ?d and g = "''x''"]) (simp_all add: demo_clean_dirs)
qed

lemma config_of_SomeI:
  assumes "valid_name n" "stated L h f n raw" "acceptable L S n raw cfg"
  shows "config_of L S h f n = Some cfg"
proof -
  have "loaded L S h f n = Inr (cfg, raw)" using assms by (simp add: loaded_Inr)
  then show ?thesis by (simp add: config_of_def)
qed

lemma demo_clean_config: "config_of demo_clean_libs demo_seacomb demo_host demo_clean_fs ''x'' = Some (demo_loaded\<lparr>run := run_default\<rparr>)"
proof -
  let ?raw = "[(''app'', TTable [(''name'', TString ''x''), (''description'', TString ''d''),
      (''license'', TString ''l'')]), (''image'', TTable [(''reference'', TString ''r'')])]"
  have stat: "stat demo_clean_fs demo_app_path = Some (File ''base'')" "stat demo_clean_fs demo_override_path = None"
    by (simp_all add: stat_def follow.simps numeral_eq_Suc demo_clean_fs_def demo_gc_fs_def demo_store_fs_def node_at_def
        demo_app_path_def demo_override_path_def demo_images_def ref_path_def demo_blob_def)
  have "definition_file demo_host demo_clean_fs ''x'' = Some demo_app_path"
    using stat(1) by (simp add: definition_file_def demo_clean_dirs file_text_def toml_name_def demo_app_path_def)
  moreover have "override_text demo_host demo_clean_fs ''x'' = None"
    using stat(2) by (simp add: override_text_def file_text_def demo_host_def toml_name_def demo_override_path_def)
  ultimately have 1: "stated demo_clean_libs demo_host demo_clean_fs ''x'' ?raw"
    using stat(1) by (simp add: stated_def file_text_def demo_clean_libs_def demo_table_of_def)
  have 2: "acceptable demo_clean_libs demo_seacomb ''x'' ?raw (demo_loaded\<lparr>run := run_default\<rparr>)"
    by (simp add: acceptable_def app_config_of_def deny_unknown_def required_def defaulted_def
      app_meta_of_def image_config_of_def run_config_of_def run_keys_def de_network_def network_default_def
      demo_loaded_def run_default_def check_syscall_names_def)
  show ?thesis by (rule config_of_SomeI [OF demo_valid 1 2])
qed

lemma demo_clean_image: "names_image demo_clean_libs demo_images demo_clean_fs ''r'' ''a:m'' demo_manifest"
proof -
  have "node_at demo_clean_fs (ref_path demo_images ''r'') = Some (File ''a:m'')"
    "node_at demo_clean_fs demo_blob = Some (File ''content'')"
    by (simp_all add: node_at_def demo_clean_fs_def demo_gc_fs_def ref_path_def demo_blob_def demo_images_def demo_app_path_def)
  moreover have "trim ''a:m'' = ''a:m''" by (simp add: trim_def trim_end_matches_def is_ws_def)
  moreover have "filed ''blobs'' demo_images ''a:m'' demo_blob" by (rule demo_gc_filed)
  moreover have "manifest_of demo_clean_libs ''content'' = Inr demo_manifest"
    by (simp add: demo_image_libs_def demo_clean_libs_def)
  ultimately show ?thesis unfolding names_image_def by (intro exI conjI) auto
qed

lemma demo_clean_marker: "''r'' \<in> set (markers_of demo_clean_libs (demo_loaded\<lparr>run := run_default\<rparr>))"
  by (simp add: markers_of_def demo_loaded_def demo_clean_libs_def demo_image_libs_def demo_libs_def marker_name_def
      replace_char_def)

lemma demo_clean_outside: "\<forall>q. under demo_images q \<longrightarrow> outside_runs demo_host q"
  by (auto simp: demo_images_def outside_runs_def under_iff runtime_dir_def demo_host_def join_plain plain_name_def)

theorem clean_keeps_images_witness:
  "node_at (fs (snd (clean demo_clean_libs demo_seacomb demo_system demo_host (demo_world demo_clean_fs)))) demo_blob =
     Some (File ''content'')"
proof -
  let ?w = "demo_world demo_clean_fs"
  have w: "no_faults ?w" "fs ?w = demo_clean_fs" by (simp_all add: demo_world_def no_faults_def)
  have s: "store_dir demo_host = Inr demo_images" by (simp add: demo_store demo_images_def)
  have f: "wf_fs (fs ?w)" "''x'' \<in> set (apps_of demo_host (fs ?w))"
    "config_of demo_clean_libs demo_seacomb demo_host (fs ?w) ''x'' = Some (demo_loaded\<lparr>run := run_default\<rparr>)"
    "names_image demo_clean_libs demo_images (fs ?w) ''r'' ''a:m'' demo_manifest"
    using demo_clean_wf demo_clean_names demo_clean_config demo_clean_image by (simp_all only: w(2))
  have "same_on (image_part demo_images ''r'' ''a:m'' demo_manifest) (fs ?w)
      (fs (snd (clean demo_clean_libs demo_seacomb demo_system demo_host ?w)))"
    by (rule clean_keeps_images [OF w(1) f(1) s demo_system_local demo_clean_outside f(2,3)
        demo_clean_marker f(4) prod.collapse [symmetric]])
  moreover have "image_part demo_images ''r'' ''a:m'' demo_manifest demo_blob"
    using demo_gc_filed by (simp add: image_part_def)
  moreover have "node_at demo_clean_fs demo_blob = Some (File ''content'')"
    by (simp_all add: node_at_def demo_clean_fs_def demo_gc_fs_def ref_path_def demo_blob_def demo_images_def demo_app_path_def)
  ultimately show ?thesis by (simp add: same_on_def w)
qed

section \<open>Which records go\<close>

lemma drop_ref_Inr:
  assumes "drop_ref d live n w = (Inr u, t)"
  shows "node_at (fs t) q = (if q = d @ [Normal n] \<and> n \<notin> set live then None else node_at (fs w) q)"
proof (cases "n \<in> set live")
  case False
  then obtain v where v: "remove_file (d @ [Normal n]) w = (Inr (), v)" "fs t = fs v"
    using assms by (auto simp: drop_ref_def bindM_Inr eprint_def)
  from v(1) have "fs v = del_node (d @ [Normal n]) (fs w)"
    by (auto simp: remove_file_def prim_def Let_def split: option.splits nat.splits node.splits)
  with v(2) False show ?thesis by (simp add: node_at_del_node)
qed (use assms in \<open>simp add: drop_ref_def script_simps\<close>)

lemma drop_refs_Inr:
  "forM ns (drop_ref d live) w = (Inr u, t) \<Longrightarrow>
   node_at (fs t) (d @ [Normal n]) = (if n \<in> set ns \<and> n \<notin> set live then None else node_at (fs w) (d @ [Normal n]))"
proof (induction ns arbitrary: w)
  case (Cons k ns)
  from Cons.prems obtain v where v: "drop_ref d live k w = (Inr (), v)" "forM ns (drop_ref d live) v = (Inr u, t)"
    by (auto simp: bindM_Inr)
  show ?case using Cons.IH [OF v(2)] drop_ref_Inr [OF v(1), of "d @ [Normal n]"] by auto
qed (simp add: script_simps)

text \<open>C31: where no call fails, dropping the orphaned records removes exactly those no loadable app names: a record is
  there afterwards exactly when it was and some app that is listed and loads names it, directly or as the
  image its own is built on. An app whose definition or override does not load names none, so
  its image's record goes although the app is still there.\<close>

theorem orphans_exact:
  assumes "no_faults w" "wf_fs (fs w)" "store_dir h = Inr s" "drop_orphan_refs L S h w = (Inr u, t)"
  shows "node_at (fs t) (ref_path s k) \<noteq> None \<longleftrightarrow> node_at (fs w) (ref_path s k) \<noteq> None \<and>
     (\<exists>n cfg. n \<in> set (apps_of h (fs w)) \<and> config_of L S h (fs w) n = Some cfg \<and> k \<in> set (markers_of L cfg))"
proof -
  let ?live = "markers_at L S h (fs w)"
  obtain v where v: "fs v = fs w" "drop_records (s @ [Normal ''refs'']) ?live v = (Inr u, t)"
    using drop_orphan_refs_split [OF assms(1,3), of L S] assms(4) by metis
  from v(2) obtain es x where e: "entries (s @ [Normal ''refs'']) v = (Inr es, x)"
    "forM es (drop_ref (s @ [Normal ''refs'']) ?live) x = (Inr u, t)"
    by (auto simp: drop_records_def bindM_Inr)
  have x: "fs x = fs w" using keepsD [OF keeps_entries [where I = "\<lambda>f. f = fs w"] _ e(1)] v(1) by simp
  have "node_at (fs t) (ref_path s k) =
      (if k \<in> set es \<and> k \<notin> set ?live then None else node_at (fs w) (ref_path s k))"
    using drop_refs_Inr [OF e(2), of k] by (simp add: ref_path_def x)
  moreover have "k \<in> set es" if "node_at (fs w) (ref_path s k) \<noteq> None"
    using entries_complete [OF _ e(1), of k] that assms(2) v(1) by (simp add: ref_path_def)
  moreover have "k \<in> set ?live \<longleftrightarrow> (\<exists>n cfg. n \<in> set (apps_of h (fs w)) \<and> config_of L S h (fs w) n = Some cfg \<and>
      k \<in> set (markers_of L cfg))"
    by (force simp: markers_at_def split: option.splits)
  ultimately show ?thesis by auto
qed

lemma demo_no_apps: "apps_of demo_host demo_gc_fs = []"
proof -
  have sys: "path_of SYSTEM_DIR = [RootDir, Normal ''usr'', Normal ''share'', Normal ''climate'', Normal ''apps'']"
    by code_simp
  have none: "dir_list demo_gc_fs d = Inl not_found" if "node_at demo_gc_fs d = None" for d
    using that by (simp add: dir_list_def follow.simps numeral_eq_Suc)
  have "node_at demo_gc_fs [RootDir, Normal ''c'', Normal ''climate'', Normal ''apps''] = None"
    "node_at demo_gc_fs [RootDir, Normal ''d'', Normal ''climate'', Normal ''apps''] = None"
    "node_at demo_gc_fs [RootDir, Normal ''usr'', Normal ''share'', Normal ''climate'', Normal ''apps''] = None"
    by (simp_all add: node_at_def demo_gc_fs_def demo_store_fs_def demo_images_def ref_path_def demo_blob_def)
  then have "node_at demo_gc_fs d = None" if "d \<in> set (search_dirs demo_host)" for d
    using that unfolding demo_clean_dirs sys by auto
  with none have "dir_list demo_gc_fs d = Inl not_found" if "d \<in> set (search_dirs demo_host)" for d
    using that by blast
  then have "apps_in demo_gc_fs d = []" if "d \<in> set (search_dirs demo_host)" for d
    using that by (simp add: apps_in_def list_of_def)
  then have "map (apps_in demo_gc_fs) (search_dirs demo_host) = map (\<lambda>_. []) (search_dirs demo_host)" by (intro map_cong) auto
  then show ?thesis by (simp add: apps_of_def demo_clean_dirs)
qed

theorem orphans_exact_witness:
  "node_at (fs (snd (drop_orphan_refs demo_clean_libs demo_seacomb demo_host (demo_world demo_gc_fs))))
     (ref_path demo_images ''r'') = None"
proof -
  let ?w = "demo_world demo_gc_fs"
  have w: "no_faults ?w" "fs ?w = demo_gc_fs" by (simp_all add: demo_world_def no_faults_def)
  have s: "store_dir demo_host = Inr demo_images" by (simp add: demo_store demo_images_def)
  have "markers_at demo_clean_libs demo_seacomb demo_host (fs ?w) = []"
    by (simp add: markers_at_def w(2) demo_no_apps)
  then obtain u where u: "fs u = demo_gc_fs" "no_faults u"
    "drop_orphan_refs demo_clean_libs demo_seacomb demo_host ?w = drop_records (demo_images @ [Normal ''refs'']) [] u"
    using drop_orphan_refs_split [OF w(1) s] w(2) by metis
  have "\<exists>t. drop_records (demo_images @ [Normal ''refs'']) [] u = (Inr (), t)"
  proof -
    have n: "node_at demo_gc_fs (demo_images @ [Normal ''refs'']) = Some (Dir 0x1ED)"
      "node_at demo_gc_fs ((demo_images @ [Normal ''refs'']) @ [Normal ''r'']) = Some (File ''a:m'')"
      by (simp_all add: node_at_def demo_gc_fs_def ref_path_def)
    have d: "dir_names demo_gc_fs (demo_images @ [Normal ''refs'']) = [''r'']"
      by (simp add: dir_names_def demo_gc_fs_def demo_store_fs_def ref_path_def demo_blob_def demo_images_def child_of_def file_name_def)
    have "read_dir (demo_images @ [Normal ''refs'']) u = (Inr [''r''], u\<lparr>tick := Suc (tick u)\<rparr>)"
      using u(1,2) n(1) d by (simp add: read_dir_def query_def prim_def Let_def no_faults_def follow.simps numeral_eq_Suc readable_def)
    then have "entries (demo_images @ [Normal ''refs'']) u = (Inr [''r''], u\<lparr>tick := Suc (tick u)\<rparr>)"
      by (simp add: entries_def tryM_def bindM_def script_simps)
    moreover have "remove_file ((demo_images @ [Normal ''refs'']) @ [Normal ''r'']) (u\<lparr>tick := Suc (tick u)\<rparr>) =
       (Inr (), u\<lparr>tick := Suc (Suc (tick u)), fs := del_node ((demo_images @ [Normal ''refs'']) @ [Normal ''r'']) demo_gc_fs\<rparr>)"
      using u(1,2) n
      by (simp add: remove_file_def prim_def Let_def no_faults_def parent_error_def butlast_append writable_def)
    ultimately show ?thesis
      by (simp add: drop_records_def drop_ref_def contextM_def bindM_def script_simps eprint_def)
  qed
  then obtain t where t: "drop_orphan_refs demo_clean_libs demo_seacomb demo_host ?w = (Inr (), t)" using u(3) by auto
  have "wf_fs (fs ?w)" using demo_gc_wf w(2) by simp
  from orphans_exact [OF w(1) this s t, of "''r''"] show ?thesis by (simp add: t demo_no_apps w(2))
qed

end
