(* ===== verification/Sync.thy ===== *)
theory Sync
  imports Apps
begin

text \<open>
  \<open>climate sync\<close>, the end of \<open>src/config.rs\<close>: cloning or updating the repository of app definitions.
  The git library is a parameter. Of the repository the model keeps what sync changes: the local
  branches, \<open>HEAD\<close>, and the checked-out files, of a type of their own.
\<close>

section \<open>The git library\<close>

type_synonym oid = string

datatype diff_status = Added | Copied | Deleted | Modified | Other_Status

record outcome =
  updates :: "(string option \<times> oid option) list" \<comment> \<open>\<open>local_ref\<close> and \<open>new_oid\<close>\<close>
  default_branch :: "string option"

record 'w git =
  is_ssh_url :: "string \<Rightarrow> bool"
  ssh_connect :: "string \<Rightarrow> unit res"
  fetch_remote :: "string \<Rightarrow> outcome res"
  http_fetch :: "string \<Rightarrow> outcome res"
  odb_read :: "oid \<Rightarrow> string res"
  parse_commit :: "string \<Rightarrow> oid res"            \<comment> \<open>the commit's tree\<close>
  diff_trees :: "oid option \<Rightarrow> oid \<Rightarrow> (string \<times> diff_status) list res"
  checkout_between_trees :: "oid option \<Rightarrow> oid \<Rightarrow> 'w \<Rightarrow> unit res \<times> 'w"
  write_fails :: "string \<Rightarrow> error option"        \<comment> \<open>writing a reference\<close>
  open_repository :: "path \<Rightarrow> unit res"
  load_config :: "path \<Rightarrow> (string \<Rightarrow> string option) res"
  init_repository :: "path \<Rightarrow> unit res"
  config_from_path :: "path \<Rightarrow> unit option res"
  config_set :: "string \<Rightarrow> string \<Rightarrow> unit res"
  config_write :: "unit res"

record 'w repo =
  local_refs :: "(string \<times> oid) list"
  head :: "string option"
  work :: 'w

section \<open>Fetching\<close>

definition DEFAULT_APPS_URL :: string where
  "DEFAULT_APPS_URL = ''https://github.com/gblach/climate-apps.git''"

definition FETCH_REFSPEC :: string where
  "FETCH_REFSPEC = ''+refs/heads/*:refs/remotes/origin/*''"

definition fetch_apps :: "'w git \<Rightarrow> string \<Rightarrow> outcome res" (* fetch *) where
  "fetch_apps G url =
     (if is_ssh_url G url
      then and_then (with_context (''connecting to '' @ url) (ssh_connect G url)) (\<lambda>_.
           with_context (''fetching '' @ url) (fetch_remote G url))
      else if starts_with ''http://'' url \<or> starts_with ''https://'' url
      then with_context (''fetching '' @ url) (http_fetch G url)
      else Inl (Bail (''unsupported apps URL scheme: '' @ url)))"

record sync_counts =
  added :: nat
  changed :: nat
  removed :: nat

definition count_change :: "(string \<times> diff_status) \<Rightarrow> sync_counts \<Rightarrow> sync_counts" where
  "count_change c n =
     (if \<not> ends_with ''.toml'' (fst c) then n
      else case snd c of
        Added \<Rightarrow> n\<lparr>added := added n + 1\<rparr>
      | Copied \<Rightarrow> n\<lparr>added := added n + 1\<rparr>
      | Deleted \<Rightarrow> n\<lparr>removed := removed n + 1\<rparr>
      | _ \<Rightarrow> n\<lparr>changed := changed n + 1\<rparr>)"

definition count_changes :: "(string \<times> diff_status) list \<Rightarrow> sync_counts" where
  "count_changes cs = fold count_change cs \<lparr>added = 0, changed = 0, removed = 0\<rparr>"

definition tip_of :: "outcome \<Rightarrow> string \<Rightarrow> oid option" where
  "tip_of out tracking = Option.bind (List.find (\<lambda>u. fst u = Some tracking) (updates out)) snd"

definition tree_of_commit :: "'w git \<Rightarrow> string \<Rightarrow> oid \<Rightarrow> oid res" where
  "tree_of_commit G msg c = and_then (odb_read G c) (\<lambda>d. with_context msg (parse_commit G d))"

text \<open>Writing a reference, \<open>HEAD\<close> or a branch.\<close>

definition write_symbolic_head :: "'w git \<Rightarrow> string \<Rightarrow> ('w repo, unit) script" where
  "write_symbolic_head G branch r =
     (case write_fails G ''HEAD'' of
        Some e \<Rightarrow> (Inl e, r) | None \<Rightarrow> (Inr (), r\<lparr>head := Some branch\<rparr>))"

definition write_ref :: "'w git \<Rightarrow> string \<Rightarrow> oid \<Rightarrow> ('w repo, unit) script" where
  "write_ref G branch tip r =
     (case write_fails G branch of
        Some e \<Rightarrow> (Inl e, r) | None \<Rightarrow> (Inr (), r\<lparr>local_refs := (branch, tip) # local_refs r\<rparr>))"

definition check_out :: "'w git \<Rightarrow> oid option \<Rightarrow> oid \<Rightarrow> ('w repo, unit) script" where
  "check_out G from till r =
     (case checkout_between_trees G from till (work r) of (x, w) \<Rightarrow> (x, r\<lparr>work := w\<rparr>))"

definition local_tree :: "'w git \<Rightarrow> string \<Rightarrow> ('w repo, oid option) script" where
  "local_tree G local_branch r =
     (case map_of (local_refs r) local_branch of
        None \<Rightarrow> (Inr None, r)
      | Some old_tip \<Rightarrow>
          (and_then (tree_of_commit G ''reading the previous commit'' old_tip) (\<lambda>t. Inr (Some t)), r))"

definition tracking_ref :: "string \<Rightarrow> string" where
  "tracking_ref branch = ''refs/remotes/origin/'' @ branch"

definition local_ref :: "string \<Rightarrow> string" where
  "local_ref branch = ''refs/heads/'' @ branch"

definition fetch_and_checkout :: "'w git \<Rightarrow> string \<Rightarrow> ('w repo, sync_counts) script" where
  "fetch_and_checkout G url =
     bindM (liftM (fetch_apps G url)) (\<lambda>out.
     if updates out = []
     then failM (Bail (''the apps remote '' @ url @ '' advertised no branches (does it exist and is it accessible?)''))
     else
       bindM (liftM (option_context ''the apps remote advertised no default branch'' (default_branch out))) (\<lambda>branch.
       let tracking = tracking_ref branch; local_branch = local_ref branch in
       bindM (liftM (option_context (''fetch did not update '' @ tracking) (tip_of out tracking))) (\<lambda>tip.
       bindM (local_tree G local_branch) (\<lambda>from_tree.
       bindM (contextM ''setting HEAD'' (write_symbolic_head G local_branch)) (\<lambda>_.
       bindM (contextM (''updating '' @ local_branch) (write_ref G local_branch tip)) (\<lambda>_.
       bindM (liftM (tree_of_commit G ''reading the fetched commit'' tip)) (\<lambda>tree.
       bindM (liftM (with_context ''comparing the checked-out files with the fetched ones''
                      (diff_trees G from_tree tree))) (\<lambda>changes.
       bindM (contextM ''checking out the fetched files'' (check_out G from_tree tree)) (\<lambda>_.
       returnM (count_changes changes))))))))))"

section \<open>Sync\<close>

text \<open>The repository and the files around it are two parts of one state.\<close>

definition around :: "'a io \<Rightarrow> (world \<times> 'w repo, 'a) script" where
  "around m s = (case m (fst s) of (x, w) \<Rightarrow> (x, (w, snd s)))"

definition inside :: "('w repo, 'a) script \<Rightarrow> (world \<times> 'w repo, 'a) script" where
  "inside m s = (case m (snd s) of (x, r) \<Rightarrow> (x, (fst s, r)))"

definition sync_target :: "host \<Rightarrow> bool \<Rightarrow> path res" where
  "sync_target h system =
     (if system then Inr (path_of SYSTEM_DIR)
      else and_then (option_context ''resolving the user data directory'' (data_dir h)) (\<lambda>d.
           Inr (join_str (join_str d ''climate'') ''apps'')))"

definition update_apps :: "'w git \<Rightarrow> path \<Rightarrow> path \<Rightarrow> (world \<times> 'w repo, sync_counts) script" where
  "update_apps G target git_dir =
     bindM (liftM (with_context (''opening '' @ path_str target) (open_repository G git_dir))) (\<lambda>_.
     bindM (liftM (with_context ''reading repository config'' (load_config G git_dir))) (\<lambda>cfg.
     bindM (liftM (option_context ''the apps repository has no remote.origin.url''
                    (cfg ''remote.origin.url''))) (\<lambda>url.
     inside (fetch_and_checkout G url))))"

definition clone_apps :: "'w git \<Rightarrow> host \<Rightarrow> path \<Rightarrow> path \<Rightarrow> (world \<times> 'w repo, sync_counts) script" where
  "clone_apps G h target git_dir =
     bindM (around (names_in target)) (\<lambda>ns.
     if ns \<noteq> [] then failM (Bail (path_str target @ '' already exists and is not empty''))
     else
       bindM (case parent target of
           None \<Rightarrow> returnM ()
         | Some p \<Rightarrow> around (contextM (''creating '' @ path_str p) (create_dir_all p))) (\<lambda>_.
       let url = (case env_var h ''CLIMATE_APPS_URL'' of None \<Rightarrow> DEFAULT_APPS_URL | Some u \<Rightarrow> u) in
       bindM (liftM (with_context (''initializing '' @ path_str target) (init_repository G target))) (\<lambda>_.
       bindM (liftM (and_then (with_context ''reading repository config''
                 (config_from_path G (join_str git_dir ''config'')))
               (option_context ''the freshly initialized repository has no config file''))) (\<lambda>_.
       bindM (liftM (with_context ''recording remote.origin.url'' (config_set G ''remote.origin.url'' url))) (\<lambda>_.
       bindM (liftM (with_context ''recording remote.origin.fetch''
               (config_set G ''remote.origin.fetch'' FETCH_REFSPEC))) (\<lambda>_.
       bindM (liftM (with_context ''writing repository config'' (config_write G))) (\<lambda>_.
       inside (fetch_and_checkout G url))))))))"

definition sync :: "'w git \<Rightarrow> host \<Rightarrow> bool \<Rightarrow> (world \<times> 'w repo, unit) script" where
  "sync G h system =
     bindM (liftM (sync_target h system)) (\<lambda>target.
     let git_dir = join_str target ''.git'' in
     bindM (around (is_dir git_dir)) (\<lambda>there.
     bindM (if there then update_apps G target git_dir else clone_apps G h target git_dir) (\<lambda>n.
     around (println (''synced apps: '' @ nat_str (added n) @ '' added, '' @ nat_str (changed n) @ '' changed, ''
               @ nat_str (removed n) @ '' removed'')))))"

section \<open>What a sync leaves\<close>

text \<open>A branch and its tip, as a fetch offers them.\<close>

definition offers :: "'w git \<Rightarrow> string \<Rightarrow> string \<Rightarrow> oid \<Rightarrow> oid \<Rightarrow> bool" where
  "offers G url branch tip tree \<longleftrightarrow> (\<exists>out. fetch_apps G url = Inr out \<and> updates out \<noteq> [] \<and>
     default_branch out = Some branch \<and> tip_of out (tracking_ref branch) = Some tip \<and>
     (\<exists>d. odb_read G tip = Inr d \<and> parse_commit G d = Inr tree))"

lemma fetch_and_checkout_offered:
  assumes "offers G url branch tip tree"
    and "write_fails G ''HEAD'' = None" "write_fails G (local_ref branch) = None"
    and "local_tree G (local_ref branch) r = (Inr from, r)" "diff_trees G from tree = Inr changes"
  shows "fetch_and_checkout G url r =
    (case checkout_between_trees G from tree (work r) of (x, w) \<Rightarrow>
      (and_then (with_context ''checking out the fetched files'' x) (\<lambda>_. Inr (count_changes changes)),
       r\<lparr>head := Some (local_ref branch),
         local_refs := (local_ref branch, tip) # local_refs r, work := w\<rparr>))"
proof -
  let ?b = "local_ref branch"
  obtain out d where out: "fetch_apps G url = Inr out" "updates out \<noteq> []" "default_branch out = Some branch"
    "tip_of out (tracking_ref branch) = Some tip" "odb_read G tip = Inr d" "parse_commit G d = Inr tree"
    using assms(1) unfolding offers_def by blast
  have tree: "tree_of_commit G msg tip = Inr tree" for msg
    using out by (simp add: tree_of_commit_def)
  have "fetch_and_checkout G url r =
      bindM (local_tree G ?b) (\<lambda>from_tree.
       bindM (contextM ''setting HEAD'' (write_symbolic_head G ?b)) (\<lambda>_.
       bindM (contextM (''updating '' @ ?b) (write_ref G ?b tip)) (\<lambda>_.
       bindM (liftM (with_context ''comparing the checked-out files with the fetched ones''
                      (diff_trees G from_tree tree))) (\<lambda>changes.
       bindM (contextM ''checking out the fetched files'' (check_out G from_tree tree)) (\<lambda>_.
       returnM (count_changes changes)))))) r"
    unfolding fetch_and_checkout_def Let_def by (simp add: out tree)
  also have "\<dots> = (case checkout_between_trees G from tree (work r) of (x, w) \<Rightarrow>
      (and_then (with_context ''checking out the fetched files'' x) (\<lambda>_. Inr (count_changes changes)),
       r\<lparr>head := Some ?b, local_refs := (?b, tip) # local_refs r, work := w\<rparr>))"
  proof -
    have head: "contextM ''setting HEAD'' (write_symbolic_head G ?b) r = (Inr (), r\<lparr>head := Some ?b\<rparr>)"
      using assms(2) by (simp add: contextM_def write_symbolic_head_def)
    have branch: "contextM (''updating '' @ ?b) (write_ref G ?b tip) (r\<lparr>head := Some ?b\<rparr>) =
        (Inr (), r\<lparr>head := Some ?b, local_refs := (?b, tip) # local_refs r\<rparr>)"
      using assms(3) by (simp add: contextM_def write_ref_def)
    show ?thesis
      unfolding bindM_runs [where m = "local_tree G ?b" and s = r, OF assms(4)]
        bindM_runs [where m = "contextM ''setting HEAD'' (write_symbolic_head G ?b)" and s = r, OF head] bindM_runs [where m = "contextM (''updating '' @ ?b) (write_ref G ?b tip)"
          and s = "r\<lparr>head := Some ?b\<rparr>", OF branch] assms(5)
        with_context_simps liftM_simps bindM_simps
      by (simp add: bindM_def contextM_def returnM_def check_out_def split: prod.split sum.split)
  qed
  finally show ?thesis .
qed

text \<open>C37: The branch is moved to the fetched commit before its files are checked out. When the checkout of
  a first sync fails, every later sync of the same commit compares that commit with itself,
  reports success with no changes, and leaves the files as the failed checkout left them.\<close>

theorem interrupted_sync_sticks:
  assumes "offers G url branch tip tree"
    and "write_fails G ''HEAD'' = None" "write_fails G (local_ref branch) = None"
    and "map_of (local_refs r) (local_ref branch) = None" "diff_trees G None tree = Inr changes"
    and "checkout_between_trees G None tree (work r) = (Inl e, w)"
    and same: "\<And>t. diff_trees G (Some t) t = Inr []" "\<And>t v. checkout_between_trees G (Some t) t v = (Inr (), v)"
  shows "\<exists>r'. fetch_and_checkout G url r = (Inl (Context ''checking out the fetched files'' e), r') \<and> work r' = w \<and>
    (\<exists>r''. fetch_and_checkout G url r' = (Inr \<lparr>added = 0, changed = 0, removed = 0\<rparr>, r'') \<and> work r'' = w)"
proof -
  let ?b = "local_ref branch"
  define r' where "r' = r\<lparr>head := Some ?b, local_refs := (?b, tip) # local_refs r, work := w\<rparr>"
  have w: "work r' = w" by (simp add: r'_def)
  have "local_tree G ?b r = (Inr None, r)" using assms(4) by (simp add: local_tree_def)
  from fetch_and_checkout_offered [OF assms(1-3) this assms(5)] assms(6)
  have "fetch_and_checkout G url r = (Inl (Context ''checking out the fetched files'' e), r')"
    by (simp add: r'_def)
  moreover have "local_tree G ?b r' = (Inr (Some tree), r')"
    using assms(1) by (auto simp: local_tree_def offers_def tree_of_commit_def r'_def)
  from fetch_and_checkout_offered [OF assms(1-3) this same(1)] same(2)
  have "fetch_and_checkout G url r' = (Inr \<lparr>added = 0, changed = 0, removed = 0\<rparr>,
      r'\<lparr>head := Some ?b, local_refs := (?b, tip) # local_refs r', work := w\<rparr>)"
    by (simp add: w count_changes_def)
  ultimately show ?thesis using w by fastforce
qed

definition demo_git :: "string list git" where
  "demo_git = \<lparr>is_ssh_url = (\<lambda>_. False), ssh_connect = (\<lambda>_. Inr ()), fetch_remote = (\<lambda>_. Inl (Ext [])),
     http_fetch = (\<lambda>_. Inr \<lparr>updates = [(Some (tracking_ref ''main''), Some ''c1'')], default_branch = Some ''main''\<rparr>),
     odb_read = (\<lambda>_. Inr ''commit''), parse_commit = (\<lambda>_. Inr ''t1''),
     diff_trees = (\<lambda>from t. Inr (if from = Some t then [] else [(''a/ab.toml'', Added), (''x/xh.toml'', Added)])),
     checkout_between_trees = (\<lambda>from t w. if from = Some t then (Inr (), w) else (Inl interrupted, w @ [''a/ab.toml''])),
     write_fails = (\<lambda>_. None), open_repository = (\<lambda>_. Inr ()), load_config = (\<lambda>_. Inr (\<lambda>_. Some ''https://x'')),
     init_repository = (\<lambda>_. Inr ()), config_from_path = (\<lambda>_. Inr (Some ())), config_set = (\<lambda>_ _. Inr ()),
     config_write = Inr ()\<rparr>"

definition demo_repo :: "string list repo" where
  "demo_repo = \<lparr>local_refs = [], head = None, work = []\<rparr>"

lemma demo_offers: "offers demo_git ''https://x'' ''main'' ''c1'' ''t1''"
proof -
  have "starts_with ''https://'' ''https://x''" by (simp add: starts_with_def)
  then show ?thesis
    by (simp add: offers_def fetch_apps_def demo_git_def tip_of_def)
qed

lemma interrupted_sync_sticks_witness:
  "\<exists>r'. fetch_and_checkout demo_git ''https://x'' demo_repo =
      (Inl (Context ''checking out the fetched files'' interrupted), r') \<and> work r' = [''a/ab.toml''] \<and>
    (\<exists>r''. fetch_and_checkout demo_git ''https://x'' r' =
      (Inr \<lparr>added = 0, changed = 0, removed = 0\<rparr>, r'') \<and> work r'' = [''a/ab.toml''])"
  by (rule interrupted_sync_sticks [OF demo_offers,
        where changes = "[(''a/ab.toml'', Added), (''x/xh.toml'', Added)]"])
    (simp_all add: demo_git_def demo_repo_def)

end
