(* ===== verification/Overlay.thy ===== *)
theory Overlay
  imports Runtime_Gc Launch_Spec
begin

text \<open>
  The container's root filesystem, \<open>Mount\<close> of \<open>src/runtime.rs\<close>: the stub layer with the mount points,
  the option that tells \<open>fuse-overlayfs\<close> how to stack the layers, and mounting and unmounting.
  The program itself is a parameter: it is run with the option and the place to mount at, and
  either cannot be started or says whether it succeeded.
\<close>

section \<open>The code\<close>

definition stub_target :: "path \<Rightarrow> mount_point \<Rightarrow> path" where
  "stub_target stub point = join stub (strip_root (point_path point))"

definition materialise_point :: "path \<Rightarrow> mount_point \<Rightarrow> unit io" where
  "materialise_point stub point =
     (let target = stub_target stub point in
      if point_is_file point
      then bindM (case parent target of
                    None \<Rightarrow> returnM ()
                  | Some d \<Rightarrow> contextM (''creating '' @ path_str d) (create_dir_all d)) (\<lambda>_.
           contextM (''creating '' @ path_str target) (write_file target (point_contents point)))
      else contextM (''creating '' @ path_str target) (create_dir_all target))"

definition materialise_stub :: "path \<Rightarrow> mount_point list \<Rightarrow> unit io" where
  "materialise_stub stub points = forM points (materialise_point stub)"

definition lowerdir_arg :: "path \<Rightarrow> string res" where
  "lowerdir_arg p =
     (let text = path_str p in
      if CHR '':'' \<in> set text
      then Inl (Bail (''path '' @ quoted text @ '' contains a '' @ quoted '':'' @ '' that overlayfs cannot express''))
      else Inr text)"

definition run_dir :: "host \<Rightarrow> path io" where
  "run_dir h = bindM (unique_id h) (\<lambda>i. returnM (join_str (join_str (runtime_dir h) ''overlays'') i))"

definition lower_layer :: "host \<Rightarrow> string \<Rightarrow> string io" where
  "lower_layer h d =
     bindM (liftM (layer_path h d)) (\<lambda>p.
     bindM (is_dir p) (\<lambda>there.
     if there then liftM (lowerdir_arg p)
     else failM (Bail (''layer '' @ d @ '' is not extracted in the store''))))"

definition mount_options :: "host \<Rightarrow> path \<Rightarrow> string list \<Rightarrow> (path \<times> path) option \<Rightarrow> string io" where
  "mount_options h stub ls upper_work =
     bindM (liftM (lowerdir_arg stub)) (\<lambda>top.
     bindM (mapM (lower_layer h) (rev ls)) (\<lambda>lowers.
     let options = ''lowerdir='' @ join_on '':'' (top # lowers) in
     case upper_work of
       None \<Rightarrow> returnM options
     | Some (upper, work) \<Rightarrow>
         bindM (liftM (lowerdir_arg upper)) (\<lambda>u.
         bindM (liftM (lowerdir_arg work)) (\<lambda>k.
         returnM (options @ '',upperdir='' @ u @ '',workdir='' @ k)))))"

record overlay =
  overlay_dir :: path
  overlay_merged :: path

definition mount_new ::
  "(string \<Rightarrow> path \<Rightarrow> bool io) \<Rightarrow> host \<Rightarrow> string list \<Rightarrow> mount_point list \<Rightarrow> (path \<times> path) option \<Rightarrow>
   overlay io" where
  "mount_new fuse_overlayfs h ls points upper_work =
     (if ls = [] then failM (Bail ''image has no layers to mount'')
      else
        bindM (run_dir h) (\<lambda>dir.
        let merged = join_str dir ''merged''; stub = join_str dir ''stub'' in
        bindM (contextM (''creating '' @ path_str merged) (create_dir_all merged)) (\<lambda>_.
        bindM (materialise_stub stub points) (\<lambda>_.
        bindM (mount_options h stub ls upper_work) (\<lambda>options.
        bindM (contextM ''running fuse-overlayfs (is it installed?)'' (fuse_overlayfs options merged)) (\<lambda>success.
        if success then returnM \<lparr>overlay_dir = dir, overlay_merged = merged\<rparr>
        else bindM (ignoreM (remove_dir_all dir)) (\<lambda>_.
             failM (Bail ''fuse-overlayfs failed to mount the image layers''))))))))"

definition mount_drop :: "system \<Rightarrow> overlay \<Rightarrow> unit io" (* Mount::drop *) where
  "mount_drop S m =
     bindM (tryM (fusermount S (overlay_merged m))) (\<lambda>r.
     case r of
       Inr True \<Rightarrow>
         bindM (tryM (remove_dir_all (overlay_dir m))) (\<lambda>r.
         case r of
           Inl e \<Rightarrow> eprint (''removing overlay '' @ path_str (overlay_dir m) @ '': '' @ error_str e)
         | Inr _ \<Rightarrow> returnM ())
     | Inr False \<Rightarrow> eprint (''fusermount3 failed to unmount '' @ path_str (overlay_merged m))
     | Inl e \<Rightarrow> eprint (''running fusermount3 to unmount '' @ path_str (overlay_merged m) @ '': '' @ error_str e))"

section \<open>The stub layer\<close>

text \<open>Making directories and writing files keeps what is there of its kind, and makes no links.\<close>

definition extends :: "fs \<Rightarrow> fs \<Rightarrow> bool" where
  "extends f g \<longleftrightarrow>
     (\<forall>q. (is_dir_node (node_at f q) \<longrightarrow> is_dir_node (node_at g q)) \<and>
          (is_file_node (node_at f q) \<longrightarrow> is_file_node (node_at g q)) \<and>
          (\<forall>t. node_at g q = Some (Symlink t) \<longrightarrow> node_at f q = Some (Symlink t)))"

lemma extends_refl [simp]: "extends f f"
  by (simp add: extends_def)

lemma extends_trans: "extends f g \<Longrightarrow> extends g h \<Longrightarrow> extends f h"
  by (simp add: extends_def)

lemma is_file_node_simps [simp]:
  "is_file_node (Some (File c))" "\<not> is_file_node None" "\<not> is_file_node (Some (Dir m))"
  "\<not> is_file_node (Some (Symlink t))"
  by (simp_all add: is_file_node_def)

lemma extends_write: "extends f (snd (write_node p c f))"
  by (auto simp: extends_def write_node_def node_at_set_node split: option.splits node.splits)

lemma extends_make_dir: "extends f (snd (make_dir p f))"
proof (cases "stat f p")
  case None
  then have "\<not> is_dir_node (node_at f p)" "\<not> is_file_node (node_at f p)"
    using stat_None [of f p] by (auto simp: stat_def is_file_node_def numeral_eq_Suc split: option.splits node.splits)
  then show ?thesis
    by (auto simp: extends_def make_dir_def None node_at_set_node split: option.splits)
qed (auto simp: make_dir_def split: node.splits)

lemma extends_make_dirs: "extends f (snd (make_dirs ps f))"
proof (induction ps arbitrary: f)
  case (Cons p ps)
  obtain r g where g: "make_dir p f = (r, g)" by fastforce
  with extends_make_dir [of f p] have "extends f g" by simp
  with Cons.IH [of g] g show ?case by (auto split: sum.splits intro: extends_trans)
qed simp

lemma keeps_extends:
  "keeps (\<lambda>w. extends f (fs w)) (create_dir_all p)" "keeps (\<lambda>w. extends f (fs w)) (write_file p c)"
  unfolding create_dir_all_def write_file_def
  by (rule keeps_prim; blast intro: extends_trans extends_make_dirs extends_write)+

lemma keeps_extends_point: "keeps (\<lambda>w. extends f (fs w)) (materialise_point stub p)"
  unfolding materialise_point_def by (intro keeps_intros keeps_extends)

lemma make_dirs_last:
  assumes "make_dirs (ps @ [p]) f = (Inr (), g)" "\<And>t. node_at f p \<noteq> Some (Symlink t)"
  shows "is_dir_node (node_at g p)"
  using assms
proof (induction ps arbitrary: f)
  case Nil
  then have n: "stat f p = node_at f p"
    by (auto simp: stat_def numeral_eq_Suc split: option.splits node.splits)
  from Nil have "make_dir p f = (Inr (), g)" by (auto split: prod.splits sum.splits)
  then show ?case
    using n by (auto simp: make_dir_def node_at_set_node split: option.splits node.splits)
next
  case (Cons q ps)
  from Cons.prems obtain h where h: "make_dir q f = (Inr (), h)" "make_dirs (ps @ [p]) h = (Inr (), g)"
    by (auto split: prod.splits sum.splits)
  with extends_make_dir [of f q] Cons.prems(2) have "\<And>t. node_at h p \<noteq> Some (Symlink t)"
    by (auto simp: extends_def)
  with Cons.IH [OF h(2)] show ?case by blast
qed

lemma ancestors_butlast: "p \<noteq> [] \<Longrightarrow> ancestors p = ancestors (butlast p) @ [p]"
proof -
  assume "p \<noteq> []"
  then obtain q c where p: "p = q @ [c]" by (cases p rule: rev_cases) auto
  have "map (\<lambda>n. take n (q @ [c])) [1..<Suc (length q)] = map (\<lambda>n. take n q) [1..<Suc (length q)]"
    by (rule map_cong) auto
  then show ?thesis by (simp add: ancestors_def p)
qed

lemma create_dir_all_makes:
  assumes "create_dir_all p w = (Inr (), t)" "p \<noteq> []" "\<And>s. node_at (fs w) p \<noteq> Some (Symlink s)"
  shows "is_dir_node (node_at (fs t) p)"
proof -
  from assms(1) have "make_dirs (ancestors p) (fs w) = (Inr (), fs t)"
    unfolding create_dir_all_def by (auto dest: prim_Inr)
  then show ?thesis using make_dirs_last assms(3) unfolding ancestors_butlast [OF assms(2)] by blast
qed

lemma write_file_makes:
  assumes "write_file p c w = (Inr (), t)"
  shows "node_at (fs t) p = Some (File c)"
proof -
  from assms have "write_node p c (fs w) = (Inr (), fs t)" unfolding write_file_def by (auto dest: prim_Inr)
  then show ?thesis
    by (auto simp: write_node_def node_at_set_node split: option.splits node.splits dest!: sym [of _ "fs t"])
qed

definition point_made :: "path \<Rightarrow> mount_point \<Rightarrow> fs \<Rightarrow> bool" where
  "point_made stub p f \<longleftrightarrow>
     (let n = node_at f (stub_target stub p) in if point_is_file p then is_file_node n else is_dir_node n)"

definition link_free :: "path \<Rightarrow> fs \<Rightarrow> bool" where
  "link_free p f \<longleftrightarrow> (\<forall>q t. under p q \<longrightarrow> node_at f q \<noteq> Some (Symlink t))"

lemma materialise_point_makes:
  assumes "materialise_point stub p w = (Inr (), t)" "link_free stub (fs w)" "under stub (stub_target stub p)" "stub \<noteq> []"
  shows "point_made stub p (fs t)"
proof (cases "point_is_file p")
  case True
  with assms(1) obtain w' where "write_file (stub_target stub p) (point_contents p) w' = (Inr (), t)"
    by (auto simp: materialise_point_def Let_def bindM_Inr)
  with True write_file_makes show ?thesis by (simp add: point_made_def)
next
  case False
  with assms(1) have "create_dir_all (stub_target stub p) w = (Inr (), t)"
    by (simp add: materialise_point_def Let_def)
  moreover have "stub_target stub p \<noteq> []" using assms(3,4) by (auto simp: under_iff)
  ultimately show ?thesis
    using False create_dir_all_makes assms(2,3) by (auto simp: point_made_def link_free_def)
qed

lemma point_made_extends: "point_made stub p f \<Longrightarrow> extends f g \<Longrightarrow> point_made stub p g"
  by (auto simp: point_made_def extends_def Let_def split: if_splits)

lemma link_free_extends: "link_free p f \<Longrightarrow> extends f g \<Longrightarrow> link_free p g"
  by (auto simp: link_free_def extends_def)

lemma stub_target_under:
  "RootDir \<notin> set (tl (point_path p)) \<Longrightarrow> stub \<noteq> [] \<Longrightarrow> under stub (stub_target stub p)"
  by (cases "point_path p"; cases "tl (point_path p)") (auto simp: stub_target_def strip_root_def is_absolute_def join_def split: if_splits)

lemma materialise_stub_makes:
  assumes "materialise_stub stub ps w = (Inr (), t)" "link_free stub (fs w)" "stub \<noteq> []"
    and "\<forall>p \<in> set ps. under stub (stub_target stub p)"
  shows "\<forall>p \<in> set ps. point_made stub p (fs t)"
  using assms unfolding materialise_stub_def
proof (induction ps arbitrary: w)
  case (Cons p ps)
  from Cons.prems(1) obtain v where v: "materialise_point stub p w = (Inr (), v)"
    "forM ps (materialise_point stub) v = (Inr (), t)" by (auto simp: bindM_Inr)
  have e: "extends (fs w) (fs v)"
    using keepsD [OF keeps_extends_point [of "fs w" stub p] _ v(1)] by simp
  have "keeps (\<lambda>x. extends (fs v) (fs x)) (forM ps (materialise_point stub))"
    by (intro keeps_intros keeps_extends_point)
  from keepsD [OF this _ v(2)] have e': "extends (fs v) (fs t)" by simp
  have "point_made stub p (fs v)"
    using materialise_point_makes [OF v(1)] Cons.prems by simp
  then have "point_made stub p (fs t)" using e' by (rule point_made_extends)
  moreover have "\<forall>q \<in> set ps. point_made stub q (fs t)"
    using Cons.IH [OF v(2)] link_free_extends [OF Cons.prems(2) e] Cons.prems by simp
  ultimately show ?case by simp
qed simp


lemma paths_of_points:
  "RootDir \<notin> set (tl (path_of s))" "RootDir \<notin> set (tl [RootDir])"
  by (simp_all add: path_of_tl)

text \<open>
  When the stub layer was made without an error, in a place that held no links, it holds every
  mount point as its kind, a file or a directory, also when mount points lie in one another.
\<close>

theorem stub_has_points:
  assumes "materialise_stub stub ps w = (Inr (), t)" "link_free stub (fs w)" "stub \<noteq> []"
    and "\<forall>p \<in> set ps. RootDir \<notin> set (tl (point_path p))" "p \<in> set ps"
  shows "if point_is_file p then is_file_node (node_at (fs t) (stub_target stub p))
         else is_dir_node (node_at (fs t) (stub_target stub p))"
proof -
  have "\<forall>p \<in> set ps. under stub (stub_target stub p)"
    using assms(3,4) stub_target_under by blast
  from materialise_stub_makes [OF assms(1,2,3) this] assms(5) show ?thesis
    by (auto simp: point_made_def Let_def)
qed

definition demo_stub_fs :: fs where
  "demo_stub_fs = [([RootDir], Dir 0x1ED), ([RootDir, Normal ''s''], Dir 0x1ED)]"

lemma stat_no_link: "(\<And>t. node_at f p \<noteq> Some (Symlink t)) \<Longrightarrow> stat f p = node_at f p"
  by (auto simp: stat_def numeral_eq_Suc split: option.splits node.splits)

lemma demo_stub_nodes:
  "stat demo_stub_fs [RootDir] = Some (Dir 0x1ED)" "stat demo_stub_fs [RootDir, Normal ''s''] = Some (Dir 0x1ED)"
  "node_at demo_stub_fs [RootDir, Normal ''s''] = Some (Dir 0x1ED)"
  "node_at demo_stub_fs [RootDir, Normal ''s'', Normal ''a''] = None"
  by (subst stat_no_link | simp add: demo_stub_fs_def node_at_def)+

lemma demo_dirs:
  "create_dir_all [RootDir, Normal ''s''] (demo_world demo_stub_fs) =
     (Inr (), (demo_world demo_stub_fs)\<lparr>tick := 1\<rparr>)"
  by (simp add: create_dir_all_def prim_def demo_world_def ancestors_def upt_rec make_dir_def demo_stub_nodes Let_def)

lemma demo_stub:
  "\<exists>t. materialise_stub [RootDir, Normal ''s''] [point_file [RootDir, Normal ''a'']] (demo_world demo_stub_fs) = (Inr (), t)"
proof -
  have "stub_target [RootDir, Normal ''s''] (point_file [RootDir, Normal ''a'']) = [RootDir, Normal ''s'', Normal ''a'']"
    by (simp add: stub_target_def strip_root_def is_absolute_def join_def)
  moreover have "parent [RootDir, Normal ''s'', Normal ''a''] = Some [RootDir, Normal ''s'']"
    by (simp add: parent_def)
  moreover have "\<exists>t. write_file [RootDir, Normal ''s'', Normal ''a''] [] ((demo_world demo_stub_fs)\<lparr>tick := 1\<rparr>) = (Inr (), t)"
    by (simp add: write_file_def prim_def demo_world_def write_node_def demo_stub_nodes parent_error_def writable_def Let_def)
  ultimately show ?thesis
    by (auto simp: materialise_stub_def materialise_point_def point_file_def demo_dirs bindM_def contextM_def script_simps Let_def)
qed

theorem stub_has_points_witness:
  "\<exists>t. materialise_stub [RootDir, Normal ''s''] [point_file [RootDir, Normal ''a'']] (demo_world demo_stub_fs) = (Inr (), t) \<and>
     is_file_node (node_at (fs t) [RootDir, Normal ''s'', Normal ''a''])"
proof -
  obtain t where t: "materialise_stub [RootDir, Normal ''s''] [point_file [RootDir, Normal ''a'']]
      (demo_world demo_stub_fs) = (Inr (), t)" using demo_stub by blast
  have "link_free [RootDir, Normal ''s''] (fs (demo_world demo_stub_fs))"
    by (auto simp: link_free_def demo_world_def demo_stub_fs_def node_at_def split: if_splits)
  from stub_has_points [OF t this, of "point_file [RootDir, Normal ''a'']"] t show ?thesis
    by (auto simp: point_file_def stub_target_def strip_root_def is_absolute_def join_def)
qed

text \<open>Where a path really leads once its \<open>..\<close> components are followed, links aside.\<close>

fun resolved :: "path \<Rightarrow> path \<Rightarrow> path" where
  "resolved acc [] = acc"
| "resolved acc (RootDir # p) = resolved [RootDir] p"
| "resolved acc (CurDir # p) = resolved acc p"
| "resolved acc (ParentDir # p) = resolved (if length acc \<le> 1 then acc else butlast acc) p"
| "resolved acc (Normal s # p) = resolved (acc @ [Normal s]) p"


section \<open>The stack of layers\<close>

lemma list_all2_right: "list_all2 P xs ys \<Longrightarrow> (\<And>x y. P x y \<Longrightarrow> Q y) \<Longrightarrow> \<forall>y \<in> set ys. Q y"
  by (induction rule: list_all2_induct) auto

lemma lowerdir_arg_Inr: "lowerdir_arg p = Inr s \<longleftrightarrow> s = path_str p \<and> CHR '':'' \<notin> set s"
  by (auto simp: lowerdir_arg_def Let_def)

lemma lower_layer_Inr:
  "lower_layer h d w = (Inr s, t) \<Longrightarrow>
   \<exists>p. layer_path h d = Inr p \<and> s = path_str p \<and> CHR '':'' \<notin> set s"
  unfolding lower_layer_def bindM_liftM
  by (auto simp: bindM_Inr script_simps lowerdir_arg_Inr split: sum.splits if_splits)

lemma mount_options_Inr:
  assumes "mount_options h stub ls None w = (Inr opts, t)"
  obtains lowers where "opts = ''lowerdir='' @ join_on '':'' (path_str stub # lowers)"
    "CHR '':'' \<notin> set (path_str stub)"
    "list_all2 (\<lambda>d s. \<exists>p. layer_path h d = Inr p \<and> s = path_str p \<and> CHR '':'' \<notin> set s) (rev ls) lowers"
proof -
  from assms obtain top lowers w' where "lowerdir_arg stub = Inr top"
    and m: "mapM (lower_layer h) (rev ls) w' = (Inr lowers, t)"
    and o: "opts = ''lowerdir='' @ join_on '':'' (top # lowers)"
    unfolding mount_options_def Let_def bindM_liftM
    by (auto simp: bindM_Inr script_simps split: sum.splits)
  then show ?thesis
    using that mapM_Inr [OF m lower_layer_Inr] by (auto simp: lowerdir_arg_Inr)
qed

text \<open>
  The option of a run's mount, taken apart at its colons, is the stub layer and then the
  image's layers from the topmost down, each the directory its digest is filed under.
\<close>

theorem lowerdirs_read_back:
  assumes "mount_options h stub ls None w = (Inr opts, t)"
  shows "\<exists>rest. opts = ''lowerdir='' @ rest \<and>
    list_all2 (\<lambda>d s. \<exists>p. layer_path h d = Inr p \<and> s = path_str p) (rev ls) (tl (split_on (CHR '':'') rest)) \<and>
    hd (split_on (CHR '':'') rest) = path_str stub"
  using assms
proof (cases rule: mount_options_Inr)
  case (1 lowers)
  have "\<forall>s \<in> set lowers. CHR '':'' \<notin> set s"
    using 1(3) by (rule list_all2_right) auto
  with 1(2) have "split_on (CHR '':'') (join_on '':'' (path_str stub # lowers)) = path_str stub # lowers"
    by (intro split_join_on) auto
  with 1 show ?thesis
    by (intro exI [of _ "join_on '':'' (path_str stub # lowers)"]) (auto elim: list_all2_mono)
qed


definition layer_at :: path where
  "layer_at = [RootDir, Normal ''d'', Normal ''climate'', Normal ''images'', Normal ''layers'', Normal ''a'', Normal ''b'']"

lemma demo_layer_path: "layer_path demo_host ''a:b'' = Inr layer_at"
  by (simp add: layer_path_def digest_path_def demo_store layer_at_def is_clean_def join_plain path_of_plain plain_name_def join_def is_absolute_def
      is_ascii_alphanumeric_def is_ascii_alphabetic_def is_ascii_lowercase_def)

lemma demo_options:
  "mount_options demo_host [RootDir, Normal ''s''] [''a:b''] None (demo_world [(layer_at, Dir 0x1ED)]) =
     (Inr ''lowerdir=/s:/d/climate/images/layers/a/b'', (demo_world [(layer_at, Dir 0x1ED)])\<lparr>tick := 1\<rparr>)"
proof -
  have "stat [(layer_at, Dir 0x1ED)] layer_at = Some (Dir 0x1ED)"
    by (subst stat_no_link) (simp_all add: node_at_def)
  then have "is_dir layer_at (demo_world [(layer_at, Dir 0x1ED)]) =
      (Inr True, (demo_world [(layer_at, Dir 0x1ED)])\<lparr>tick := 1\<rparr>)"
    by (simp add: is_dir_def asking_no_faults no_faults_def demo_world_def)
  moreover have "lowerdir_arg layer_at = Inr ''/d/climate/images/layers/a/b''"
    "lowerdir_arg [RootDir, Normal ''s''] = Inr ''/s''"
    by (simp_all add: lowerdir_arg_def path_str_def layer_at_def)
  ultimately show ?thesis
    by (simp add: mount_options_def lower_layer_def demo_layer_path bindM_def script_simps Let_def)
qed

theorem lowerdirs_read_back_witness:
  "split_on (CHR '':'') ''/s:/d/climate/images/layers/a/b'' = [''/s'', path_str layer_at]"
proof -
  from lowerdirs_read_back [OF demo_options] obtain rest where r:
    "''lowerdir=/s:/d/climate/images/layers/a/b'' = ''lowerdir='' @ rest"
    "list_all2 (\<lambda>d s. \<exists>p. layer_path demo_host d = Inr p \<and> s = path_str p) (rev [''a:b'']) (tl (split_on (CHR '':'') rest))"
    "hd (split_on (CHR '':'') rest) = path_str [RootDir, Normal ''s'']" by blast
  then have "rest = ''/s:/d/climate/images/layers/a/b''" by simp
  with r(2) show ?thesis by (simp add: demo_layer_path path_str_def layer_at_def)
qed

end
