(* ===== verification/App_Run.thy ===== *)
theory App_Run
  imports Apps Overlay Session
begin

text \<open>
  Running an app, \<open>AppConfig::run\<close> of \<open>src/config.rs\<close>, and building an image with an install
  script, \<open>src/build.rs\<close>: both put an image's layers together as an overlay, make a spec and a filter
  for it, and run a container. What surrounds the process is one record; what happens while the
  container runs is its field \<open>session\<close>: the answers to the calls of the run and the files it leaves.
\<close>

record machine =
  libs_of :: libs
  seacomb_of :: seacomb
  target_of :: target
  rootless :: "nat \<Rightarrow> nat \<Rightarrow> oci_spec"
  uid :: nat
  gid :: nat
  stdin_terminal :: bool
  stdout_terminal :: bool
  stderr_terminal :: bool
  fuse_overlayfs :: "string \<Rightarrow> path \<Rightarrow> bool io"
  system_of :: system
  executable :: path
  session :: "oci_spec \<Rightarrow> policy \<Rightarrow> world \<Rightarrow> answers \<times> wait_event list \<times> world"
  layer_media_type :: string

text \<open>\<open>runtime::run\<close> between the files around it: its calls are those of \<open>run_container\<close>.\<close>

definition runtime_run :: "machine \<Rightarrow> host \<Rightarrow> oci_spec \<Rightarrow> policy \<Rightarrow> bool \<Rightarrow> network \<Rightarrow> int io" where
  "runtime_run M h s p tty nw =
     bindM (unique_id h) (\<lambda>i w.
       case session M s p w of (sys, evs, w') \<Rightarrow>
         (fst (run_container sys evs (target_of M) (executable M) (runtime_dir h) (''climate-'' @ i) s tty nw []), w'))"

text \<open>A mount that is dropped at the end, whatever the result.\<close>

definition with_mount :: "machine \<Rightarrow> overlay \<Rightarrow> 'a io \<Rightarrow> 'a io" where
  "with_mount M m body w = (case body w of (r, w') \<Rightarrow> (r, snd (mount_drop (system_of M) m w')))"

definition in_container ::
  "machine \<Rightarrow> host \<Rightarrow> app_config \<Rightarrow> image_exec_config option \<Rightarrow> string list \<Rightarrow> (path \<times> path) option \<Rightarrow>
   string list \<Rightarrow> bool \<Rightarrow> network \<Rightarrow> int io" where
  "in_container M h cfg img ls upper_work user_args tty nw =
     bindM (mountpoints (target_of M) h cfg) (\<lambda>points.
     bindM (mount_new (fuse_overlayfs M) h ls points upper_work) (\<lambda>m.
     with_mount M m (
       bindM (build_spec (rootless M) (target_of M) h cfg img (overlay_merged m) user_args (uid M) (gid M) tty) (\<lambda>s.
       bindM (liftM (profile (seacomb_of M) (arch_of (target_of M)) (run cfg))) (\<lambda>p.
       runtime_run M h s p tty nw)))))"

text \<open>The result is the code the process exits with.\<close>

definition run_definition ::
  "machine \<Rightarrow> host \<Rightarrow> (app_config \<Rightarrow> bool \<Rightarrow> bool \<Rightarrow> unit io) \<Rightarrow> app_config \<Rightarrow> string list \<Rightarrow> int io" (* AppConfig::run *) where
  "run_definition M h ensure cfg user_args =
     bindM (check_host_dir h (run cfg)) (\<lambda>_.
     bindM (resolve_image (libs_of M) h ensure cfg) (\<lambda>img.
     let tty = stdin_terminal M \<and> stdout_terminal M \<and> stderr_terminal M in
     in_container M h cfg (img_config img) (img_layers img) None user_args tty (network (run cfg))))"

section \<open>Building an image\<close>

definition BUILD_ALGO :: string where "BUILD_ALGO = ''build''"

definition BUILD_CAPABILITIES :: "capability list" where
  "BUILD_CAPABILITIES = [Chown, DacOverride, Fowner, Fsetid]"

definition build_config :: "app_config \<Rightarrow> string \<Rightarrow> app_config" where
  "build_config cfg script =
     \<lparr>app = app cfg, image_cfg = image_cfg cfg,
      run = run_default\<lparr>
        entrypoint := Some (Entry_List [''/bin/sh'', ''-ec'', ''exec 1>&2'' @ newline # script]),
        mount_cwd := False, network := Net_Full, capabilities := BUILD_CAPABILITIES\<rparr>,
      limits = limits_default\<rparr>"

definition run_script ::
  "machine \<Rightarrow> host \<Rightarrow> app_config \<Rightarrow> string \<Rightarrow> string \<Rightarrow> manifest \<Rightarrow> path \<Rightarrow> path \<Rightarrow> unit io" where
  "run_script M h cfg script base_key base upper work_dir =
     bindM (image_config (libs_of M) h base_key base) (\<lambda>img.
     bindM (in_container M h (build_config cfg script) img (map digest (man_layers base))
              (Some (upper, work_dir)) [] False Net_Full) (\<lambda>code.
     if code \<noteq> 0
     then failM (Bail (name (app cfg) @ '': install script failed with exit code '' @ int_str code))
     else returnM ()))"

definition build_image :: "machine \<Rightarrow> host \<Rightarrow> app_config \<Rightarrow> string \<Rightarrow> string \<Rightarrow> manifest \<Rightarrow> string \<Rightarrow> path \<Rightarrow> unit io" where
  "build_image M h cfg script base_key base ident layer =
     (case parent layer of
        None \<Rightarrow> panic ''layer path has a parent''
      | Some dir \<Rightarrow>
          let upper = join_str dir (''.extract-'' @ ident); work_dir = join_str dir (''.extract-'' @ ident @ ''-work'');
              built_digest = BUILD_ALGO @ '':'' @ ident in
          bindM (forM [upper, work_dir] (\<lambda>d. contextM (''creating '' @ path_str d) (create_dir_all d))) (\<lambda>_.
          bindM (eprint (''building '' @ name (app cfg) @ '' on '' @ reference (image_cfg cfg))) (\<lambda>_.
          bindM (tryM (run_script M h cfg script base_key base upper work_dir)) (\<lambda>result.
          bindM (ignoreM (remove_tree work_dir)) (\<lambda>_.
          case result of
            Inl err \<Rightarrow> bindM (ignoreM (remove_tree upper)) (\<lambda>_. failM err)
          | Inr _ \<Rightarrow>
              bindM (contextM (''finalising layer '' @ built_digest) (rename upper layer)) (\<lambda>_.
              bindM (contextM ''serialising the built manifest'' (liftM (manifest_text (libs_of M)
                (base\<lparr>man_layers := man_layers base @
                   [\<lparr>media_type = layer_media_type M, digest = built_digest, blob_size = 0\<rparr>]\<rparr>)))) (\<lambda>bytes.
              bindM (write_blob h built_digest bytes) (\<lambda>_.
              bindM (liftM (image_key (libs_of M) cfg)) (\<lambda>key.
              bindM (record_ref h key built_digest) (\<lambda>_.
              eprint (''built '' @ key @ '' ('' @ built_digest @ '')'')))))))))))"

definition build :: "machine \<Rightarrow> host \<Rightarrow> app_config \<Rightarrow> string \<Rightarrow> unit io" where
  "build M h cfg script =
     bindM (liftM (option_context (''invalid image reference '' @ quoted (reference (image_cfg cfg)))
              (parse_reference (libs_of M) (reference (image_cfg cfg))))) (\<lambda>base_key.
     bindM (read_manifest (libs_of M) h base_key) (\<lambda>r.
     case r of
       None \<Rightarrow> failM (Bail (name (app cfg) @ '': base image '' @ quoted (reference (image_cfg cfg))
                 @ '' is not in the store; pull it first''))
     | Some base \<Rightarrow>
         bindM (unique_id h) (\<lambda>i.
         let ident = filter (\<lambda>c. c \<noteq> CHR ''-'') i in
         bindM (liftM (layer_path h (BUILD_ALGO @ '':'' @ ident)))
           (build_image M h cfg script base_key base ident))))"

section \<open>Pulling\<close>

definition ensure ::
  "machine \<Rightarrow> host \<Rightarrow> registry \<Rightarrow> unit res \<Rightarrow> app_config \<Rightarrow> bool \<Rightarrow> bool \<Rightarrow> unit io" where
  "ensure M h R started cfg update rebuild =
     (case install (image_cfg cfg) of
        None \<Rightarrow>
          if pull (image_cfg cfg) then fetch (libs_of M) h R started (reference (image_cfg cfg)) update
          else returnM ()
      | Some script \<Rightarrow>
          bindM (if rebuild then returnM False
                 else bindM (liftM (image_key (libs_of M) cfg)) (has_ref h)) (\<lambda>there.
          if there then returnM ()
          else bindM (whenM (pull (image_cfg cfg))
                        (fetch (libs_of M) h R started (reference (image_cfg cfg)) update)) (\<lambda>_.
               build M h cfg script)))"

text \<open>
  One app of \<open>pull --update\<close>; the state of the loop is the images fetched so far and the apps that
  failed.
\<close>

definition image_of :: "libs \<Rightarrow> app_config \<Rightarrow> string" where
  "image_of L cfg =
     (case parse_reference L (reference (image_cfg cfg)) of None \<Rightarrow> reference (image_cfg cfg) | Some r \<Rightarrow> r)"

definition update_app ::
  "machine \<Rightarrow> host \<Rightarrow> registry \<Rightarrow> unit res \<Rightarrow> bool \<Rightarrow> string \<Rightarrow> string list \<times> string list \<Rightarrow>
   (string list \<times> string list) io" where
  "update_app M h R started rebuild n acc =
     bindM (load_or_warn (libs_of M) (seacomb_of M) h n) (\<lambda>r.
     case r of
       None \<Rightarrow> returnM acc
     | Some cfg \<Rightarrow>
         (case image_key (libs_of M) cfg of
            Inl _ \<Rightarrow> returnM acc
          | Inr key \<Rightarrow>
              bindM (has_ref h key) (\<lambda>there.
              if \<not> there then returnM acc
              else
                let image = image_of (libs_of M) cfg; (updated, failed) = acc in
                bindM (tryM (ensure M h R started cfg (image \<notin> set updated) rebuild)) (\<lambda>res.
                case res of
                  Inr _ \<Rightarrow>
                    returnM (if pull (image_cfg cfg) \<and> (install (image_cfg cfg) = None \<or> rebuild)
                             then image # updated else updated, failed)
                | Inl err \<Rightarrow>
                    bindM (eprint (n @ '': '' @ error_str err)) (\<lambda>_. returnM (updated, failed @ [n]))))))"

fun update_apps_all ::
  "machine \<Rightarrow> host \<Rightarrow> registry \<Rightarrow> unit res \<Rightarrow> bool \<Rightarrow> string list \<Rightarrow> string list \<times> string list \<Rightarrow>
   (string list \<times> string list) io" where
  "update_apps_all M h R started rebuild [] acc = returnM acc"
| "update_apps_all M h R started rebuild (n # ns) acc =
     bindM (update_app M h R started rebuild n acc) (update_apps_all M h R started rebuild ns)"

definition pull_named :: "machine \<Rightarrow> host \<Rightarrow> registry \<Rightarrow> unit res \<Rightarrow> string option \<Rightarrow> unit io" where
  "pull_named M h R started app_arg =
     bindM (liftM (option_context ''pull: specify an app name or -u/--update'' app_arg)) (\<lambda>n.
     bindM (load (libs_of M) (seacomb_of M) h n) (\<lambda>cfg.
     if \<not> pull (image_cfg cfg) \<and> install (image_cfg cfg) = None
     then failM (Bail (n @ '': image is built locally or provided out of band (pull = false)''))
     else ensure M h R started cfg True True))"

definition pull_command ::
  "machine \<Rightarrow> host \<Rightarrow> registry \<Rightarrow> unit res \<Rightarrow> bool \<Rightarrow> bool \<Rightarrow> string option \<Rightarrow> unit io" (* pull::pull *) where
  "pull_command M h R started update rebuild app_arg =
     (if rebuild \<and> \<not> update then failM (Bail ''pull: -r/--rebuild only goes with -u/--update'')
      else
        bindM (if update
               then bindM (app_names h) (\<lambda>ns.
                    bindM (update_apps_all M h R started rebuild ns ([], [])) (\<lambda>(updated, failed). returnM failed))
               else bindM (pull_named M h R started app_arg) (\<lambda>_. returnM [])) (\<lambda>failed.
        bindM (gc_images (libs_of M) h) (\<lambda>_.
        if failed \<noteq> [] then failM (Bail (''failed to update: '' @ join_on '', '' failed))
        else returnM ())))"

end
