(* ===== verification/Build.thy ===== *)
theory Build
  imports App_Run
begin

text \<open>
  What building an image does to the images recorded before: nothing, until the new image is
  complete and its record is written last.
\<close>

section \<open>Records stay\<close>

definition record_place :: "path \<Rightarrow> path \<Rightarrow> bool" where
  "record_place s q \<longleftrightarrow> (\<exists>n. q = ref_path s n)"

abbreviation same_records :: "path \<Rightarrow> fs \<Rightarrow> world \<Rightarrow> bool" where
  "same_records s f0 \<equiv> \<lambda>w. same_on (record_place s) f0 (fs w)"

text \<open>The runs' directories and the store's records lie apart.\<close>

definition apart :: "host \<Rightarrow> path \<Rightarrow> bool" where
  "apart h s \<longleftrightarrow> \<not> under (runtime_dir h) s \<and> \<not> under (s @ [Normal ''refs'']) (runtime_dir h)"

text \<open>What the programs around a run, and the run of a container, leave alone.\<close>

definition spares :: "machine \<Rightarrow> path \<Rightarrow> bool" where
  "spares M s \<longleftrightarrow>
     (\<forall>f0 opts m. keeps (same_records s f0) (fuse_overlayfs M opts m)) \<and>
     (\<forall>f0 m. keeps (same_records s f0) (fusermount (system_of M) m)) \<and>
     (\<forall>sp p w. same_on (record_place s) (fs w) (fs (snd (snd (session M sp p w)))))"

lemma under_cases: "under q (a @ b) \<Longrightarrow> under q a \<or> under a q"
  by (auto simp: under_iff append_eq_append_conv2)

lemma apart_places:
  assumes "apart h s" "under (runtime_dir h) p" "under q p \<or> under p q"
  shows "\<not> record_place s q"
proof
  assume "record_place s q"
  then obtain n where q: "q = (s @ [Normal ''refs'']) @ [Normal n]" by (auto simp: record_place_def ref_path_def)
  from assms(2) obtain y where "p = runtime_dir h @ y" by (auto simp: under_iff)
  with assms(3) have "under q (runtime_dir h) \<or> under (runtime_dir h) q"
    using under_cases [of q "runtime_dir h" y] by (auto simp: under_iff)
  then show False
  proof
    assume "under q (runtime_dir h)"
    with q assms(1) show False by (auto simp: apart_def under_iff)
  next
    assume rd: "under (runtime_dir h) q"
    then have "under (runtime_dir h) (s @ [Normal ''refs'']) \<or> runtime_dir h = q"
      unfolding q by (auto simp: under_iff append_eq_append_conv2 append_eq_Cons_conv Cons_eq_append_conv)
    then have "under (runtime_dir h) s \<or> runtime_dir h = s @ [Normal ''refs''] \<or> runtime_dir h = q"
      by (auto simp: under_iff append_eq_append_conv2 append_eq_Cons_conv Cons_eq_append_conv)
    with q assms(1) show False by (auto simp: apart_def under_iff)
  qed
qed

lemma not_record: "b \<noteq> ''refs'' \<Longrightarrow> under q (s @ Normal b # r) \<or> under (s @ Normal b # r) q \<Longrightarrow> \<not> record_place s q"
  by (auto simp: record_place_def ref_path_def under_iff append_eq_append_conv2 append_eq_Cons_conv Cons_eq_append_conv)

lemmas records_elsewhere = frozen.create_dir_all frozen.write_file frozen.remove_dir_all frozen.remove_tree
  frozen.rename

section \<open>The steps\<close>

lemma keeps_point:
  assumes "apart h s" "under (runtime_dir h) stub" "stub \<noteq> []" "RootDir \<notin> set (tl (point_path p))"
  shows "keeps (same_records s f0) (materialise_point stub p)"
proof -
  let ?t = "stub_target stub p"
  have t: "under stub ?t" by (rule stub_target_under) (use assms in auto)
  then have u: "under (runtime_dir h) ?t" using assms(2) under_trans by blast
  have a: "\<not> record_place s q" if "under q ?t" for q using apart_places [OF assms(1) u] that by blast
  have d: "under d ?t" if "parent ?t = Some d" for d
    using that by (auto simp: parent_def under_iff split: if_splits) (metis append_butlast_last_id)
  show ?thesis unfolding materialise_point_def Let_def
    by (intro keeps_intros records_elsewhere allI impI) (use a d under_trans under_refl in blast)+
qed

lemma keeps_stub:
  assumes "apart h s" "under (runtime_dir h) stub" "stub \<noteq> []" "\<forall>p \<in> set ps. RootDir \<notin> set (tl (point_path p))"
  shows "keeps (same_records s f0) (materialise_stub stub ps)"
  unfolding materialise_stub_def using assms by (intro keeps_intros keeps_point) auto

lemma keeps_existing [keeps_intros]: "keeps (\<lambda>w. I (fs w)) (existing ps)"
  by (induction ps) (auto intro!: keeps_intros)

lemma keeps_no_mounts: "mount r = [] \<Longrightarrow> keeps (\<lambda>w. I (fs w)) (extra_mounts h r)"
  by (simp add: extra_mounts_def keeps_return)

lemma keeps_mount_options [keeps_intros]: "keeps (\<lambda>w. I (fs w)) (mount_options h stub ls uw)"
  unfolding mount_options_def lower_layer_def Let_def by (intro keeps_intros)

text \<open>The install script's container shares no directory and asks for none.\<close>

lemma build_run [simp]:
  "mount (run (build_config cfg script)) = []" "mount_cwd (run (build_config cfg script)) = False"
  "network (run (build_config cfg script)) = Net_Full"
  "host_dir h (run (build_config cfg script)) = Inr None"
  by (simp_all add: build_config_def run_default_def host_dir_def)

lemma keeps_build_points: "keeps (\<lambda>w. I (fs w)) (mountpoints T h (build_config cfg script))"
  unfolding mountpoints_def host_net_files_def Let_def build_run
  by (intro keeps_intros keeps_no_mounts) simp_all

lemma build_points:
  assumes "mountpoints T h (build_config cfg script) w = (Inr ps, t)"
  shows "\<forall>p \<in> set ps. RootDir \<notin> set (tl (point_path p))"
proof -
  let ?r = "run (build_config cfg script)"
  from assms obtain net v where "host_net_files ?r w = (Inr net, v)"
    and ps: "ps = map (\<lambda>d. point_dir (path_of d)) (DEFAULT_MOUNT_DIRS @ map fst TMPFS_DIRS) @ map point_file net"
    by (auto simp: mountpoints_def Let_def extra_mounts_def bindM_Inr script_simps)
  then have "set net \<subseteq> set (map path_of HOST_NET_FILES)"
    using host_net_files_Inr [of ?r w net v] by simp
  then show ?thesis using path_of_tl by (auto simp: ps)
qed

lemma keeps_build_spec: "keeps (\<lambda>w. I (fs w)) (build_spec rl T h (build_config cfg script) img root as u g tty)"
  unfolding build_spec_def run_mounts_def host_net_files_def with_resources_def panic_def Let_def
  by (intro keeps_intros keeps_no_mounts) simp_all

lemma keeps_image_config [keeps_intros]: "keeps (\<lambda>w. I (fs w)) (image_config L h k m)"
  unfolding image_config_def read_blob_def by (intro keeps_intros)

lemma keeps_read_manifest [keeps_intros]: "keeps (\<lambda>w. I (fs w)) (read_manifest L h k)"
  unfolding read_manifest_def read_ref_def read_blob_def by (intro keeps_intros)

lemma keeps_runtime_run:
  "spares M s \<Longrightarrow> keeps (same_records s f0) (runtime_run M h sp p tty nw)"
  unfolding runtime_run_def
  by (intro keeps_bind keeps_unique_id)
    (auto simp: keeps_def spares_def split: prod.splits intro: same_on_trans, metis same_on_trans snd_conv)

lemma keeps_mount_drop:
  assumes "spares M s" "apart h s" "under (runtime_dir h) (overlay_dir m)"
  shows "keeps (same_records s f0) (mount_drop (system_of M) m)"
proof -
  have "\<forall>q. under (overlay_dir m) q \<longrightarrow> \<not> record_place s q"
    using apart_places [OF assms(2,3)] by blast
  moreover have "keeps (same_records s f0) (fusermount (system_of M) q)" for q
    using assms(1) by (simp add: spares_def)
  ultimately show ?thesis unfolding mount_drop_def
    by (intro keeps_intros records_elsewhere) auto
qed

lemma keeps_with_mount:
  assumes "keeps I body" "keeps I (mount_drop (system_of M) m)"
  shows "keeps I (with_mount M m body)"
proof (rule keepsI)
  fix w r t assume w: "I w" and t: "with_mount M m body w = (r, t)"
  obtain x u where u: "body w = (x, u)" by fastforce
  have "I u" by (rule keepsD [OF assms(1) w u])
  with t u assms(2) show "I t" by (auto simp: with_mount_def keeps_def)
qed

text \<open>The overlay lies below the runs' directory.\<close>

lemma unique_id_plain: "unique_id h w = (Inr i, t) \<Longrightarrow> plain_name i \<and> CHR ''/'' \<notin> set i"
  using plain_digits nat_str_head
  by (auto simp: unique_id_def plain_name_def append_eq_Cons_conv)

lemma run_dir_under:
  assumes "run_dir h w = (Inr d, t)"
  shows "under (runtime_dir h) d \<and> d \<noteq> []"
proof -
  from assms obtain i u where "unique_id h w = (Inr i, u)" "d = join_str (join_str (runtime_dir h) ''overlays'') i"
    by (auto simp: run_dir_def bindM_Inr script_simps)
  moreover have "plain_name ''overlays''" by (simp add: plain_name_def)
  ultimately show ?thesis using unique_id_plain by (simp add: join_plain)
qed

lemma mount_new_records:
  assumes "spares M s" "apart h s" "\<forall>p \<in> set ps. RootDir \<notin> set (tl (point_path p))"
  shows "triple (same_records s f0) (mount_new (fuse_overlayfs M) h ls ps uw)
    (\<lambda>m w. same_records s f0 w \<and> under (runtime_dir h) (overlay_dir m)) (same_records s f0)"
proof (cases "ls = []")
  case False
  let ?I = "same_records s f0"
  have rest: "triple (\<lambda>w. ?I w \<and> under (runtime_dir h) d \<and> d \<noteq> [])
      (let merged = join_str d ''merged''; stub = join_str d ''stub'' in
        bindM (contextM (''creating '' @ path_str merged) (create_dir_all merged)) (\<lambda>_.
        bindM (materialise_stub stub ps) (\<lambda>_.
        bindM (mount_options h stub ls uw) (\<lambda>options.
        bindM (contextM ''running fuse-overlayfs (is it installed?)'' (fuse_overlayfs M options merged)) (\<lambda>success.
        if success then returnM \<lparr>overlay_dir = d, overlay_merged = merged\<rparr>
        else bindM (ignoreM (remove_dir_all d)) (\<lambda>_.
             failM (Bail ''fuse-overlayfs failed to mount the image layers'')))))))
      (\<lambda>m w. ?I w \<and> under (runtime_dir h) (overlay_dir m)) ?I" (is "triple _ ?body _ _") for d
  proof (cases "under (runtime_dir h) d \<and> d \<noteq> []")
    case True
    then have u: "under (runtime_dir h) (d @ [Normal x])" for x by (auto simp: under_iff)
    have j: "join_str d ''merged'' = d @ [Normal ''merged'']" "join_str d ''stub'' = d @ [Normal ''stub'']"
      by (simp_all add: join_plain plain_name_def)
    have a: "\<forall>q. q \<noteq> [] \<and> under q (d @ [Normal x]) \<longrightarrow> \<not> record_place s q" for x
      using apart_places [OF assms(2) u] by blast
    have b: "\<forall>q. under d q \<longrightarrow> \<not> record_place s q" using apart_places [OF assms(2)] True by blast
    have c: "keeps ?I (fuse_overlayfs M opts m)" for opts m using assms(1) by (simp add: spares_def)
    have st: "keeps ?I (materialise_stub (d @ [Normal ''stub'']) ps)"
      by (rule keeps_stub [OF assms(2) u _ assms(3)]) simp
    have "keeps ?I ?body"
      unfolding j Let_def
      by (intro keeps_intros st c frozen.create_dir_all [OF a] frozen.remove_dir_all [OF b])
    moreover have "overlay_dir m = d" if "?body w = (Inr m, t)" for w m t
      using that by (auto simp: Let_def bindM_Inr script_simps split: if_splits)
    ultimately show ?thesis using True keepsD [of ?I ?body] by (intro tripleI) metis+
  qed (rule triple_false, simp)
  show ?thesis unfolding mount_new_def if_not_P [OF False]
  proof (rule triple_bind)
    show "triple ?I (run_dir h) (\<lambda>d w. ?I w \<and> under (runtime_dir h) d \<and> d \<noteq> []) ?I"
    proof (rule tripleI)
      fix w d t assume w: "?I w" and t: "run_dir h w = (Inr d, t)"
      have "keeps ?I (run_dir h)" unfolding run_dir_def by (intro keeps_intros)
      from keepsD [OF this w t] run_dir_under [OF t] show "?I t \<and> under (runtime_dir h) d \<and> d \<noteq> []" by simp
    next
      fix w e t assume "?I w" "run_dir h w = (Inl e, t)"
      then show "?I t" by (simp add: run_dir_def unique_id_def bindM_def script_simps)
    qed
  qed (rule rest)
qed (simp add: mount_new_def triple_fail)

lemma keeps_run_script:
  assumes "spares M s" "apart h s"
  shows "keeps (same_records s f0) (run_script M h cfg script bk base upper wd)"
proof -
  let ?I = "same_records s f0"
  have ctr: "keeps ?I (in_container M h (build_config cfg script) img ls uw [] False Net_Full)" for img ls uw
    unfolding in_container_def keeps_triple
  proof (rule triple_bind)
    show "triple ?I (mountpoints (target_of M) h (build_config cfg script))
        (\<lambda>ps w. ?I w \<and> (\<forall>p \<in> set ps. RootDir \<notin> set (tl (point_path p)))) ?I"
      using build_points keeps_build_points [where I = "same_on (record_place s) f0"]
      by (intro tripleI) (blast dest: keepsD)+
  next
    fix ps
    let ?rest = "\<lambda>m. with_mount M m (bindM (build_spec (rootless M) (target_of M) h (build_config cfg script)
       img (overlay_merged m) [] (uid M) (gid M) False) (\<lambda>s.
       bindM (liftM (profile (seacomb_of M) (arch_of (target_of M)) (run (build_config cfg script)))) (\<lambda>p.
       runtime_run M h s p False Net_Full)))"
    have m: "triple (\<lambda>w. ?I w \<and> under (runtime_dir h) (overlay_dir m)) (?rest m) (\<lambda>_. ?I) ?I" for m
    proof (cases "under (runtime_dir h) (overlay_dir m)")
      case True
      have "keeps ?I (?rest m)"
        by (intro keeps_with_mount keeps_mount_drop [OF assms True] keeps_intros keeps_build_spec
            keeps_runtime_run [OF assms(1)])
      then show ?thesis using True by (simp add: keeps_triple)
    qed (rule triple_false, simp)
    show "triple (\<lambda>w. ?I w \<and> (\<forall>p \<in> set ps. RootDir \<notin> set (tl (point_path p))))
      (bindM (mount_new (fuse_overlayfs M) h ls ps uw) ?rest) (\<lambda>_. ?I) ?I"
    proof (cases "\<forall>p \<in> set ps. RootDir \<notin> set (tl (point_path p))")
      case True
      then show ?thesis using triple_bind [OF mount_new_records [OF assms True] m] by simp
    qed (rule triple_false, simp)
  qed
  show ?thesis unfolding run_script_def by (intro keeps_intros ctr)
qed

section \<open>The record is written last\<close>

text \<open>From a state with \<open>I\<close>, the result and the state after it are in \<open>Q\<close>.\<close>

definition ends :: "('s \<Rightarrow> bool) \<Rightarrow> ('s, 'a) script \<Rightarrow> ('a res \<Rightarrow> 's \<Rightarrow> bool) \<Rightarrow> bool" where
  "ends I m Q \<longleftrightarrow> (\<forall>w. I w \<longrightarrow> Q (fst (m w)) (snd (m w)))"

lemma endsD: "ends I m Q \<Longrightarrow> I w \<Longrightarrow> m w = (r, t) \<Longrightarrow> Q r t"
  by (force simp: ends_def)

lemma ends_keeps: "keeps I m \<Longrightarrow> (\<And>r t. I t \<Longrightarrow> Q r t) \<Longrightarrow> ends I m Q"
  by (simp add: ends_def keeps_def)

lemma ends_bind:
  assumes "keeps I m" "\<And>x. ends I (f x) Q" "\<And>e t. I t \<Longrightarrow> Q (Inl e) t"
  shows "ends I (bindM m f) Q"
  unfolding ends_def
proof (intro allI impI)
  fix w assume w: "I w"
  obtain r u where u: "m w = (r, u)" by fastforce
  have "I u" by (rule keepsD [OF assms(1) w u])
  with assms(2,3) u show "Q (fst (bindM m f w)) (snd (bindM m f w))"
    by (cases r) (auto simp: bindM_def ends_def)
qed

definition record_named :: "path \<Rightarrow> string \<Rightarrow> path \<Rightarrow> bool" where
  "record_named s n q \<longleftrightarrow> q = ref_path s n"

definition other_record :: "path \<Rightarrow> string \<Rightarrow> path \<Rightarrow> bool" where
  "other_record s n q \<longleftrightarrow> record_place s q \<and> q \<noteq> ref_path s n"

text \<open>How a build may end.\<close>

definition recorded :: "path \<Rightarrow> fs \<Rightarrow> string \<Rightarrow> unit res \<Rightarrow> world \<Rightarrow> bool" where
  "recorded s f0 key r t \<longleftrightarrow>
     same_on (other_record s (marker_name key)) f0 (fs t) \<and>
     (case r of
        Inl e \<Rightarrow> same_records s f0 t \<or> (\<exists>e'. e = Context (''recording ref '' @ key) e')
      | Inr _ \<Rightarrow> \<exists>ident. node_at (fs t) (ref_path s (marker_name key)) = Some (File (BUILD_ALGO @ '':'' @ ident)))"

lemma same_records_other: "same_records s f0 t \<Longrightarrow> same_on (other_record s n) f0 (fs t)"
  by (simp add: same_on_def other_record_def)

lemma recorded_Inl: "same_records s f0 t \<Longrightarrow> recorded s f0 key (Inl e) t"
  by (simp add: recorded_def same_records_other)

lemma record_ref_ends:
  assumes s: "store_dir h = Inr s" and key: "proper_ref key"
  shows "ends (same_records s f0)
    (bindM (record_ref h key (BUILD_ALGO @ '':'' @ ident)) (\<lambda>_. eprint msg)) (recorded s f0 key)"
proof -
  let ?p = "ref_path s (marker_name key)"
  have m: "ref_marker h key = Inr ?p"
    using key by (simp add: ref_marker_def s join_plain plain_areas marker_plain proper_ref_def ref_path_def)
  have par: "parent ?p = Some (s @ [Normal ''refs''])" by (simp add: ref_path_def parent_def butlast_append)
  have "\<not> record_place s q" if "under q (s @ [Normal ''refs''])" for q
    using that by (auto simp: record_place_def ref_path_def under_iff append_eq_append_conv2 append_eq_Cons_conv)
  then have 1: "keeps (same_records s f0) (create_parent ?p)"
    unfolding create_parent_def par option.case by (intro keeps_intros frozen.create_dir_all) blast
  let ?last = "\<lambda>c. bindM (contextM (''recording ref '' @ key) (write_file ?p c)) (\<lambda>_. eprint msg)"
  have 2: "ends (same_records s f0) (?last c)
      (\<lambda>r t. same_on (other_record s (marker_name key)) f0 (fs t) \<and>
         (case r of Inl e \<Rightarrow> \<exists>e'. e = Context (''recording ref '' @ key) e'
          | Inr _ \<Rightarrow> node_at (fs t) ?p = Some (File c)))" for c
    unfolding ends_def
  proof (intro allI impI)
    fix w assume w: "same_records s f0 w"
    obtain r t where t: "write_file ?p c w = (r, t)" by fastforce
    have "\<not> other_record s (marker_name key) ?p" by (simp add: other_record_def)
    from keepsD [OF frozen.write_file [where P = "other_record s (marker_name key)", OF this] same_records_other [OF w] t]
    have "same_on (other_record s (marker_name key)) f0 (fs t)" .
    moreover have "r = Inr () \<Longrightarrow> node_at (fs t) ?p = Some (File c)"
      using write_file_Inr [of ?p c w "()" t] t by simp
    ultimately show "same_on (other_record s (marker_name key)) f0 (fs (snd (?last c w))) \<and>
      (case fst (?last c w) of Inl e \<Rightarrow> \<exists>e'. e = Context (''recording ref '' @ key) e'
       | Inr _ \<Rightarrow> node_at (fs (snd (?last c w))) ?p = Some (File c))"
      using t by (cases r) (auto simp: bindM_def contextM_def eprint_def)
  qed
  show ?thesis
    unfolding record_ref_def m liftM_simps bindM_simps bindM_assoc
  proof (rule ends_bind [OF 1])
    show "ends (same_records s f0) (?last (BUILD_ALGO @ '':'' @ ident)) (recorded s f0 key)"
      using 2 [of "BUILD_ALGO @ '':'' @ ident"] unfolding ends_def recorded_def
      by (auto split: sum.splits)
  qed (rule recorded_Inl)
qed

lemma ends_sum:
  "(\<And>e. ends I (f e) Q) \<Longrightarrow> (\<And>y. ends I (g y) Q) \<Longrightarrow> ends I (case x of Inl e \<Rightarrow> f e | Inr y \<Rightarrow> g y) Q"
  by (cases x) simp_all

lemma ends_option:
  "ends I m Q \<Longrightarrow> (\<And>y. ends I (g y) Q) \<Longrightarrow> ends I (case x of None \<Rightarrow> m | Some y \<Rightarrow> g y) Q"
  by (cases x) simp_all

lemma ends_fail: "ends (same_records s f0) (failM e) (recorded s f0 key)"
  by (simp add: ends_def script_simps recorded_Inl)

lemma keeps_write_blob:
  assumes "store_dir h = Inr s"
  shows "keeps (same_records s f0) (write_blob h d c)"
proof (cases "blob_path h d")
  case (Inr p)
  then obtain a x where p: "p = s @ Normal ''blobs'' # [Normal a, Normal x]"
    using assms by (auto simp: blob_path_Inr filed_def)
  have par: "parent p = Some (s @ Normal ''blobs'' # [Normal a])" by (simp add: p parent_def butlast_append)
  have n: "\<not> record_place s q" if "under q (s @ Normal ''blobs'' # r)" for q r
    using that by (intro not_record [of "''blobs''" q s r]) simp_all
  show ?thesis
    unfolding write_blob_def Inr liftM_simps bindM_simps create_parent_def par option.case
    by (intro keeps_intros frozen.create_dir_all frozen.write_file) (use n p under_refl in blast)+
qed (simp add: write_blob_def keeps_fail)

lemma build_image_ends:
  assumes "store_dir h = Inr s" "spares M s" "apart h s" "filed ''layers'' s (BUILD_ALGO @ '':'' @ ident) layer"
    and key: "image_key (libs_of M) cfg = Inr key" "proper_ref key"
  shows "ends (same_records s f0) (build_image M h cfg script bk base ident layer) (recorded s f0 key)"
proof -
  let ?I = "same_records s f0"
  from assms(4) obtain a x where layer: "layer = s @ Normal ''layers'' # [Normal a, Normal x]"
    and id: "BUILD_ALGO @ '':'' @ ident = a @ CHR '':'' # x" "is_clean x" by (auto simp: filed_def)
  define d where "d = s @ Normal ''layers'' # [Normal a]"
  have par: "parent layer = Some d" by (simp add: layer d_def parent_def butlast_append)
  have n: "\<not> record_place s q" if "under q (s @ Normal ''layers'' # r) \<or> under (s @ Normal ''layers'' # r) q" for q r
    using that by (intro not_record [of "''layers''" q s r]) simp_all
  have "is_clean ident" using assms(4) by (auto simp: filed_split BUILD_ALGO_def)
  then have "CHR ''/'' \<notin> set ident" using clean_plain [of ident] by (simp add: plain_name_def)
  then have j: "join_str d (''.extract-'' @ ident) = s @ Normal ''layers'' # [Normal a, Normal (''.extract-'' @ ident)]"
    "join_str d (''.extract-'' @ ident @ ''-work'') = s @ Normal ''layers'' # [Normal a, Normal (''.extract-'' @ ident @ ''-work'')]"
    by (simp_all add: join_plain plain_name_def d_def)
  show ?thesis
    unfolding build_image_def par option.case Let_def key liftM_simps bindM_simps j
    by (intro ends_bind ends_sum ends_fail record_ref_ends [OF assms(1) key(2)] recorded_Inl keeps_intros
        keeps_run_script [OF assms(2,3)] keeps_write_blob [OF assms(1)] frozen.remove_tree frozen.rename
        frozen.create_dir_all; (assumption | use n under_refl layer in \<open>auto split: if_splits\<close>)?)
qed

text \<open>C9: Building an app's image touches no recorded image: whatever call fails, whatever the install script
  does inside its container, the records of all other images are as before; when the build
  fails the app's own record is as before too, unless it is the writing of the record itself that
  failed; and when it succeeds the app's record names the image just built.\<close>

theorem build_records_last:
  assumes "store_dir h = Inr s" "apart h s" "spares M s"
    and "image_key (libs_of M) cfg = Inr key" "proper_ref key"
    and "build M h cfg script w = (r, t)"
  shows "recorded s (fs w) key r t"
proof -
  have step: "ends (same_records s (fs w)) (bindM (liftM (layer_path h (BUILD_ALGO @ '':'' @ ident)))
      (build_image M h cfg script bk base ident)) (recorded s (fs w) key)" for bk base ident
  proof (cases "layer_path h (BUILD_ALGO @ '':'' @ ident)")
    case (Inr layer)
    then have "filed ''layers'' s (BUILD_ALGO @ '':'' @ ident) layer" using assms(1) by (simp add: layer_path_Inr)
    then show ?thesis using build_image_ends [OF assms(1,3,2) _ assms(4,5)] Inr by simp
  qed (simp add: ends_fail)
  have "ends (same_records s (fs w)) (build M h cfg script) (recorded s (fs w) key)"
    unfolding build_def Let_def
    by (intro ends_bind ends_option ends_fail step recorded_Inl keeps_intros; assumption?)
  then have "recorded s (fs w) key (fst (build M h cfg script w)) (snd (build M h cfg script w))"
    by (simp add: ends_def)
  then show ?thesis by (simp add: assms(6))
qed

text \<open>A machine whose container can be prepared but whose runtime is not there.\<close>

definition demo_machine :: machine where
  "demo_machine = \<lparr>libs_of = demo_image_libs, seacomb_of = demo_seacomb, target_of = demo_target,
     rootless = demo_rootless, uid = 0, gid = 0, stdin_terminal = False, stdout_terminal = False,
     stderr_terminal = False, fuse_overlayfs = (\<lambda>_ _. returnM False),
     system_of = \<lparr>no_such_process = (\<lambda>_. False), load_container = (\<lambda>_. Inl (Ext [])), fusermount = (\<lambda>_. returnM True)\<rparr>,
     executable = [RootDir, Normal ''b''],
     session = (\<lambda>_ _ w. (demo_answers Cgroup2_There, [], w)), layer_media_type = ''tar''\<rparr>"

lemma demo_machine_spares: "spares demo_machine s"
  by (simp add: spares_def demo_machine_def keeps_return)

lemma demo_apart: "apart demo_host demo_images"
  by (simp add: apart_def runtime_dir_def demo_host_def demo_images_def join_plain plain_name_def under_def)

lemma build_records_last_witness:
  "recorded demo_images demo_store_fs ''localhost/climate/x''
     (fst (build demo_machine demo_host (demo_loaded\<lparr>image_cfg := \<lparr>reference = ''r'', pull = True, install = Some []\<rparr>\<rparr>)
        [] (demo_world demo_store_fs)))
     (snd (build demo_machine demo_host (demo_loaded\<lparr>image_cfg := \<lparr>reference = ''r'', pull = True, install = Some []\<rparr>\<rparr>)
        [] (demo_world demo_store_fs)))"
proof -
  let ?cfg = "demo_loaded\<lparr>image_cfg := \<lparr>reference = ''r'', pull = True, install = Some []\<rparr>\<rparr>"
  have "store_dir demo_host = Inr demo_images" by (simp add: demo_store demo_images_def)
  moreover have "image_key (libs_of demo_machine) ?cfg = Inr ''localhost/climate/x''"
    by (simp add: image_key_def demo_loaded_def)
  moreover have "proper_ref ''localhost/climate/x''" by (simp add: proper_ref_def)
  ultimately have "recorded demo_images (fs (demo_world demo_store_fs)) ''localhost/climate/x''
      (fst (build demo_machine demo_host ?cfg [] (demo_world demo_store_fs)))
      (snd (build demo_machine demo_host ?cfg [] (demo_world demo_store_fs)))"
    using build_records_last [OF _ demo_apart demo_machine_spares] by (metis prod.collapse)
  then show ?thesis by (simp add: demo_world_def)
qed

end
