(* ===== verification/Loopback.thy ===== *)
theory Loopback
  imports Localnet
begin

text \<open>
  Loopback forwarding: the rest of \<open>src/forward.rs\<close>. The hook and the helper that run inside
  the container, the sockets made on either side, the requests the run sends the helper,
  reading the listening ports from \<open>/proc/net\<close>, and the scan that mirrors them.
  What a socket call returns is up to the environment; a file descriptor is a number.
  A \<open>HashSet\<close> is a set, and the order a loop visits it in is the parameter \<open>visit\<close>.
\<close>

section \<open>Sockets\<close>

type_synonym port = "16 word"
type_synonym sock_addr = "ip_addr \<times> port"

datatype loop_call =
    Stream_Socket bool \<comment> \<open>for IPv6\<close>
  | Set_V6only nat | Set_Reuseaddr nat | Bind_Addr nat sock_addr | Listen nat int
  | Connect_Addr nat sock_addr | Close nat
  | Lo_Up | Connect_Unix string | Open_Namespace string | Join_Namespace nat string
  | Make_Tun | Send_Reply nat "8 word" "nat list" | Write_Request "8 word list"
  | Accept nat | Clone nat | Copy_Stream nat nat | Shutdown_Write nat

text \<open>
  The environment: what a call answers, and what is received in a reply, a number of bytes
  with the messages that came along.
\<close>

datatype ancillary = Scm_Rights "nat list" | Other_Message

type_synonym reply = "nat \<times> ancillary list"

record loop_env =
  kernel :: "loop_call trace \<Rightarrow> loop_call \<Rightarrow> nat res"
  replies :: "loop_call trace \<Rightarrow> reply res"

type_synonym 'a loop_steps = "(loop_call trace, 'a) script"

definition OP_LISTEN :: "8 word" where "OP_LISTEN = 76"
definition OP_CONNECT :: "8 word" where "OP_CONNECT = 67"
definition BACKLOG :: int where "BACKLOG = 128"
definition HELPER_FD :: nat where "HELPER_FD = 3"
definition USER_NS_FD :: nat where "USER_NS_FD = 4"
definition NET_NS_FD :: nat where "NET_NS_FD = 5"

definition loopback_addrs :: "port \<Rightarrow> sock_addr list" where
  "loopback_addrs p = [(V4 0x7F000001, p), (V6 1, p)]"

text \<open>A descriptor that is closed when a later step fails.\<close>

definition owning :: "loop_env \<Rightarrow> nat \<Rightarrow> nat loop_steps \<Rightarrow> nat loop_steps" where
  "owning E fd m tr =
     (case m tr of (Inr x, t) \<Rightarrow> (Inr x, t) | (Inl e, t) \<Rightarrow> (Inl e, t @ [Close fd]))"

definition loopback_socket :: "loop_env \<Rightarrow> sock_addr \<Rightarrow> nat loop_steps" where
  "loopback_socket E addr =
     (case fst addr of
        V4 _ \<Rightarrow> call (kernel E) (Stream_Socket False)
      | V6 _ \<Rightarrow>
          bindM (call (kernel E) (Stream_Socket True)) (\<lambda>sock.
          owning E sock (bindM (call (kernel E) (Set_V6only sock)) (\<lambda>_. returnM sock))))"

definition listen_on_addr :: "loop_env \<Rightarrow> sock_addr \<Rightarrow> nat loop_steps" where
  "listen_on_addr E addr =
     bindM (loopback_socket E addr) (\<lambda>sock.
     owning E sock (
       bindM (call (kernel E) (Set_Reuseaddr sock)) (\<lambda>_.
       bindM (call (kernel E) (Bind_Addr sock addr)) (\<lambda>_.
       bindM (call (kernel E) (Listen sock BACKLOG)) (\<lambda>_.
       returnM sock)))))"

definition connect_to_addr :: "loop_env \<Rightarrow> sock_addr \<Rightarrow> nat loop_steps" where
  "connect_to_addr E addr =
     bindM (loopback_socket E addr) (\<lambda>sock.
     owning E sock (bindM (call (kernel E) (Connect_Addr sock addr)) (\<lambda>_. returnM sock)))"

text \<open>\<open>filter_map\<close> and \<open>find_map\<close> over an iterator, with \<open>ok()\<close> of each result.\<close>

fun all_ok :: "('a \<Rightarrow> nat loop_steps) \<Rightarrow> 'a list \<Rightarrow> nat list loop_steps" where
  "all_ok f [] = returnM []"
| "all_ok f (x # xs) =
     bindM (tryM (f x)) (\<lambda>r. bindM (all_ok f xs) (\<lambda>ys.
     returnM (case r of Inl _ \<Rightarrow> ys | Inr y \<Rightarrow> y # ys)))"

fun first_ok :: "('a \<Rightarrow> nat loop_steps) \<Rightarrow> 'a list \<Rightarrow> nat option loop_steps" where
  "first_ok f [] = returnM None"
| "first_ok f (x # xs) =
     bindM (tryM (f x)) (\<lambda>r. case r of Inl _ \<Rightarrow> first_ok f xs | Inr y \<Rightarrow> returnM (Some y))"

definition listen_on :: "loop_env \<Rightarrow> port \<Rightarrow> nat list loop_steps" where
  "listen_on E p = all_ok (listen_on_addr E) (loopback_addrs p)"

definition connect_to :: "loop_env \<Rightarrow> port \<Rightarrow> nat option loop_steps" where
  "connect_to E p = first_ok (connect_to_addr E) (loopback_addrs p)"

section \<open>Inside the container\<close>

definition send_fds :: "loop_env \<Rightarrow> nat \<Rightarrow> nat list \<Rightarrow> unit loop_steps" where
  "send_fds E sock fds =
     contextM ''sending descriptors''
       (bindM (call (kernel E) (Send_Reply sock (of_nat (length fds)) fds)) (\<lambda>_. returnM ()))"

definition open_namespace :: "loop_env \<Rightarrow> string \<Rightarrow> nat loop_steps" where
  "open_namespace E ns =
     contextM (''opening '' @ ''/proc/self/ns/'' @ ns)
       (call (kernel E) (Open_Namespace (''/proc/self/ns/'' @ ns)))"

definition hook :: "loop_env \<Rightarrow> string \<Rightarrow> unit loop_steps" where
  "hook E sock_path =
     bindM (call (kernel E) Lo_Up) (\<lambda>_.
     bindM (contextM (''connecting to '' @ sock_path @ '' from inside the container'')
       (call (kernel E) (Connect_Unix sock_path))) (\<lambda>stream.
     bindM (mapM (open_namespace E) [''user'', ''net'']) (\<lambda>namespaces.
     send_fds E stream namespaces)))"

definition enter_namespaces :: "loop_env \<Rightarrow> unit loop_steps" where
  "enter_namespaces E =
     forM [(USER_NS_FD, ''user''), (NET_NS_FD, ''network'')] (\<lambda>(fd, ns).
       contextM (''joining the container's '' @ ns @ '' namespace'')
         (bindM (call (kernel E) (Join_Namespace fd ns)) (\<lambda>_. returnM ())))"

text \<open>The helper's answer to one request, of which the buffer holds three bytes.\<close>

definition request_buffer :: "8 word list \<Rightarrow> 8 word list" where
  "request_buffer bs = take 3 (bs @ [0, 0, 0])"

definition u16_from_le :: "8 word \<Rightarrow> 8 word \<Rightarrow> 16 word" where
  "u16_from_le lo hi = ucast lo OR push_bit 8 (ucast hi)"

definition u16_to_le :: "16 word \<Rightarrow> 8 word \<times> 8 word" where
  "u16_to_le w = (ucast w, ucast (drop_bit 8 w))"

definition made :: "loop_env \<Rightarrow> 8 word list \<Rightarrow> nat list loop_steps" where
  "made E bs =
     (let req = request_buffer bs; p = u16_from_le (req ! 1) (req ! 2) in
      if req ! 0 = OP_LISTEN then listen_on E p
      else if req ! 0 = OP_CONNECT then bindM (connect_to E p) (\<lambda>s. returnM (case s of None \<Rightarrow> [] | Some fd \<Rightarrow> [fd]))
      else returnM [])"

text \<open>
  The helper's loop over what it reads: an error, or the bytes of a packet. At the end of the
  list, or with no bytes, the run has closed its end. The descriptors sent are closed here.
\<close>

fun helper_loop :: "loop_env \<Rightarrow> 8 word list res list \<Rightarrow> unit loop_steps" where
  "helper_loop E [] = returnM ()"
| "helper_loop E (Inl e # reads) = failM (Context ''reading a request from the run'' e)"
| "helper_loop E (Inr bs # reads) =
     (if bs = [] then returnM ()
      else bindM (made E bs) (\<lambda>fds.
           bindM (send_fds E HELPER_FD fds) (\<lambda>_.
           helper_loop E reads)))"

definition helper :: "loop_env \<Rightarrow> bool \<Rightarrow> 8 word list res list \<Rightarrow> unit loop_steps" where
  "helper E localnet reads =
     bindM (enter_namespaces E) (\<lambda>_.
     bindM (if localnet then bindM (call (kernel E) Make_Tun) (\<lambda>tun. returnM [tun]) else returnM []) (\<lambda>tun.
     bindM (send_fds E HELPER_FD tun) (\<lambda>_.
     helper_loop E reads)))"

section \<open>Asking the helper\<close>

definition recv_fds :: "reply res \<Rightarrow> nat list res" where
  "recv_fds r =
     and_then (with_context ''reading a reply'' r) (\<lambda>(bytes, messages).
       if bytes = 0 then Inl (Bail ''the other side of the loopback bridge stopped'')
       else Inr (concat (filter_map (\<lambda>m. case m of Scm_Rights fds \<Rightarrow> Some fds | Other_Message \<Rightarrow> None) messages)))"

definition request_bytes :: "8 word \<Rightarrow> port \<Rightarrow> 8 word list" where
  "request_bytes op p = [op, fst (u16_to_le p), snd (u16_to_le p)]"

definition request :: "loop_env \<Rightarrow> 8 word \<Rightarrow> port \<Rightarrow> nat list loop_steps" where
  "request E op p tr =
     (case call (kernel E) (Write_Request (request_bytes op p)) tr of
        (Inl _, t) \<Rightarrow> (Inr [], t)
      | (Inr _, t) \<Rightarrow> (Inr (case recv_fds (replies E t) of Inl _ \<Rightarrow> [] | Inr fds \<Rightarrow> fds), t))"

section \<open>Listening ports\<close>

definition word_at :: "string \<Rightarrow> nat \<Rightarrow> nat \<Rightarrow> 32 word" where
  "word_at addr from till =
     (case parse_unsigned 32 16 (take (till - from) (drop from addr)) of None \<Rightarrow> 1 | Some n \<Rightarrow> of_nat n)"

definition loopback_word :: "32 word \<Rightarrow> bool" where
  "loopback_word v \<longleftrightarrow> v = 0 \<or> v AND 0xff = 127"

definition is_loopback :: "string \<Rightarrow> bool" where
  "is_loopback addr =
     (if length addr = 8 then loopback_word (word_at addr 0 8)
      else if length addr = 32 then
        (let ws = [word_at addr 0 8, word_at addr 8 16, word_at addr 16 24, word_at addr 24 32] in
         if ws = [0, 0, 0, 0] then True
         else if ws = [0, 0, 0, 0x01000000] then True
         else if take 3 ws = [0, 0, 0xffff0000] then loopback_word (ws ! 3)
         else False)
      else False)"

definition listening_port :: "string \<Rightarrow> port option" where
  "listening_port line =
     (let fields = drop 1 (split_whitespace line) in
      case Option.bind (get 0 fields) (split_once CHR '':'') of
        None \<Rightarrow> None
      | Some (addr, p) \<Rightarrow>
          if get 2 fields \<noteq> Some ''0A'' \<or> \<not> is_loopback addr then None
          else map_option of_nat (parse_unsigned 16 16 p))"

text \<open>The two tables, when they can be read.\<close>

type_synonym tables = "string option \<times> string option"

definition table_ports :: "string option \<Rightarrow> port set" where
  "table_ports table =
     (case table of None \<Rightarrow> {} | Some text \<Rightarrow> set (filter_map listening_port (drop 1 (lines text))))"

definition listening_ports :: "tables \<Rightarrow> port set" where
  "listening_ports ts = table_ports (fst ts) \<union> table_ports (snd ts)"

section \<open>Mirrors\<close>

record mirror =
  listener :: nat
  at_port :: port
  inbound :: bool

definition copy_half :: "loop_env \<Rightarrow> nat \<Rightarrow> nat \<Rightarrow> unit loop_steps" where
  "copy_half E source sink =
     bindM (ignoreM (call (kernel E) (Copy_Stream source sink))) (\<lambda>_.
     ignoreM (call (kernel E) (Shutdown_Write sink)))"

text \<open>The two threads, one after the other here: they share nothing but the connection.\<close>

definition pump :: "loop_env \<Rightarrow> nat \<Rightarrow> nat \<Rightarrow> unit loop_steps" where
  "pump E near far =
     bindM (call (kernel E) (Clone near)) (\<lambda>back_near.
     bindM (call (kernel E) (Clone far)) (\<lambda>back_far.
     bindM (copy_half E near far) (\<lambda>_.
     copy_half E back_far back_near)))"

definition serve :: "loop_env \<Rightarrow> mirror \<Rightarrow> unit loop_steps" where
  "serve E m =
     bindM (tryM (call (kernel E) (Accept (listener m)))) (\<lambda>r.
     case r of
       Inl _ \<Rightarrow> returnM ()
     | Inr near \<Rightarrow>
         bindM (if inbound m
                then bindM (request E OP_CONNECT (at_port m))
                       (\<lambda>fds. returnM (if fds = [] then None else Some (last fds)))
                else connect_to E (at_port m)) (\<lambda>far.
         case far of None \<Rightarrow> returnM () | Some far \<Rightarrow> ignoreM (pump E near far)))"

definition mirrored :: "bool \<Rightarrow> mirror list \<Rightarrow> port set" where
  "mirrored inb ms = set (map at_port (filter (\<lambda>m. inbound m = inb) ms))"

fun open_mirrors :: "bool \<Rightarrow> (port \<Rightarrow> nat list loop_steps) \<Rightarrow> port list \<Rightarrow> mirror list loop_steps" where
  "open_mirrors inb mk [] = returnM []"
| "open_mirrors inb mk (p # ps) =
     bindM (mk p) (\<lambda>fds.
     bindM (open_mirrors inb mk ps) (\<lambda>ms.
     returnM (map (\<lambda>fd. \<lparr>listener = fd, at_port = p, inbound = inb\<rparr>) fds @ ms)))"

text \<open>What is to be mirrored, from what is listening and what is mirrored already.\<close>

definition host_ports :: "tables \<Rightarrow> mirror list \<Rightarrow> port set" where
  "host_ports host ms = listening_ports host - mirrored True ms"

definition container_ports :: "tables \<Rightarrow> mirror list \<Rightarrow> port set" where
  "container_ports cont ms = listening_ports cont - mirrored False ms"

definition rescan ::
  "loop_env \<Rightarrow> (port set \<Rightarrow> port list) \<Rightarrow> tables \<Rightarrow> tables \<Rightarrow> mirror list \<Rightarrow> mirror list loop_steps" where
  "rescan E visit host_net container_net ms =
     (let ours_host = mirrored True ms;
          ours_container = mirrored False ms;
          host = listening_ports host_net - ours_host;
          container = listening_ports container_net - ours_container;
          outbound = host - container;
          inb = container - host;
          wanted = (\<lambda>m. if inbound m then at_port m \<in> inb else at_port m \<in> outbound)
      in bindM (forM (filter (\<lambda>m. \<not> wanted m) ms) (\<lambda>m. ignoreM (call (kernel E) (Close (listener m))))) (\<lambda>_.
         bindM (open_mirrors False (request E OP_LISTEN) (visit (outbound - ours_container))) (\<lambda>outs.
         bindM (open_mirrors True (listen_on E) (visit (inb - ours_host))) (\<lambda>ins.
         returnM (filter wanted ms @ outs @ ins)))))"

text \<open>
  One turn of the loop: the time at its start, the tables a scan would find, the time after
  the scan, and what \<open>poll\<close> answers: an error, or whether \<open>quit\<close> was closed and which
  listeners have a connection waiting. Times are nanoseconds.
\<close>

record turn =
  started :: nat
  host_tables :: tables
  container_tables :: tables
  scanned :: nat
  polled :: "(bool \<times> nat list) res"

definition SCAN_INTERVAL :: nat where "SCAN_INTERVAL = 1000000000"

fun forward_turns ::
  "loop_env \<Rightarrow> (port set \<Rightarrow> port list) \<Rightarrow> turn list \<Rightarrow> mirror list \<Rightarrow> nat \<Rightarrow> mirror list loop_steps" where
  "forward_turns E visit [] ms due = returnM ms"
| "forward_turns E visit (t # ts) ms due =
     bindM (if started t \<ge> due
            then bindM (rescan E visit (host_tables t) (container_tables t) ms)
                   (\<lambda>ms. returnM (ms, scanned t + SCAN_INTERVAL))
            else returnM (ms, due)) (\<lambda>(ms, due).
     case polled t of
       Inl _ \<Rightarrow> returnM ms
     | Inr (quit, waiting) \<Rightarrow>
         if quit then returnM ms
         else bindM (forM (filter (\<lambda>m. listener m \<in> set waiting) ms) (serve E)) (\<lambda>_.
              forward_turns E visit ts ms due))"

definition forward_loop ::
  "loop_env \<Rightarrow> (port set \<Rightarrow> port list) \<Rightarrow> nat \<Rightarrow> turn list \<Rightarrow> mirror list loop_steps" where
  "forward_loop E visit now turns = forward_turns E visit turns [] now"

section \<open>Requests and replies\<close>

lemma u16_le_roundtrip [simp]: "u16_from_le (fst (u16_to_le p)) (snd (u16_to_le p)) = p"
  by (rule bit_word_eqI) (auto simp: u16_from_le_def u16_to_le_def bit_or_iff bit_push_bit_iff
      bit_unsigned_iff bit_drop_bit_eq)

lemma made_request:
  "made E (request_bytes OP_LISTEN p) = listen_on E p"
  "made E (request_bytes OP_CONNECT p) =
     bindM (connect_to E p) (\<lambda>s. returnM (case s of None \<Rightarrow> [] | Some fd \<Rightarrow> [fd]))"
  by (simp_all add: made_def request_bytes_def request_buffer_def OP_LISTEN_def OP_CONNECT_def
      numeral_3_eq_3 Let_def)

definition sent_reply :: "nat list \<Rightarrow> reply" where
  "sent_reply fds = (1, if fds = [] then [] else [Scm_Rights fds])"

lemma recv_sent [simp]: "recv_fds (Inr (sent_reply fds)) = Inr fds"
  by (simp add: recv_fds_def sent_reply_def)

section \<open>The helper stays in the container\<close>

definition on_loopback :: "sock_addr \<Rightarrow> bool" where
  "on_loopback a \<longleftrightarrow> fst a \<in> {V4 0x7F000001, V6 1}"

text \<open>What the helper may do after the calls \<open>tr\<close>.\<close>

definition helper_may :: "loop_call trace \<Rightarrow> loop_call \<Rightarrow> bool" where
  "helper_may tr c =
     (let user = Join_Namespace USER_NS_FD ''user'' \<in> set tr;
          inside = user \<and> Join_Namespace NET_NS_FD ''network'' \<in> set tr in
      case c of
        Join_Namespace fd ns \<Rightarrow> ns = ''network'' \<longrightarrow> user
      | Stream_Socket _ \<Rightarrow> inside
      | Make_Tun \<Rightarrow> inside
      | Bind_Addr _ a \<Rightarrow> on_loopback a
      | Connect_Addr _ a \<Rightarrow> on_loopback a
      | Send_Reply _ n fds \<Rightarrow> inside \<and> length fds \<le> 2 \<and> n = of_nat (length fds)
      | _ \<Rightarrow> True)"

abbreviation joined :: "loop_call set" where
  "joined \<equiv> {Join_Namespace USER_NS_FD ''user'', Join_Namespace NET_NS_FD ''network''}"

text \<open>A trace that has been allowed so far, with the namespaces joined.\<close>

definition in_there :: "loop_call trace \<Rightarrow> bool" where
  "in_there tr \<longleftrightarrow> each_after helper_may tr \<and> joined \<subseteq> set tr"

lemma keeps_call_there [keeps_intros]:
  "(\<And>tr. joined \<subseteq> set tr \<Longrightarrow> helper_may tr c) \<Longrightarrow> keeps in_there (call sys c)"
  by (auto simp: keeps_def in_there_def script_simps)

lemma keeps_owning [keeps_intros]: "keeps in_there m \<Longrightarrow> keeps in_there (owning E fd m)"
  by (force simp: keeps_def owning_def in_there_def helper_may_def split: prod.splits sum.splits)

lemma keeps_all_ok [keeps_intros]: "(\<And>x. x \<in> set xs \<Longrightarrow> keeps in_there (f x)) \<Longrightarrow> keeps in_there (all_ok f xs)"
  by (induction xs) (auto intro!: keeps_intros split: sum.splits)

lemma keeps_first_ok [keeps_intros]: "(\<And>x. x \<in> set xs \<Longrightarrow> keeps in_there (f x)) \<Longrightarrow> keeps in_there (first_ok f xs)"
  by (induction xs) (auto intro!: keeps_intros)

lemma loopback_addrs_on [simp]: "a \<in> set (loopback_addrs p) \<Longrightarrow> on_loopback a"
  by (auto simp: loopback_addrs_def on_loopback_def)

lemma keeps_socket [keeps_intros]: "keeps in_there (loopback_socket E a)"
  unfolding loopback_socket_def
  by (cases "fst a") (auto simp: helper_may_def Let_def intro!: keeps_intros)

lemma keeps_listen_on [keeps_intros]: "keeps in_there (listen_on E p)"
  unfolding listen_on_def listen_on_addr_def
  by (rule keeps_intros | simp add: helper_may_def Let_def)+

lemma keeps_connect_to [keeps_intros]: "keeps in_there (connect_to E p)"
  unfolding connect_to_def connect_to_addr_def
  by (rule keeps_intros | simp add: helper_may_def Let_def)+

lemma all_ok_length: "all_ok f xs tr = (Inr ys, t) \<Longrightarrow> length ys \<le> length xs"
proof (induction xs arbitrary: tr ys t)
  case (Cons x xs)
  then obtain r u zs where "f x tr = (r, u)" "all_ok f xs u = (Inr zs, t)"
    and ys: "ys = (case r of Inl _ \<Rightarrow> zs | Inr y \<Rightarrow> y # zs)"
    by (auto simp: bindM_Inr script_simps)
  then have "length zs \<le> length xs" using Cons.IH by blast
  with ys show ?case by (cases r) auto
qed (simp add: script_simps)

lemma listen_on_length: "listen_on E p tr = (Inr fds, t) \<Longrightarrow> length fds \<le> 2"
  using all_ok_length [of "listen_on_addr E" "loopback_addrs p"]
  by (fastforce simp: listen_on_def loopback_addrs_def)

lemma made_length: "made E bs tr = (Inr fds, t) \<Longrightarrow> length fds \<le> 2"
  by (auto simp: made_def Let_def bindM_Inr script_simps
      dest: listen_on_length split: if_splits option.splits)

lemma keeps_made [keeps_intros]: "keeps in_there (made E bs)"
  unfolding made_def Let_def by (rule keeps_intros)+

lemma keeps_send [keeps_intros]: "length fds \<le> 2 \<Longrightarrow> keeps in_there (send_fds E sock fds)"
  unfolding send_fds_def by (rule keeps_intros | simp add: helper_may_def Let_def)+

lemma keeps_helper_loop [keeps_intros]: "keeps in_there (helper_loop E reads)"
proof (induction E reads rule: helper_loop.induct)
  case (3 E bs reads)
  show ?case
  proof (rule keepsI)
    fix s r t assume s: "in_there s" and r: "helper_loop E (Inr bs # reads) s = (r, t)"
    show "in_there t"
    proof (cases "made E bs s")
      case (Pair m u)
      have u: "in_there u" using keepsD [OF keeps_made s Pair] .
      show ?thesis
      proof (cases m)
        case (Inr fds)
        have "keeps in_there (bindM (send_fds E HELPER_FD fds) (\<lambda>_. helper_loop E reads))" if "bs \<noteq> []"
          using 3 [OF that] made_length Pair Inr by (blast intro: keeps_intros)
        then show ?thesis
          using s u r Pair Inr by (cases "bs = []") (auto simp: bindM_def script_simps dest: keepsD)
      qed (use s u r Pair in \<open>auto simp: bindM_def script_simps split: if_splits\<close>)
    qed
  qed
qed (auto intro: keeps_intros)


lemma keeps_tun [keeps_intros]:
  "keeps in_there (if localnet then bindM (call (kernel E) Make_Tun) (\<lambda>tun. returnM [tun]) else returnM [])"
  by (rule keeps_intros | simp add: helper_may_def Let_def)+

lemma enter_inside:
  "triple (\<lambda>tr. each_after helper_may tr) (enter_namespaces E) (\<lambda>_. in_there) (each_after helper_may)"
  by (auto simp: triple_def enter_namespaces_def bindM_def contextM_def script_simps in_there_def
      helper_may_def Let_def split: prod.splits sum.splits)


section \<open>Reading the tables of the kernel\<close>

text \<open>
  A line of \<open>/proc/net/tcp\<close> or \<open>tcp6\<close>: an index, the local address and port, the remote ones,
  the state, and more fields. Each 32-bit word of an address is printed in the order of the
  machine's memory. The index is padded on the left.
\<close>

record tcp_socket =
  padding :: nat
  slot :: string
  local_addr :: ip_addr
  local_port :: port
  remote :: string
  tcp_state :: nat
  more_fields :: "string list"

definition v6_word :: "128 word \<Rightarrow> nat \<Rightarrow> 32 word" where
  "v6_word a k = ucast (drop_bit (32 * k) a)"

fun hex_addr :: "endian \<Rightarrow> ip_addr \<Rightarrow> string" where
  "hex_addr e (V4 a) = hex8 (ne_word e a)"
| "hex_addr e (V6 a) = concat (map (\<lambda>k. hex8 (ne_word e (v6_word a k))) [3, 2, 1, 0])"

definition proc_tcp_line :: "endian \<Rightarrow> tcp_socket \<Rightarrow> string" where
  "proc_tcp_line e s =
     replicate (padding s) CHR '' '' @ join_on '' '' ([slot s,
       hex_addr e (local_addr s) @ CHR '':'' # hex_pad 4 (unat (local_port s)), remote s,
       hex_pad 2 (tcp_state s)] @ more_fields s)"

definition proc_tcp :: "endian \<Rightarrow> string \<Rightarrow> tcp_socket list \<Rightarrow> string" where
  "proc_tcp e header ss =
     concat (map (\<lambda>l. l @ [newline]) (header # map (proc_tcp_line e) ss))"

definition proc_socket :: "tcp_socket \<Rightarrow> bool" where
  "proc_socket s \<longleftrightarrow> is_word (slot s) \<and> is_word (remote s) \<and> (\<forall>f \<in> set (more_fields s). is_word f) \<and>
     tcp_state s < 256"

text \<open>Whether a connection to loopback reaches a listener on an address.\<close>

definition v4_reached :: "32 word \<Rightarrow> bool" where
  "v4_reached a \<longleftrightarrow> a = 0 \<or> drop_bit 24 a = 127"

fun reached :: "ip_addr \<Rightarrow> bool" where
  "reached (V4 a) = v4_reached a"
| "reached (V6 a) = (a = 0 \<or> a = 1 \<or> drop_bit 32 a = 0xFFFF \<and> v4_reached (ucast a))"

lemma length_hex_pad [simp]: "length (hex_pad k n) = k"
  by (induction k arbitrary: n) auto

lemma length_hex8 [simp]: "length (hex8 w) = 8"
  by (simp add: hex8_def)

lemma parse_hex8 [simp]: "parse_unsigned 32 16 (hex8 w) = Some (unat w)"
  using unsigned_less [of w, where ?'a = nat] by (simp add: hex8_def parse_hex_pad)

lemma word_at_hex8: "word_at (xs @ hex8 w @ ys) (length xs) (length xs + 8) = w"
  by (simp add: word_at_def)

lemma ne_word_Little_bit: "bit (ne_word Little a) n \<longleftrightarrow> n < 32 \<and> bit a (byte_flip n)"
  by (cases "n < 32") (auto simp: bit_ne_word_Little dest: bit_imp_le_length)

lemma ne_word_flip: "ne_word Little (ne_word Little a) = a"
  by (rule bit_word_eqI) (simp add: ne_word_Little_bit byte_flip)

lemma ne_word_eq: "ne_word Little a = b \<longleftrightarrow> a = ne_word Little b"
  using ne_word_flip by metis

lemma ne_word_low: "ne_word Little a AND 0xff = drop_bit 24 a"
proof -
  have "ne_word Little a AND mask 8 = drop_bit 24 a"
    by (rule bit_word_eqI)
      (auto simp: ne_word_Little_bit bit_and_iff bit_mask_iff bit_drop_bit_eq byte_flip_def add.commute
        dest: bit_imp_le_length)
  then show ?thesis by (simp add: mask_eq_exp_minus_1)
qed

lemma ne_word_0 [simp]: "ne_word Little 0 = 0"
  by (rule bit_word_eqI) (simp add: ne_word_Little_bit)

lemma loopback_word_Little: "loopback_word (ne_word Little a) \<longleftrightarrow> v4_reached a"
  by (auto simp: loopback_word_def v4_reached_def ne_word_low ne_word_eq)

lemma is_loopback_v4: "is_loopback (hex_addr Little (V4 a)) \<longleftrightarrow> reached (V4 a)"
  using word_at_hex8 [of "[]" "ne_word Little a" "[]"]
  by (simp add: is_loopback_def loopback_word_Little)

lemma ne_word_consts: "ne_word Little 1 = 0x01000000" "ne_word Little 0xFFFF = 0xFFFF0000"
  by code_simp+

lemma bit_v6_word: "bit (v6_word a k) n \<longleftrightarrow> n < 32 \<and> bit a (32 * k + n)"
  by (auto simp: v6_word_def bit_unsigned_iff bit_drop_bit_eq add.commute)

lemma v6_word_eq: "a = b \<longleftrightarrow> (\<forall>k < 4. v6_word a k = v6_word b k)"
proof
  assume *: "\<forall>k < 4. v6_word a k = v6_word b k"
  show "a = b"
  proof (rule bit_word_eqI)
    fix n assume "n < LENGTH(128)"
    then have "n div 32 < 4" by simp
    with * have "bit (v6_word a (n div 32)) (n mod 32) = bit (v6_word b (n div 32)) (n mod 32)" by simp
    then show "bit a n = bit b n" by (simp add: bit_v6_word)
  qed
qed simp

lemma less_4: "(\<forall>k < (4::nat). P k) \<longleftrightarrow> P 3 \<and> P 2 \<and> P 1 \<and> P 0"
  by (auto simp: numeral_eq_Suc less_Suc_eq)

lemma v6_word_drop: "v6_word (drop_bit 32 a) k = v6_word a (k + 1)"
  by (rule bit_word_eqI) (simp add: bit_v6_word bit_drop_bit_eq add.commute add.left_commute)

lemma v6_word_4: "v6_word a 4 = 0"
  by (rule bit_word_eqI) (auto simp: bit_v6_word dest: bit_imp_le_length)

lemma v6_word_consts:
  "v6_word 0 k = 0"
  "v6_word 1 3 = 0" "v6_word 1 2 = 0" "v6_word 1 1 = 0" "v6_word 1 0 = 1"
  "v6_word 0xFFFF 3 = 0" "v6_word 0xFFFF 2 = 0" "v6_word 0xFFFF 1 = 0" "v6_word 0xFFFF 0 = 0xFFFF"
  by (simp add: v6_word_def) code_simp+

lemma v6_mapped:
  "drop_bit 32 a = 0xFFFF \<longleftrightarrow> v6_word a 3 = 0 \<and> v6_word a 2 = 0 \<and> v6_word a 1 = 0xFFFF"
proof -
  have "v6_word (drop_bit 32 a) 3 = 0" "v6_word (drop_bit 32 a) 2 = v6_word a 3"
    "v6_word (drop_bit 32 a) 1 = v6_word a 2" "v6_word (drop_bit 32 a) 0 = v6_word a 1"
    using v6_word_4 [of a] v6_word_drop [of a 3] v6_word_drop [of a 2] v6_word_drop [of a 1] v6_word_drop [of a 0]
    by (simp_all del: One_nat_def)
  then show ?thesis
    by (simp only: v6_word_eq [of "drop_bit 32 a"] less_4 v6_word_consts) auto
qed

lemma is_loopback_v6: "is_loopback (hex_addr Little (V6 a)) \<longleftrightarrow> reached (V6 a)"
proof -
  define w where "w = (\<lambda>k. ne_word Little (v6_word a k))"
  define s where "s = hex8 (w 3) @ hex8 (w 2) @ hex8 (w 1) @ hex8 (w 0)"
  have at: "word_at s 0 8 = w 3" "word_at s 8 16 = w 2" "word_at s 16 24 = w 1" "word_at s 24 32 = w 0"
    by (simp_all add: s_def word_at_def)
  have "length s = 32" by (simp add: s_def)
  then have "is_loopback s \<longleftrightarrow>
      (w 3 = 0 \<and> w 2 = 0 \<and> (w 1 = 0 \<and> (w 0 = 0 \<or> w 0 = 0x01000000) \<or>
        w 1 = 0xFFFF0000 \<and> loopback_word (w 0)))"
    by (auto simp: is_loopback_def at Let_def numeral_3_eq_3)
  moreover have "w k = ne_word Little b \<longleftrightarrow> v6_word a k = b" for k b
    by (metis w_def ne_word_flip)
  then have "w k = 0 \<longleftrightarrow> v6_word a k = 0" "w k = 0x01000000 \<longleftrightarrow> v6_word a k = 1"
    "w k = 0xFFFF0000 \<longleftrightarrow> v6_word a k = 0xFFFF" for k
    by (metis ne_word_0, metis ne_word_consts(1), metis ne_word_consts(2))
  moreover have "loopback_word (w 0) \<longleftrightarrow> v4_reached (ucast a)"
    by (simp add: w_def loopback_word_Little v6_word_def)
  moreover have "a = 0 \<longleftrightarrow> v6_word a 3 = 0 \<and> v6_word a 2 = 0 \<and> v6_word a 1 = 0 \<and> v6_word a 0 = 0"
    "a = 1 \<longleftrightarrow> v6_word a 3 = 0 \<and> v6_word a 2 = 0 \<and> v6_word a 1 = 0 \<and> v6_word a 0 = 1"
    by (simp_all add: v6_word_eq [of a] less_4 v6_word_consts del: One_nat_def)
  ultimately have "is_loopback s \<longleftrightarrow> reached (V6 a)"
    by (auto simp: v6_mapped)
  then show ?thesis by (simp add: s_def w_def)
qed

lemma is_loopback_hex: "is_loopback (hex_addr Little a) \<longleftrightarrow> reached a"
  by (cases a) (simp_all only: is_loopback_v4 is_loopback_v6)

lemma hex_addr_plain: "c \<in> set (hex_addr e a) \<Longrightarrow> \<not> is_ws c \<and> c \<noteq> CHR '':''"
proof -
  have hex: "digit_val 16 c \<noteq> None" if "c \<in> set (hex_pad k n)" for c k n
    using that by (induction k arbitrary: n) (auto simp: hex_upper_val)
  have "digit_val 16 c \<noteq> None" if "c \<in> set (hex_addr e a)"
    using that by (cases a) (auto simp: hex8_def dest: hex)
  moreover have "digit_val 16 CHR '':'' = None"
    by (simp add: digit_val_def is_ascii_digit_def is_ascii_lowercase_def is_ascii_uppercase_def)
  ultimately show "c \<in> set (hex_addr e a) \<Longrightarrow> ?thesis"
    using digit_val_plain [of 16 c] by (cases "digit_val 16 c") fastforce+
qed

lemma split_whitespace_pad: "split_whitespace (replicate k CHR '' '' @ s) = split_whitespace s"
  by (induction k) (simp_all add: split_whitespace_def is_ws_def)

lemma hex_pad_2:
  assumes "n < 256"
  shows "hex_pad 2 n = ''0A'' \<longleftrightarrow> n = 10"
proof -
  have ten: "hex_pad 2 10 = ''0A''" by code_simp
  have "n = 10" if "hex_pad 2 n = hex_pad 2 10"
    using digits_val_hex_pad [of 2 n] digits_val_hex_pad [of 2 10] assms unfolding that by simp
  then show ?thesis using ten by auto
qed


lemma listening_port_line:
  assumes "proc_socket s"
  shows "listening_port (proc_tcp_line Little s) =
    (if tcp_state s = 10 \<and> reached (local_addr s) then Some (local_port s) else None)"
proof -
  let ?local = "hex_addr Little (local_addr s) @ CHR '':'' # hex_pad 4 (unat (local_port s))"
  let ?fields = "[slot s, ?local, remote s, hex_pad 2 (tcp_state s)] @ more_fields s"
  have "is_word ?local"
    using hex_addr_plain set_hex_pad by (fastforce simp: is_word_def is_ws_def)
  moreover have "is_word (hex_pad 2 (tcp_state s))" by (simp add: hex_pad_word)
  ultimately have fields: "split_whitespace (proc_tcp_line Little s) = ?fields"
    unfolding proc_tcp_line_def split_whitespace_pad using assms
    by (intro split_whitespace_join) (auto simp: proc_socket_def is_ws_def)
  have split: "split_once CHR '':'' ?local =
      Some (hex_addr Little (local_addr s), hex_pad 4 (unat (local_port s)))"
    using hex_addr_plain by (intro split_once_append) blast
  have "parse_unsigned 16 16 (hex_pad 4 (unat (local_port s))) = Some (unat (local_port s))"
    using unsigned_less [of "local_port s", where ?'a = nat] by (intro parse_hex_pad) simp_all
  moreover have "hex_pad 2 (tcp_state s) = ''0A'' \<longleftrightarrow> tcp_state s = 10"
    using assms by (intro hex_pad_2) (simp add: proc_socket_def)
  ultimately show ?thesis
    by (auto simp: listening_port_def fields get_def split is_loopback_hex simp del: split_once.simps)
qed

lemma split_on_lines:
  assumes "\<forall>l \<in> set ls. newline \<notin> set l"
  shows "split_on newline (concat (map (\<lambda>l. l @ [newline]) ls)) = ls @ [[]]"
  using assms by (induction ls) (auto simp: split_on_append_sep)

lemma lines_of_snoc: "lines_of (ls @ [[]]) = map strip_cr ls"
proof (induction ls)
  case (Cons l ls)
  then show ?case by (cases ls) auto
qed simp

lemma lines_concat:
  assumes "\<forall>l \<in> set ls. newline \<notin> set l"
  shows "lines (concat (map (\<lambda>l. l @ [newline]) ls)) = map strip_cr ls"
  using assms by (simp add: lines_def split_on_lines lines_of_snoc)

lemma last_join_on: "xs \<noteq> [] \<Longrightarrow> last xs \<noteq> [] \<Longrightarrow> join_on sep xs \<noteq> [] \<and> last (join_on sep xs) = last (last xs)"
  by (induction sep xs rule: join_on.induct) auto

lemma set_join_on: "set (join_on sep xs) \<subseteq> set sep \<union> \<Union> (set ` set xs)"
  by (induction sep xs rule: join_on.induct) auto

definition line_words :: "endian \<Rightarrow> tcp_socket \<Rightarrow> string list" where
  "line_words e s = [slot s, hex_addr e (local_addr s) @ CHR '':'' # hex_pad 4 (unat (local_port s)),
     remote s, hex_pad 2 (tcp_state s)] @ more_fields s"

lemma line_words:
  assumes "proc_socket s"
  shows "\<forall>w \<in> set (line_words e s). is_word w"
proof -
  have "is_word (hex_addr e (local_addr s) @ CHR '':'' # hex_pad 4 (unat (local_port s)))"
    using hex_addr_plain set_hex_pad by (fastforce simp: is_word_def is_ws_def)
  with assms show ?thesis by (simp add: line_words_def hex_pad_word proc_socket_def)
qed

lemma proc_tcp_line_words:
  "proc_tcp_line e s = replicate (padding s) CHR '' '' @ join_on '' '' (line_words e s)"
  by (simp add: proc_tcp_line_def line_words_def)

lemma proc_tcp_line_char:
  assumes "proc_socket s" "c \<in> set (proc_tcp_line e s)"
  shows "c \<noteq> newline"
proof -
  have "c = CHR '' '' \<or> (\<exists>w \<in> set (line_words e s). c \<in> set w)"
    using assms(2) set_join_on [of "'' ''" "line_words e s"] by (auto simp: proc_tcp_line_words)
  moreover have "is_ws newline" "newline \<noteq> CHR '' ''" by (simp_all add: newline_def is_ws_def)
  ultimately show ?thesis
    using line_words [OF assms(1), of e] unfolding is_word_def by metis
qed

lemma strip_cr_proc_tcp_line:
  assumes "proc_socket s"
  shows "strip_cr (proc_tcp_line e s) = proc_tcp_line e s"
proof -
  let ?w = "last (line_words e s)"
  have "?w \<in> set (line_words e s)" by (rule last_in_set) (simp add: line_words_def)
  then have w: "is_word ?w" using line_words [OF assms] by blast
  then have "join_on '' '' (line_words e s) \<noteq> [] \<and> last (join_on '' '' (line_words e s)) = last ?w"
    by (intro last_join_on) (simp_all add: line_words_def is_word_def)
  then have "last (proc_tcp_line e s) = last ?w"
    by (simp add: proc_tcp_line_words last_append)
  moreover have "last ?w \<in> set ?w" using w by (intro last_in_set) (simp add: is_word_def)
  moreover have "is_ws CHR 0x0D" by (simp add: is_ws_def)
  ultimately have "last (proc_tcp_line e s) \<noteq> CHR 0x0D" using w by (metis is_word_def)
  then show ?thesis by (simp add: strip_cr_def)
qed

lemma table_ports_proc_tcp:
  assumes "newline \<notin> set header" "\<forall>s \<in> set ss. proc_socket s"
  shows "table_ports (Some (proc_tcp Little header ss)) =
    local_port ` {s \<in> set ss. tcp_state s = 10 \<and> reached (local_addr s)}"
proof -
  have "lines (proc_tcp Little header ss) = map strip_cr (header # map (proc_tcp_line Little) ss)"
    unfolding proc_tcp_def using assms proc_tcp_line_char by (intro lines_concat) auto
  then have "drop 1 (lines (proc_tcp Little header ss)) = map (proc_tcp_line Little) ss"
    using assms(2) strip_cr_proc_tcp_line by simp
  then show ?thesis
    using assms(2) listening_port_line
    by (auto simp: table_ports_def set_filter_map split: if_splits)
qed


definition demo_socket :: "ip_addr \<Rightarrow> port \<Rightarrow> nat \<Rightarrow> tcp_socket" where
  "demo_socket a p st = \<lparr>padding = 3, slot = ''0:'', local_addr = a, local_port = p,
     remote = ''00000000:0000'', tcp_state = st, more_fields = []\<rparr>"

lemma demo_socket_proc: "st < 256 \<Longrightarrow> proc_socket (demo_socket a p st)"
  by (simp add: demo_socket_def proc_socket_def is_word_def is_ws_def)


text \<open>
  On a big-endian machine the kernel prints 127.0.0.1 as \<open>7F000001\<close>. It is not recognised there,
  and an address that ends in .127 is taken for loopback.
\<close>

lemma big_endian_misread:
  "is_loopback (hex_addr Big (V4 a)) \<longleftrightarrow> a = 0 \<or> a AND 0xff = 127"
  "\<not> is_loopback (hex_addr Big (V4 0x7F000001))" "is_loopback (hex_addr Big (V4 0x0A00007F))"
proof -
  have *: "is_loopback (hex_addr Big (V4 a)) \<longleftrightarrow> a = 0 \<or> a AND 0xff = 127" for a
    using word_at_hex8 [of "[]" a "[]"]
    by (simp add: is_loopback_def loopback_word_def ne_word_def to_ne_bytes_def from_be_bytes)
  show "is_loopback (hex_addr Big (V4 a)) \<longleftrightarrow> a = 0 \<or> a AND 0xff = 127"
    "\<not> is_loopback (hex_addr Big (V4 0x7F000001))" "is_loopback (hex_addr Big (V4 0x0A00007F))"
    unfolding * by simp_all
qed

section \<open>What a scan mirrors\<close>

text \<open>An effect that returns a value with \<open>Q\<close> and never an error.\<close>

definition gives :: "'a loop_steps \<Rightarrow> ('a \<Rightarrow> bool) \<Rightarrow> bool" where
  "gives m Q \<longleftrightarrow> (\<forall>s. \<exists>x t. m s = (Inr x, t) \<and> Q x)"

named_theorems gives_intros \<open>rules for gives\<close>

lemma givesD: "gives m Q \<Longrightarrow> \<exists>x t. m s = (Inr x, t) \<and> Q x"
  by (simp add: gives_def)

lemma gives_bind:
  assumes "gives m R" "\<And>x. R x \<Longrightarrow> gives (f x) Q"
  shows "gives (bindM m f) Q"
  unfolding gives_def
proof
  fix s
  obtain x u where "m s = (Inr x, u)" "R x" using givesD [OF assms(1)] by blast
  then show "\<exists>y t. bindM m f s = (Inr y, t) \<and> Q y"
    using givesD [OF assms(2), of x u] by (simp add: bindM_def)
qed

lemma gives_then [gives_intros]:
  "gives m (\<lambda>_. True) \<Longrightarrow> (\<And>x. gives (f x) Q) \<Longrightarrow> gives (bindM m f) Q"
  by (rule gives_bind)

lemma gives_return [gives_intros]: "Q x \<Longrightarrow> gives (returnM x) Q"
  by (simp add: gives_def script_simps)

lemma gives_ignore [gives_intros]: "gives (ignoreM m) (\<lambda>_. True)"
  by (simp add: gives_def script_simps)

lemma gives_try [gives_intros]: "gives (tryM m) (\<lambda>_. True)"
  by (simp add: gives_def tryM_def split: prod.splits)

lemma gives_forM [gives_intros]: "(\<And>x. gives (f x) (\<lambda>_. True)) \<Longrightarrow> gives (forM xs f) (\<lambda>_. True)"
  by (induction xs) (auto intro: gives_intros)

lemma gives_sum [gives_intros]:
  "(\<And>e. gives (f e) Q) \<Longrightarrow> (\<And>y. gives (g y) Q) \<Longrightarrow> gives (case r of Inl e \<Rightarrow> f e | Inr y \<Rightarrow> g y) Q"
  by (cases r) simp_all

lemma gives_option [gives_intros]:
  "gives m Q \<Longrightarrow> (\<And>y. gives (g y) Q) \<Longrightarrow> gives (case r of None \<Rightarrow> m | Some y \<Rightarrow> g y) Q"
  by (cases r) simp_all

lemma gives_if [gives_intros]: "gives m Q \<Longrightarrow> gives n Q \<Longrightarrow> gives (if b then m else n) Q"
  by simp

lemma gives_all_ok [gives_intros]: "gives (all_ok f xs) (\<lambda>_. True)"
  by (induction xs) (auto intro: gives_intros)

lemma gives_first_ok [gives_intros]: "gives (first_ok f xs) (\<lambda>_. True)"
  by (induction xs) (auto intro!: gives_intros)

lemma gives_listen_on [gives_intros]: "gives (listen_on E p) (\<lambda>_. True)"
  by (simp add: listen_on_def gives_intros)

lemma gives_connect_to [gives_intros]: "gives (connect_to E p) (\<lambda>_. True)"
  by (simp add: connect_to_def gives_intros)

lemma gives_request [gives_intros]: "gives (request E op p) (\<lambda>_. True)"
  by (simp add: gives_def request_def script_simps split: prod.splits sum.splits)

lemma gives_serve [gives_intros]: "gives (serve E m) (\<lambda>_. True)"
  unfolding serve_def by (intro gives_intros TrueI)

lemma mirrored_append [simp]: "mirrored inb (xs @ ys) = mirrored inb xs \<union> mirrored inb ys"
  by (auto simp: mirrored_def)

lemma mirrored_Nil [simp]: "mirrored inb [] = {}"
  by (simp add: mirrored_def)

lemma mirrored_new:
  "mirrored inb' (map (\<lambda>fd. \<lparr>listener = fd, at_port = p, inbound = inb\<rparr>) fds) =
     (if fds = [] \<or> inb' \<noteq> inb then {} else {p})"
  by (cases "inb' = inb") (auto simp: mirrored_def List.filter_map comp_def image_constant_conv)

lemma gives_open_mirrors:
  assumes "\<And>p. gives (mk p) (\<lambda>_. True)"
  shows "gives (open_mirrors inb mk ps) (\<lambda>ms. mirrored inb ms \<subseteq> set ps \<and> mirrored (\<not> inb) ms = {})"
proof (induction ps)
  case (Cons p ps)
  show ?case unfolding open_mirrors.simps
    by (rule gives_bind [OF assms], rule gives_bind [OF Cons])
      (rule gives_return, use mirrored_new in \<open>force simp: mirrored_new\<close>)
qed (simp add: gives_intros)

lemma gives_open_all:
  assumes "\<And>p. p \<in> set ps \<Longrightarrow> gives (mk p) (\<lambda>fds. fds \<noteq> [])"
  shows "gives (open_mirrors inb mk ps) (\<lambda>ms. mirrored inb ms = set ps \<and> mirrored (\<not> inb) ms = {})"
  using assms
proof (induction ps)
  case (Cons p ps)
  have "gives (open_mirrors inb mk ps) (\<lambda>ms. mirrored inb ms = set ps \<and> mirrored (\<not> inb) ms = {})"
    using Cons by simp
  note rest = this
  have "gives (mk p) (\<lambda>fds. fds \<noteq> [])" using Cons.prems by simp
  then show ?case unfolding open_mirrors.simps
    by (rule gives_bind, intro gives_bind [OF rest])
      (auto intro!: gives_return simp: mirrored_new)
qed (simp add: gives_intros)

lemma mirrored_filter:
  "mirrored inb (filter (\<lambda>m. if inbound m then at_port m \<in> I else at_port m \<in> Q) ms) =
     mirrored inb ms \<inter> (if inb then I else Q)"
  by (auto simp: mirrored_def)

text \<open>The order a loop visits a set in.\<close>

definition visits :: "(port set \<Rightarrow> port list) \<Rightarrow> bool" where
  "visits visit \<longleftrightarrow> (\<forall>S. set (visit S) = S)"

lemma gives_rescan:
  assumes "visits visit"
  shows "gives (rescan E visit hn cn ms) (\<lambda>ms'.
    mirrored False ms' \<subseteq> host_ports hn ms - container_ports cn ms \<and>
    mirrored True ms' \<subseteq> container_ports cn ms - host_ports hn ms)"
proof -
  have outs: "gives (open_mirrors False (request E OP_LISTEN) (visit S))
      (\<lambda>ms. mirrored False ms \<subseteq> S \<and> mirrored True ms = {})" for S
    using gives_open_mirrors [of "request E OP_LISTEN" False "visit S"] assms gives_request by (simp add: visits_def)
  have ins: "gives (open_mirrors True (listen_on E) (visit S))
      (\<lambda>ms. mirrored True ms \<subseteq> S \<and> mirrored False ms = {})" for S
    using gives_open_mirrors [of "listen_on E" True "visit S"] assms gives_listen_on by (simp add: visits_def)
  show ?thesis unfolding rescan_def Let_def
    by (rule gives_bind [OF gives_forM [OF gives_ignore]], rule gives_bind [OF outs], rule gives_bind [OF ins])
      (rule gives_return, unfold mirrored_append mirrored_filter host_ports_def container_ports_def, auto)
qed

lemma gives_rescan_all:
  assumes "visits visit"
    and "\<And>p. p \<in> host_ports hn ms - container_ports cn ms \<Longrightarrow> gives (request E OP_LISTEN p) (\<lambda>fds. fds \<noteq> [])"
    and "\<And>p. p \<in> container_ports cn ms - host_ports hn ms \<Longrightarrow> gives (listen_on E p) (\<lambda>fds. fds \<noteq> [])"
  shows "gives (rescan E visit hn cn ms) (\<lambda>ms'.
    mirrored False ms' = host_ports hn ms - container_ports cn ms \<and>
    mirrored True ms' = container_ports cn ms - host_ports hn ms)"
proof -
  let ?out = "host_ports hn ms - container_ports cn ms - mirrored False ms"
  let ?in = "container_ports cn ms - host_ports hn ms - mirrored True ms"
  have outs: "gives (open_mirrors False (request E OP_LISTEN) (visit ?out))
      (\<lambda>ms. mirrored False ms = ?out \<and> mirrored True ms = {})"
    using gives_open_all [of "visit ?out" "request E OP_LISTEN" False] assms by (simp add: visits_def)
  have ins: "gives (open_mirrors True (listen_on E) (visit ?in))
      (\<lambda>ms. mirrored True ms = ?in \<and> mirrored False ms = {})"
    using gives_open_all [of "visit ?in" "listen_on E" True] assms by (simp add: visits_def)
  show ?thesis unfolding rescan_def Let_def host_ports_def [symmetric] container_ports_def [symmetric]
    by (rule gives_bind [OF gives_forM [OF gives_ignore]], rule gives_bind [OF outs], rule gives_bind [OF ins])
      (rule gives_return, unfold mirrored_append mirrored_filter, auto)
qed

lemma rescan_settled:
  assumes "visits visit"
    and "mirrored False ms = host_ports hn ms - container_ports cn ms"
    and "mirrored True ms = container_ports cn ms - host_ports hn ms"
  shows "rescan E visit hn cn ms tr = (Inr ms, tr)"
proof -
  have "visit {} = []" using assms(1) by (metis visits_def set_empty)
  moreover have "at_port m \<in> (if inbound m then mirrored True ms else mirrored False ms)" if "m \<in> set ms" for m
    using that by (auto simp: mirrored_def)
  then have "\<forall>m \<in> set ms. if inbound m then at_port m \<in> container_ports cn ms - host_ports hn ms
      else at_port m \<in> host_ports hn ms - container_ports cn ms"
    using assms(2,3) by (metis (no_types, lifting))
  then have "filter (\<lambda>m. \<not> (if inbound m then at_port m \<in> container_ports cn ms - host_ports hn ms
        else at_port m \<in> host_ports hn ms - container_ports cn ms)) ms = []"
    "filter (\<lambda>m. if inbound m then at_port m \<in> container_ports cn ms - host_ports hn ms
        else at_port m \<in> host_ports hn ms - container_ports cn ms) ms = ms"
    by (simp_all only: filter_False filter_True not_not ball_simps)
  ultimately show ?thesis
    unfolding rescan_def Let_def host_ports_def [symmetric] container_ports_def [symmetric]
    using assms(2,3) by (simp add: script_simps)
qed

text \<open>C15: A scan always returns. When the host's services listen on \<open>H\<close> and the container's on \<open>C\<close>, and
  the ports that are on one side only can be opened on the other, then after one scan exactly the
  ports of \<open>H - C\<close> are mirrored into the container and those of \<open>C - H\<close> onto the host, whatever was
  mirrored before; and as long as the services stay the same, a further scan, which sees the
  mirrors' own sockets as well, changes nothing and makes no call.\<close>

theorem mirrors_settle:
  assumes "visits visit"
    and "listening_ports hn = H \<union> mirrored True ms" "H \<inter> mirrored True ms = {}"
    and "listening_ports cn = C \<union> mirrored False ms" "C \<inter> mirrored False ms = {}"
    and "\<And>p tr. p \<in> H - C \<Longrightarrow> fst (request E OP_LISTEN p tr) \<noteq> Inr []"
    and "\<And>p tr. p \<in> C - H \<Longrightarrow> fst (listen_on E p tr) \<noteq> Inr []"
    and "listening_ports hn' = H \<union> (C - H)" "listening_ports cn' = C \<union> (H - C)"
  shows "\<exists>ms' tr'. rescan E visit hn cn ms tr = (Inr ms', tr') \<and>
    mirrored False ms' = H - C \<and> mirrored True ms' = C - H \<and>
    rescan E visit hn' cn' ms' t = (Inr ms', t)"
proof -
  have H: "host_ports hn ms = H" "container_ports cn ms = C"
    using assms(2-5) by (auto simp: host_ports_def container_ports_def)
  have open': "gives m (\<lambda>fds. fds \<noteq> [])" if "gives m (\<lambda>_. True)" "\<And>tr. fst (m tr) \<noteq> Inr []" for m :: "nat list loop_steps"
    unfolding gives_def using that by (metis fst_conv givesD)
  have "gives (request E OP_LISTEN p) (\<lambda>fds. fds \<noteq> [])" if "p \<in> H - C" for p
    by (rule open' [OF gives_request]) (rule assms(6) [OF that])
  moreover have "gives (listen_on E p) (\<lambda>fds. fds \<noteq> [])" if "p \<in> C - H" for p
    by (rule open' [OF gives_listen_on]) (rule assms(7) [OF that])
  ultimately obtain ms' tr' where r: "rescan E visit hn cn ms tr = (Inr ms', tr')"
    and m: "mirrored False ms' = H - C" "mirrored True ms' = C - H"
    using givesD [OF gives_rescan_all [OF assms(1), of hn ms cn E, unfolded H], of tr] by blast
  moreover have "host_ports hn' ms' = H" "container_ports cn' ms' = C"
    using m assms(8,9) by (auto simp: host_ports_def container_ports_def)
  then have "rescan E visit hn' cn' ms' t = (Inr ms', t)"
    using m by (intro rescan_settled [OF assms(1)]) simp_all
  ultimately show ?thesis by blast
qed

definition demo_tcp :: "port list \<Rightarrow> tables" where
  "demo_tcp ps = (Some (proc_tcp Little ''sl'' (map (\<lambda>p. demo_socket (V4 0x7F000001) p 10) ps)), None)"

definition demo_env :: loop_env where
  "demo_env = \<lparr>kernel = (\<lambda>tr c. Inr (length tr)), replies = (\<lambda>tr. Inr (sent_reply [length tr]))\<rparr>"

lemma demo_tcp_ports: "listening_ports (demo_tcp ps) = set ps"
proof -
  have "v4_reached 0x7F000001" by code_simp
  moreover have "table_ports (fst (demo_tcp ps)) = local_port `
      {s \<in> set (map (\<lambda>p. demo_socket (V4 0x7F000001) p 10) ps). tcp_state s = 10 \<and> reached (local_addr s)}"
    unfolding demo_tcp_def fst_conv
    by (rule table_ports_proc_tcp) (auto simp: newline_def demo_socket_proc)
  ultimately have "table_ports (fst (demo_tcp ps)) = local_port ` set (map (\<lambda>p. demo_socket (V4 0x7F000001) p 10) ps)"
    by (auto simp: demo_socket_def)
  then show ?thesis
    by (simp add: listening_ports_def demo_tcp_def table_ports_def [of None] image_image demo_socket_def)
qed

lemma demo_env_opens:
  "fst (request demo_env op p tr) \<noteq> Inr []" "fst (listen_on demo_env p tr) \<noteq> Inr []"
  by (simp_all add: request_def demo_env_def script_simps listen_on_def loopback_addrs_def bindM_def
      tryM_def listen_on_addr_def loopback_socket_def owning_def)

lemma mirrors_settle_witness:
  "\<exists>ms' tr'. rescan demo_env sorted_list_of_set (demo_tcp [631, 80]) (demo_tcp [80, 3000]) [] [] = (Inr ms', tr') \<and>
    mirrored False ms' = {631} \<and> mirrored True ms' = {3000} \<and>
    rescan demo_env sorted_list_of_set (demo_tcp [631, 80, 3000]) (demo_tcp [80, 3000, 631]) ms' [] = (Inr ms', [])"
  using mirrors_settle [of sorted_list_of_set "demo_tcp [631, 80]" "{631, 80}" "[]" "demo_tcp [80, 3000]" "{80, 3000}"
      demo_env "demo_tcp [631, 80, 3000]" "demo_tcp [80, 3000, 631]" "[]" "[]"]
  by (simp add: visits_def demo_tcp_ports demo_env_opens insert_commute)

text \<open>Over a whole run no port is ever mirrored both ways.\<close>

lemma forward_turns_one_way:
  assumes "visits visit" "mirrored True ms \<inter> mirrored False ms = {}"
  shows "gives (forward_turns E visit ts ms due) (\<lambda>ms. mirrored True ms \<inter> mirrored False ms = {})"
  using assms(2)
proof (induction ts arbitrary: ms due)
  case (Cons t ts)
  have scan: "gives (if due \<le> started t
      then bindM (rescan E visit (host_tables t) (container_tables t) ms) (\<lambda>ms. returnM (ms, scanned t + SCAN_INTERVAL))
      else returnM (ms, due)) (\<lambda>(ms, due). mirrored True ms \<inter> mirrored False ms = {})"
    using Cons.prems
    by (auto intro!: gives_return gives_bind [OF gives_rescan [OF assms(1)]])
  show ?case unfolding forward_turns.simps
    by (rule gives_bind [OF scan])
      (auto intro!: gives_intros Cons.IH split: prod.splits sum.splits)
qed (auto intro: gives_intros)

lemma forward_loop_one_way:
  "visits visit \<Longrightarrow> gives (forward_loop E visit now turns) (\<lambda>ms. mirrored True ms \<inter> mirrored False ms = {})"
  by (simp add: forward_loop_def forward_turns_one_way)

end
