(* ===== verification/Cli.thy ===== *)
theory Cli
  imports Show Clean Sync Build Loopback
begin

text \<open>
  The command line, \<open>src/main.rs\<close>: what one invocation of the binary does, from its arguments. \<open>argp\<close>
  turning arguments into a command is a parameter. The state of an invocation is the files, the
  repository of app definitions and the calls of the loopback helper.
\<close>

section \<open>Commands\<close>

record check_cmd =
  check_all :: bool
  check_apps :: "string list"

record link_cmd =
  link_all :: bool
  force :: bool
  link_apps :: "string list"

record pull_cmd =
  pull_update :: bool
  pull_rebuild :: bool
  pull_app :: "string option"

record run_cmd =
  cmd :: "string list"

record show_cmd =
  no_defaults :: bool
  show_name :: string

record sync_cmd =
  sync_system :: bool

datatype cli_command =
    Check check_cmd | Clean_Up | Link link_cmd | List_Apps | Pull_Image pull_cmd | Run_Cmd run_cmd
  | Show_App show_cmd | Sync_Apps sync_cmd

record cli =
  version :: bool
  subcommand :: "cli_command option"

section \<open>Check, link and list\<close>

text \<open>How \<open>check\<close> and \<open>link\<close> choose their apps.\<close>

definition chosen_apps :: "host \<Rightarrow> string \<Rightarrow> bool \<Rightarrow> string list \<Rightarrow> string list io" where
  "chosen_apps h command_name every ns =
     (if every then app_names h
      else if ns = [] then failM (Bail (command_name @ '': specify one or more app names, or -a/--all''))
      else returnM ns)"

definition check_one :: "libs \<Rightarrow> seacomb \<Rightarrow> host \<Rightarrow> string \<Rightarrow> nat io" where
  "check_one L S h n =
     bindM (tryM (bindM (load L S h n) (\<lambda>cfg. liftM (check_definition h cfg)))) (\<lambda>r.
     case r of
       Inl err \<Rightarrow> bindM (eprint (n @ '': '' @ error_str err)) (\<lambda>_. returnM 1)
     | Inr _ \<Rightarrow> returnM 0)"

definition check_command :: "libs \<Rightarrow> seacomb \<Rightarrow> host \<Rightarrow> check_cmd \<Rightarrow> unit io" (* check *) where
  "check_command L S h c =
     bindM (chosen_apps h ''check'' (check_all c) (check_apps c)) (\<lambda>ns.
     bindM (mapM (check_one L S h) ns) (\<lambda>ks.
     let failed = sum_list ks in
     if failed > 0
     then failM (Bail (nat_str failed @ '' of '' @ nat_str (length ns) @ '' apps failed the check''))
     else returnM ()))"

definition create_symlink :: "path \<Rightarrow> path \<Rightarrow> bool \<Rightarrow> unit io" where
  "create_symlink target link forced =
     bindM (tryM (read_link link)) (\<lambda>existing.
     if existing = Inr target then returnM ()
     else
       bindM (tryM (symlink_metadata link)) (\<lambda>there.
       bindM (whenM (\<not> isl there)
         (if \<not> forced then failM (Bail (path_str link @ '' already exists (pass -f to replace)''))
          else remove_file link)) (\<lambda>_.
       contextM (''creating symlink '' @ path_str link) (symlink target link))))"

definition link_one :: "libs \<Rightarrow> seacomb \<Rightarrow> host \<Rightarrow> path \<Rightarrow> path \<Rightarrow> bool \<Rightarrow> string \<Rightarrow> unit io" where
  "link_one L S h dir target forced n =
     bindM (load_or_warn L S h n) (\<lambda>r.
     case r of
       None \<Rightarrow> returnM ()
     | Some _ \<Rightarrow>
         let link = join_str dir n in
         bindM (create_symlink target link forced) (\<lambda>_.
         println (''linked '' @ path_str link @ '' -> '' @ path_str target)))"

definition link_command :: "libs \<Rightarrow> seacomb \<Rightarrow> host \<Rightarrow> path res \<Rightarrow> link_cmd \<Rightarrow> unit io" (* link *) where
  "link_command L S h current_exe c =
     bindM (chosen_apps h ''link'' (link_all c) (link_apps c)) (\<lambda>ns.
     bindM (liftM (with_context ''resolving the CLImate executable'' current_exe)) (\<lambda>exe.
     case parent exe of
       None \<Rightarrow> panic ''executable path has a parent''
     | Some dir \<Rightarrow>
         (case file_name exe of
            None \<Rightarrow> panic ''executable path has a file name''
          | Some exe_name \<Rightarrow> forM ns (link_one L S h dir [Normal exe_name] (force c)))))"

definition pad_right :: "nat \<Rightarrow> string \<Rightarrow> string" where
  "pad_right col s = s @ replicate (col - length s) (CHR '' '')"

definition list_command :: "libs \<Rightarrow> seacomb \<Rightarrow> host \<Rightarrow> unit io" (* list *) where
  "list_command L S h =
     bindM (app_names h) (\<lambda>ns.
     bindM (mapM (load_or_warn L S h) ns) (\<lambda>rs.
     let cfgs = filter_map (\<lambda>r. r) rs;
         col = fold (\<lambda>cfg m. max m (length (name (app cfg)))) cfgs 0 in
     forM cfgs (\<lambda>cfg. println (pad_right col (name (app cfg)) @ ''  '' @ description (app cfg)))))"

section \<open>The main function\<close>

text \<open>What the arguments ask for. \<open>parse\<close> is \<open>None\<close> where \<open>argp\<close> has printed and ended the process.\<close>

datatype invocation =
    Run_App string "string list" | Do_Hook string | Do_Helper bool | Ended | Print_Version | Print_Help
  | Do_Command cli_command

definition app_link :: "string list \<Rightarrow> string option" where
  "app_link argv =
     (case argv of
        [] \<Rightarrow> None
      | argv0 # _ \<Rightarrow>
          (case file_name (path_of argv0) of
             None \<Rightarrow> None
           | Some n \<Rightarrow> if n \<noteq> ''climate'' then Some n else None))"

definition cli_action :: "(string list \<Rightarrow> cli option) \<Rightarrow> string list \<Rightarrow> invocation res" where
  "cli_action parse argv =
     (case parse argv of
        None \<Rightarrow> Inr Ended
      | Some c \<Rightarrow>
          if version c then Inr Print_Version
          else case subcommand c of None \<Rightarrow> Inr Print_Help | Some x \<Rightarrow> Inr (Do_Command x))"

definition action_of :: "(string list \<Rightarrow> cli option) \<Rightarrow> string list \<Rightarrow> invocation res" where
  "action_of parse argv =
     (case app_link argv of
        Some n \<Rightarrow> Inr (Run_App n (drop 1 argv))
      | None \<Rightarrow>
          (case drop 1 argv of
             [] \<Rightarrow> cli_action parse argv
           | a # others \<Rightarrow>
               if a = HOOK_ARG
               then and_then (option_context ''loopback hook: missing socket path'' (get 0 others)) (\<lambda>s. Inr (Do_Hook s))
               else if a = HELPER_ARG then Inr (Do_Helper (get 0 others = Some LOCALNET_ARG))
               else cli_action parse argv))"

record 'w setting =
  machine_of :: machine
  host_of :: host
  registry_of :: registry
  tokio_start :: "unit res"
  git_of :: "'w git"
  printer_of :: toml_printer
  loop_of :: loop_env
  helper_reads :: "8 word list res list"
  exe_of :: "path res"
  argp_parse :: "string list \<Rightarrow> cli option"
  help_text :: string
  version_text :: string

type_synonym 'w process = "(world \<times> 'w repo) \<times> loop_call trace"

text \<open>The parts of the state a command works on.\<close>

definition on_store :: "(world \<times> 'w repo, 'a) script \<Rightarrow> ('w process, 'a) script" where
  "on_store m s = (case m (fst s) of (x, u) \<Rightarrow> (x, (u, snd s)))"

definition on_files :: "'a io \<Rightarrow> ('w process, 'a) script" where
  "on_files m = on_store (around m)"

definition on_loop :: "'a loop_steps \<Rightarrow> ('w process, 'a) script" where
  "on_loop m s = (case m (snd s) of (x, u) \<Rightarrow> (x, (fst s, u)))"

text \<open>\<open>AppConfig::load\<close> and then \<open>run\<close>; the code is what the process exits with.\<close>

definition start_app :: "'w setting \<Rightarrow> string \<Rightarrow> string list \<Rightarrow> int io" where
  "start_app X n user_args =
     (let M = machine_of X; h = host_of X in
      bindM (load (libs_of M) (seacomb_of M) h n) (\<lambda>cfg.
      run_definition M h (ensure M h (registry_of X) (tokio_start X)) cfg user_args))"

definition finished :: "('s, unit) script \<Rightarrow> ('s, int option) script" where
  "finished m = bindM m (\<lambda>_. returnM None)"

definition perform_command :: "'w setting \<Rightarrow> cli_command \<Rightarrow> ('w process, int option) script" where
  "perform_command X c =
     (let M = machine_of X; h = host_of X; L = libs_of M; S = seacomb_of M in
      case c of
        Check k \<Rightarrow> finished (on_files (check_command L S h k))
      | Clean_Up \<Rightarrow> finished (on_files (clean L S (system_of M) h))
      | List_Apps \<Rightarrow> finished (on_files (list_command L S h))
      | Link k \<Rightarrow> finished (on_files (link_command L S h (exe_of X) k))
      | Pull_Image k \<Rightarrow>
          finished (on_files (pull_command M h (registry_of X) (tokio_start X) (pull_update k) (pull_rebuild k) (pull_app k)))
      | Run_Cmd k \<Rightarrow>
          (case cmd k of
             [] \<Rightarrow> failM (Bail ''run: missing app name'')
           | n # others \<Rightarrow> bindM (on_files (start_app X n others)) (\<lambda>code. returnM (Some code)))
      | Show_App k \<Rightarrow>
          finished (on_files (show_command (printer_of X) L S h (stdout_terminal M) (show_name k) (\<not> no_defaults k)))
      | Sync_Apps k \<Rightarrow> finished (on_store (sync (git_of X) h (sync_system k))))"

definition perform :: "'w setting \<Rightarrow> invocation \<Rightarrow> ('w process, int option) script" where
  "perform X a =
     (case a of
        Run_App n others \<Rightarrow> bindM (on_files (start_app X n others)) (\<lambda>code. returnM (Some code))
      | Do_Hook s \<Rightarrow> finished (on_loop (hook (loop_of X) s))
      | Do_Helper localnet \<Rightarrow> finished (on_loop (helper (loop_of X) localnet (helper_reads X)))
      | Ended \<Rightarrow> returnM None
      | Print_Version \<Rightarrow> finished (on_files (println (''CLImate '' @ version_text X)))
      | Print_Help \<Rightarrow> finished (on_files (println (help_text X)))
      | Do_Command c \<Rightarrow> perform_command X c)"

definition main_program :: "'w setting \<Rightarrow> string list \<Rightarrow> ('w process, int option) script" (* main *) where
  "main_program X argv = bindM (liftM (action_of (argp_parse X) argv)) (perform X)"

section \<open>What a link changes\<close>

text \<open>A place next to the binary that is free, or given up, now holds a link to the binary, or nothing if that failed.\<close>

definition only_links :: "path \<Rightarrow> string \<Rightarrow> bool \<Rightarrow> fs \<Rightarrow> fs \<Rightarrow> bool" where
  "only_links dir e forced f0 f \<longleftrightarrow> (\<forall>q. node_at f q = node_at f0 q \<or>
     (\<exists>n. valid_name n \<and> q = dir @ [Normal n] \<and> (forced \<or> node_at f0 q = None) \<and>
        (node_at f q = Some (Symlink [Normal e]) \<or> forced \<and> node_at f q = None)))"

lemma only_links_symlink:
  assumes "valid_name n"
  shows "keeps (\<lambda>w. only_links dir e forced f0 (fs w)) (symlink [Normal e] (dir @ [Normal n]))"
proof -
  have "only_links dir e forced f0 (set_node (dir @ [Normal n]) (Symlink [Normal e]) f)"
    if f: "only_links dir e forced f0 f" "node_at f (dir @ [Normal n]) = None" for f
  proof -
    have "forced \<or> node_at f0 (dir @ [Normal n]) = None"
      using f unfolding only_links_def by metis
    with f(1) assms show ?thesis by (auto simp: only_links_def node_at_set_node)
  qed
  then show ?thesis unfolding symlink_def by (intro keeps_prim) (auto split: option.splits)
qed

lemma only_links_remove:
  assumes "valid_name n" forced
  shows "keeps (\<lambda>w. only_links dir e forced f0 (fs w)) (remove_file (dir @ [Normal n]))"
  unfolding remove_file_def using assms
  by (intro keeps_prim) (auto simp: only_links_def node_at_del_node split: option.splits node.splits)

lemma keeps_create_symlink:
  assumes "valid_name n"
  shows "keeps (\<lambda>w. only_links dir e forced f0 (fs w)) (create_symlink [Normal e] (dir @ [Normal n]) forced)"
  unfolding create_symlink_def
  by (cases forced) (simp_all, (intro keeps_intros only_links_symlink only_links_remove assms; simp)+)

lemma load_valid:
  assumes "load_or_warn L S h n w = (Inr (Some cfg), t)"
  shows "valid_name n"
proof -
  from assms obtain r u where r: "load L S h n w = (r, u)"
    "(case r of Inr cfg \<Rightarrow> returnM (Some cfg)
      | Inl err \<Rightarrow> bindM (eprint (''skipping '' @ n @ '': '' @ error_str err)) (\<lambda>_. returnM None)) u = (Inr (Some cfg), t)"
    unfolding load_or_warn_def bindM_Inr by auto
  then obtain c where "load L S h n w = (Inr c, u)" by (cases r) (auto simp: bindM_Inr script_simps)
  then obtain x v where "read_app h n w = (Inr x, v)" unfolding load_def load_with_raw_def bindM_Inr by blast
  then show ?thesis by (auto simp: read_app_def bindM_Inr script_simps validate_app_name_def split: if_splits)
qed

lemma keeps_link_one:
  "keeps (\<lambda>w. only_links dir e forced f0 (fs w)) (link_one L S h dir [Normal e] forced n)"
proof (rule keepsI)
  fix s r t assume s: "only_links dir e forced f0 (fs s)" and r: "link_one L S h dir [Normal e] forced n s = (r, t)"
  obtain x u where x: "load_or_warn L S h n s = (x, u)" by fastforce
  have u: "only_links dir e forced f0 (fs u)" using keepsD [OF keeps_load_or_warn _ x, of "only_links dir e forced f0"] s by simp
  show "only_links dir e forced f0 (fs t)"
  proof (cases "\<exists>cfg. x = Inr (Some cfg)")
    case True
    then have n: "valid_name n" using x load_valid by blast
    have j: "join_str dir n = dir @ [Normal n]" using valid_name_plain(3) [OF n] by (rule join_plain)
    define m where "m = bindM (create_symlink [Normal e] (dir @ [Normal n]) forced)
      (\<lambda>_. println (''linked '' @ path_str (dir @ [Normal n]) @ '' -> '' @ path_str [Normal e]))"
    have k: "keeps (\<lambda>w. only_links dir e forced f0 (fs w)) m"
      unfolding m_def by (intro keeps_intros keeps_create_symlink n)
    have "m u = (r, t)" using True x r unfolding link_one_def Let_def j m_def by (auto simp: bindM_runs)
    then show ?thesis using keepsD [OF k u] by simp
  next
    case False
    with x r u show ?thesis by (auto simp: link_one_def bindM_def script_simps split: sum.splits option.splits)
  qed
qed

lemma link_command_named:
  "link_command L S h (Inr (dir @ [Normal e])) c =
     bindM (chosen_apps h ''link'' (link_all c) (link_apps c)) (\<lambda>ns. forM ns (link_one L S h dir [Normal e] (force c)))"
  by (simp add: link_command_def)


section \<open>A link over the binary\<close>

lemma follow_self: "node_at f (d @ [Normal e]) = Some (Symlink [Normal e]) \<Longrightarrow> follow k f (d @ [Normal e]) = None"
  by (induction k) (auto simp: join_def is_absolute_def)

text \<open>C38: \<open>climate link -f\<close> for an app named like the binary's own file replaces the binary by a link to
  itself, after which no call finds a program there.\<close>

theorem link_replaces_binary:
  assumes "no_faults w" "config_of L S h (fs w) e = Some cfg"
    and "node_at (fs w) (d @ [Normal e]) = Some (File b)" "node_at (fs w) d = Some (Dir m)" "writable m"
    and "valid_name e"
  shows "\<exists>t. link_command L S h (Inr (d @ [Normal e])) \<lparr>link_all = False, force = True, link_apps = [e]\<rparr> w = (Inr (), t) \<and>
     node_at (fs t) (d @ [Normal e]) = Some (Symlink [Normal e]) \<and> stat (fs t) (d @ [Normal e]) = None"
proof -
  let ?p = "d @ [Normal e]"
  obtain u where u: "load_or_warn L S h e w = (Inr (Some cfg), u)" "fs u = fs w" "no_faults u"
    using readingD [OF reading_load_or_warn assms(1)] assms(2) by metis
  have 1: "read_link ?p u = (Inl (Io ''Invalid argument''), u\<lparr>tick := Suc (tick u)\<rparr>)"
    using u(2,3) assms(3) by (simp add: read_link_def query_def prim_no_faults)
  let ?u1 = "u\<lparr>tick := Suc (tick u)\<rparr>" 
  have 2: "symlink_metadata ?p ?u1 = (Inr (File b), ?u1\<lparr>tick := Suc (tick ?u1)\<rparr>)"
    using u(2,3) assms(3) by (simp add: symlink_metadata_def query_def prim_no_faults)
  let ?u2 = "?u1\<lparr>tick := Suc (tick ?u1)\<rparr>"
  have 3: "remove_file ?p ?u2 = (Inr (), ?u2\<lparr>tick := Suc (tick ?u2), fs := del_node ?p (fs w)\<rparr>)"
    using u(2,3) assms(3-5) by (simp add: remove_file_def prim_no_faults parent_error_def)
  let ?u3 = "?u2\<lparr>tick := Suc (tick ?u2), fs := del_node ?p (fs w)\<rparr>"
  have 4: "symlink [Normal e] ?p ?u3 = (Inr (), ?u3\<lparr>tick := Suc (tick ?u3), fs := set_node ?p (Symlink [Normal e]) (del_node ?p (fs w))\<rparr>)"
    using u(2,3) assms(4,5) by (simp add: symlink_def prim_no_faults parent_error_def node_at_del_node)
  have j: "join_str d e = ?p" using valid_name_plain(3) [OF assms(6)] by (rule join_plain)
  define t where "t = ?u3\<lparr>tick := Suc (tick ?u3), fs := set_node ?p (Symlink [Normal e]) (del_node ?p (fs w))\<rparr>"
  have "create_symlink [Normal e] ?p True u = (Inr (), t)"
    using 1 2 3 4 unfolding t_def by (simp add: create_symlink_def bindM_def tryM_def contextM_def script_simps)
  then have "\<exists>t'. link_command L S h (Inr ?p) \<lparr>link_all = False, force = True, link_apps = [e]\<rparr> w = (Inr (), t') \<and> fs t' = fs t"
    using u(1) by (simp add: link_command_named chosen_apps_def link_one_def bindM_def script_simps j println_def Let_def)
  moreover have "node_at (fs t) ?p = Some (Symlink [Normal e])" by (simp add: t_def node_at_set_node)
  ultimately show ?thesis using follow_self [of "fs t" d e 41] by (auto simp: stat_def)
qed

section \<open>A check of every app\<close>

definition passes :: "libs \<Rightarrow> seacomb \<Rightarrow> host \<Rightarrow> fs \<Rightarrow> string \<Rightarrow> bool" where
  "passes L S h f n \<longleftrightarrow> (\<exists>cfg. config_of L S h f n = Some cfg \<and> check_definition h cfg = Inr ())"

lemma reading_fail [readings]: "reading (failM e) (\<lambda>_. Inl e)"
  by (simp add: reading_def script_simps)

lemma reading_chosen [readings]:
  "reading (chosen_apps h what every ns) (\<lambda>f. if every then Inr (apps_of h f)
     else if ns = [] then Inl (Bail (what @ '': specify one or more app names, or -a/--all'')) else Inr ns)"
  unfolding chosen_apps_def by (rule readings)+

lemma reading_check_one [readings]:
  "reading (check_one L S h n) (\<lambda>f. Inr (if passes L S h f n then 0 else 1))"
  unfolding check_one_def
  by (rule reading_cong, (rule readings)+)
    (auto simp: passes_def config_of_def and_then_def split: sum.splits prod.splits)

lemma sum_list_fails: "sum_list (map (\<lambda>n. if Q n then 0 else 1) ns) = (0 :: nat) \<longleftrightarrow> (\<forall>n \<in> set ns. Q n)"
  by (induction ns) auto


section \<open>Which names lead where\<close>

text \<open>The arguments of the helper as \<open>Forwarder::start\<close> gives them: the first is the path of the binary.\<close>

definition helper_argv :: "path \<Rightarrow> bool \<Rightarrow> string list" where
  "helper_argv exe localnet = [path_str exe, HELPER_ARG] @ (if localnet then [LOCALNET_ARG] else [])"

definition plain_path :: "path \<Rightarrow> bool" where
  "plain_path p \<longleftrightarrow> (\<exists>ns. p = RootDir # map Normal ns \<and> list_all plain_name ns)"

lemma path_of_str:
  assumes "plain_path p" "p \<noteq> [RootDir]"
  shows "path_of (path_str p) = p"
proof -
  obtain ns where ns: "p = RootDir # map Normal ns" "list_all plain_name ns" "ns \<noteq> []"
    using assms by (auto simp: plain_path_def)
  have str: "path_str p = join_on ''/'' ([] # ns)"
    using ns(1,3) by (simp add: path_str_def comp_def)
  have "\<forall>x \<in> set ([] # ns). CHR ''/'' \<notin> set x" using ns(2) by (auto simp: list_all_iff plain_name_def)
  then have "split_on (CHR ''/'') (path_str p) = [] # ns" using split_join_on [of "[] # ns"] str by simp
  moreover have "starts_with ''/'' (path_str p)" using ns(3) by (cases ns) (auto simp: str starts_with_def)
  moreover have "filter_map component_of ns = map Normal ns"
    using ns(2) by (induction ns) (auto simp: plain_name_def component_of_def)
  ultimately show ?thesis using ns(1) by (simp add: path_of_def component_of_def)
qed

text \<open>C34: The hook a run installs always reaches the bridge's hook with its socket, whatever the binary is called.
  The helper the run spawns reaches the helper only where the binary's file is named \<open>climate\<close>: under any other
  name the helper's process tries to run an app of that name instead, as \<open>argv[0]\<close> is the binary's
  path. The same rule makes a link of another name run the app of its name.\<close>

theorem halves_dispatch:
  assumes "install_hook sys exe socket s tr = (Inr s', tr')" "plain_path exe" "file_name exe = Some e"
  shows "(\<exists>hk. spec_hooks s' = Some [hk] \<and> hook_path hk = exe \<and>
            action_of parse (hook_args hk) = Inr (Do_Hook (path_str socket))) \<and>
         action_of parse (helper_argv exe localnet) =
           Inr (if e = ''climate'' then Do_Helper localnet else Run_App e (tl (helper_argv exe localnet)))"
proof
  have "path_of ''climate'' = [Normal ''climate'']" by (rule path_of_plain) (simp add: plain_name_def)
  then have "action_of parse [''climate'', HOOK_ARG, p] = Inr (Do_Hook p)" for p
    by (simp add: action_of_def app_link_def file_name_def get_def)
  then show "\<exists>hk. spec_hooks s' = Some [hk] \<and> hook_path hk = exe \<and>
      action_of parse (hook_args hk) = Inr (Do_Hook (path_str socket))"
    using assms(1) by (auto simp: install_hook_def bindM_Inr script_simps)
  have "exe \<noteq> [RootDir]" using assms(3) by (auto simp: file_name_def)
  then have "file_name (path_of (path_str exe)) = Some e" using path_of_str [OF assms(2)] assms(3) by simp
  then show "action_of parse (helper_argv exe localnet) =
      Inr (if e = ''climate'' then Do_Helper localnet else Run_App e (tl (helper_argv exe localnet)))"
    by (simp add: action_of_def app_link_def helper_argv_def HELPER_ARG_def HOOK_ARG_def LOCALNET_ARG_def get_def)
qed

section \<open>Examples\<close>

theorem halves_dispatch_witness:
  "action_of (\<lambda>_. None) (helper_argv [RootDir, Normal ''b'', Normal ''climate-2''] True) =
     Inr (Run_App ''climate-2'' [HELPER_ARG, LOCALNET_ARG])"
proof -
  let ?exe = "[RootDir, Normal ''b'', Normal ''climate-2'']" and ?s = "demo_rootless 0 0"
  have 1: "install_hook (\<lambda>_ _. Inr 0) ?exe [] ?s [] =
      (Inr (?s\<lparr>spec_hooks := Some [\<lparr>hook_path = ?exe, hook_args = [''climate'', HOOK_ARG, path_str []]\<rparr>]\<rparr>), [Current_Exe])"
    by (simp add: install_hook_def bindM_def contextM_def script_simps)
  have "?exe = RootDir # map Normal [''b'', ''climate-2'']" "list_all plain_name [''b'', ''climate-2'']"
    by (simp_all add: plain_name_def)
  then have 2: "plain_path ?exe" unfolding plain_path_def by (intro exI conjI)
  have 3: "file_name ?exe = Some ''climate-2''" by (simp add: file_name_def)
  show ?thesis using halves_dispatch [OF 1 2 3, of "\<lambda>_. None" True] by (simp add: helper_argv_def)
qed


definition demo_bin_fs :: fs where
  "demo_bin_fs = ([RootDir, Normal ''b''], Dir 0x1ED) # ([RootDir, Normal ''b'', Normal ''x''], File ''elf'') # demo_apps_fs"

theorem link_replaces_binary_witness:
  "stat (fs (snd (link_command demo_read_libs demo_seacomb demo_apps_host (Inr [RootDir, Normal ''b'', Normal ''x''])
     \<lparr>link_all = False, force = True, link_apps = [''x'']\<rparr> (demo_world demo_bin_fs)))) [RootDir, Normal ''b'', Normal ''x''] = None"
proof -
  let ?w = "demo_world demo_bin_fs"
  have w: "no_faults ?w" "fs ?w = demo_bin_fs" by (simp_all add: demo_world_def no_faults_def)
  have "stat demo_bin_fs demo_app_path = Some (File ''base'')" "stat demo_bin_fs demo_override_path = Some (File ''over'')"
    by (simp_all add: stat_def follow.simps numeral_eq_Suc demo_bin_fs_def demo_apps_fs_def node_at_def demo_app_path_def demo_override_path_def)
  then have "stated demo_read_libs demo_apps_host demo_bin_fs ''x'' demo_raw"
    by (intro demo_stated) (simp_all add: demo_read_libs_def)
  then have c: "config_of demo_read_libs demo_seacomb demo_apps_host (fs ?w) ''x'' = Some demo_loaded"
    unfolding w(2) using demo_acceptable demo_valid by (intro config_of_SomeI)
  have n: "node_at (fs ?w) ([RootDir, Normal ''b''] @ [Normal ''x'']) = Some (File ''elf'')"
    "node_at (fs ?w) [RootDir, Normal ''b''] = Some (Dir 0x1ED)"
    unfolding w(2) by (simp_all add: demo_bin_fs_def node_at_def)
  have "writable 0x1ED" by (simp add: writable_def)
  from link_replaces_binary [OF w(1) c n this demo_valid] show ?thesis by auto
qed


end
