(* ===== verification/Pulled.thy ===== *)
theory Pulled
  imports Build Image_Gc
begin

text \<open>
  What pulling an image is for: the runs after it. A run resolves its app's image from the store
  alone, and what a successful download leaves there is enough for that.
\<close>

section \<open>The image a record stands for\<close>

text \<open>The abstract image of a manifest digest: the layers its manifest lists, and its configuration.\<close>

definition image_at :: "libs \<Rightarrow> path \<Rightarrow> fs \<Rightarrow> string \<Rightarrow> image \<Rightarrow> bool" where
  "image_at L s f D img \<longleftrightarrow>
     (\<exists>p c m q b. filed ''blobs'' s D p \<and> node_at f p = Some (File c) \<and> manifest_of L c = Inr m \<and>
        filed ''blobs'' s (digest (man_config m)) q \<and> node_at f q = Some (File b) \<and>
        settings_of L b = Inr (img_config img) \<and> img_layers img = map digest (man_layers m))"

lemma stat_node: "node_at f p = Some (File c) \<Longrightarrow> stat f p = Some (File c)"
  by (simp add: stat_def numeral_eq_Suc)

text \<open>\<open>returns m f x\<close>: where the files are \<open>f\<close> and no call fails, \<open>m\<close> returns \<open>x\<close> and writes nothing.\<close>

definition returns :: "'a io \<Rightarrow> fs \<Rightarrow> 'a \<Rightarrow> bool" where
  "returns m f x \<longleftrightarrow> (\<forall>w. fs w = f \<and> no_faults w \<longrightarrow> (\<exists>t. m w = (Inr x, t) \<and> fs t = f \<and> no_faults t))"

lemma returns_reading: "reading m q \<Longrightarrow> q f = Inr x \<Longrightarrow> returns m f x"
  by (fastforce simp: returns_def dest: readingD)

lemma returns_bind: "returns m f x \<Longrightarrow> returns (k x) f y \<Longrightarrow> returns (bindM m k) f y"
  unfolding returns_def by (metis bindM_runs)

lemma returns_return: "returns (returnM x) f x"
  by (simp add: returns_def script_simps)

lemma returns_lift: "returns (liftM (Inr x)) f x"
  by (simp add: returns_def script_simps)

lemma returns_context: "returns m f x \<Longrightarrow> returns (contextM msg m) f x"
  by (fastforce simp: returns_def contextM_def)

lemma returns_try: "returns m f x \<Longrightarrow> returns (tryM m) f (Inr x)"
  by (fastforce simp: returns_def tryM_def)

lemma returns_exists: "node_at f p = Some (File c) \<Longrightarrow> returns (path_exists p) f True"
  unfolding path_exists_def by (rule returns_reading [OF reading_asking]) (simp add: stat_node)

lemma returns_file: "node_at f p = Some (File c) \<Longrightarrow> returns (read_file p) f c"
  by (rule returns_reading [OF reading_file]) (simp add: stat_node)

lemma ref_marker_there:
  assumes "store_dir h = Inr s" "proper_ref r"
  shows "ref_marker h r = Inr (ref_path s (marker_name r))"
  using assms by (simp add: ref_marker_def proper_ref_def join_plain plain_areas marker_plain ref_path_def)

lemma returns_has_ref:
  assumes "store_dir h = Inr s" "proper_ref r" "node_at f (ref_path s (marker_name r)) = Some (File D)"
  shows "returns (has_ref h r) f True"
  unfolding has_ref_def using ref_marker_there [OF assms(1,2)] assms(3) by (simp add: returns_exists)

lemma returns_read_ref:
  assumes "store_dir h = Inr s" "proper_ref r" "node_at f (ref_path s (marker_name r)) = Some (File D)"
  shows "returns (read_ref h r) f (Some D)"
proof -
  have "returns (tryM (read_file (ref_path s (marker_name r)))) f (Inr D)"
    by (intro returns_try returns_file assms(3))
  then show ?thesis unfolding read_ref_def ref_marker_there [OF assms(1,2)]
    by simp (rule returns_bind, assumption, simp add: returns_return)
qed

lemma returns_read_blob:
  assumes "store_dir h = Inr s" "filed ''blobs'' s d p" "node_at f p = Some (File c)"
  shows "returns (read_blob h d) f c"
proof -
  have "blob_path h d = Inr p" using assms(1,2) by (simp add: blob_path_Inr)
  with assms(3) show ?thesis unfolding read_blob_def by (simp add: returns_context returns_file)
qed

lemma returns_ensure:
  assumes "store_dir h = Inr s" "proper_ref r" "node_at f (ref_path s (marker_name r)) = Some (File D)"
    and "parse_reference (libs_of M) (reference (image_cfg cfg)) = Some r" "install (image_cfg cfg) = None"
  shows "returns (ensure M h R started cfg False False) f ()"
proof (cases "pull (image_cfg cfg)")
  case True
  have "returns (fetch (libs_of M) h R started (reference (image_cfg cfg)) False) f ()"
    unfolding fetch_def assms(4) using returns_bind [OF returns_has_ref [OF assms(1-3)] _, of "\<lambda>b. if b then returnM () else _"]
    by (simp add: returns_return)
  with True assms(5) show ?thesis by (simp add: ensure_def)
qed (simp add: ensure_def assms(5) returns_return)

text \<open>A record with a complete image behind it is all a run looks at, pulled images or not.\<close>

lemma returns_resolve:
  assumes s: "store_dir h = Inr s" "proper_ref r" and D: "node_at f (ref_path s (marker_name r)) = Some (File D)"
    and cfg: "parse_reference (libs_of M) (reference (image_cfg cfg)) = Some r" "install (image_cfg cfg) = None"
    and img: "image_at (libs_of M) s f D img"
  shows "returns (resolve_image (libs_of M) h (ensure M h R started) cfg) f img"
proof -
  let ?L = "libs_of M"
  obtain p c m q b where i: "filed ''blobs'' s D p" "node_at f p = Some (File c)" "manifest_of ?L c = Inr m"
    "filed ''blobs'' s (digest (man_config m)) q" "node_at f q = Some (File b)" "settings_of ?L b = Inr (img_config img)"
    "img_layers img = map digest (man_layers m)"
    using img unfolding image_at_def by blast
  have "returns (bindM (contextM x (liftM (manifest_of ?L c))) (\<lambda>m. returnM (Some m))) f (Some m)" for x
    unfolding i(3) by (rule returns_bind [OF returns_context [OF returns_lift] returns_return])
  then have "returns (bindM (read_blob h D) (\<lambda>bytes. bindM (contextM x (liftM (manifest_of ?L bytes))) (\<lambda>m. returnM (Some m))))
      f (Some m)" for x
    by (rule returns_bind [OF returns_read_blob [OF s(1) i(1,2)]])
  then have man: "returns (read_manifest ?L h r) f (Some m)"
    unfolding read_manifest_def by (intro returns_bind [OF returns_read_ref [OF s D]]) simp
  have "returns (contextM x (liftM (settings_of ?L b))) f (img_config img)" for x
    by (rule returns_context) (simp add: i(6) returns_lift del: liftM_simps)
  then have conf: "returns (image_config ?L h r m) f (img_config img)"
    unfolding image_config_def by (rule returns_bind [OF returns_read_blob [OF s(1) i(4,5)]])
  have key: "image_key ?L cfg = Inr r" using cfg by (simp add: image_key_def)
  have "returns (bindM (image_config ?L h r m) (\<lambda>config. returnM \<lparr>img_layers = map digest (man_layers m), img_config = config\<rparr>)) f img"
  proof -
    have "\<lparr>img_layers = map digest (man_layers m), img_config = img_config img\<rparr> = img" using i(7) by (cases img) simp
    with returns_bind [OF conf, of "\<lambda>config. returnM \<lparr>img_layers = map digest (man_layers m), img_config = config\<rparr>"]
    show ?thesis using returns_return by metis
  qed
  then show ?thesis
    unfolding resolve_image_def key
    by (intro returns_bind [OF returns_lift] returns_bind [OF returns_ensure [OF s D cfg]] returns_bind [OF man]) simp
qed

text \<open>C11: After a pull that succeeded, whatever calls failed along the way, a run of an app of that image needs no
  registry: the record names a complete image, and resolving it writes nothing, asks the registry nothing,
  and gives exactly the image of the recorded manifest, all of whose layers are in the store.\<close>

theorem pulled_runs_offline:
  assumes "archives_ordered L" "store_dir h = Inr s" "registry_ok L R blob" "proper_ref r"
    and "store_ok L blob s (fs w)" "untorn (fault w)" "fetch_image L h R r w = (Inr u, t)"
    and "fs v = fs t" "no_faults v" "libs_of M = L"
    and "parse_reference L (reference (image_cfg cfg)) = Some r" "install (image_cfg cfg) = None"
  shows "\<exists>D. node_at (fs v) (ref_path s (marker_name r)) = Some (File D) \<and> image_in L s (fs v) D \<and>
     (\<forall>img. image_at L s (fs v) D img \<longrightarrow>
        (\<exists>x. resolve_image L h (ensure M h R' started) cfg v = (Inr img, x) \<and> fs x = fs v) \<and>
        (\<forall>d \<in> set (img_layers img). present ''layers'' s (fs v) d))"
proof -
  have refs: "refs_whole L s (fs w)" using assms(5) by (simp add: store_ok_def)
  have g: "going L blob s (fs w) w"
    using assms(5,6) by (simp add: going_def images_ok_def grow_ok_def store_ok_def)
  obtain D where D: "node_at (fs v) (ref_path s (marker_name r)) = Some (File D)" "image_in L s (fs v) D"
    using triple_Inr [OF fetch_image_triple [OF assms(1-4) refs] g assms(7)] assms(8) by auto
  have "(\<exists>x. resolve_image L h (ensure M h R' started) cfg v = (Inr img, x) \<and> fs x = fs v) \<and>
        (\<forall>d \<in> set (img_layers img). present ''layers'' s (fs v) d)" if img: "image_at L s (fs v) D img" for img
  proof
    have "returns (resolve_image (libs_of M) h (ensure M h R' started) cfg) (fs v) img"
      using img assms(11,12) unfolding assms(10) [symmetric]
      by (intro returns_resolve [OF assms(2,4) D(1)]) simp_all
    with assms(9,10) show "\<exists>x. resolve_image L h (ensure M h R' started) cfg v = (Inr img, x) \<and> fs x = fs v"
      unfolding returns_def by auto
    show "\<forall>d \<in> set (img_layers img). present ''layers'' s (fs v) d"
    proof -
      obtain p c m p' c' m' where "filed ''blobs'' s D p" "node_at (fs v) p = Some (File c)" "manifest_of L c = Inr m"
        "\<forall>l \<in> set (man_layers m). present ''layers'' s (fs v) (digest l)"
        "filed ''blobs'' s D p'" "node_at (fs v) p' = Some (File c')" "manifest_of L c' = Inr m'"
        "img_layers img = map digest (man_layers m')"
        using D(2) img unfolding image_in_def image_at_def by blast
      moreover from this have "p' = p" by (blast intro: filed_unique)
      ultimately show ?thesis by simp
    qed
  qed
  with D show ?thesis by blast
qed


lemma demo_fetch: "fst (fetch_image demo_image_libs demo_host demo_registry ''r'' (demo_world demo_store_fs)) = Inr ()"
  by code_simp

theorem pulled_runs_offline_witness:
  "\<exists>D. node_at (fs (snd (fetch_image demo_image_libs demo_host demo_registry ''r'' (demo_world demo_store_fs))))
      (ref_path demo_images ''r'') = Some (File D) \<and>
     image_in demo_image_libs demo_images (fs (snd (fetch_image demo_image_libs demo_host demo_registry ''r''
       (demo_world demo_store_fs)))) D"
proof -
  let ?w = "demo_world demo_store_fs"
  let ?t = "snd (fetch_image demo_image_libs demo_host demo_registry ''r'' ?w)"
  have a: "archives_ordered demo_image_libs"
    by (auto simp: archives_ordered_def demo_image_libs_def demo_libs_def)
  have s: "store_dir demo_host = Inr demo_images" by (simp add: demo_store demo_images_def)
  have p: "proper_ref ''r''" by (simp add: proper_ref_def)
  have w: "store_ok demo_image_libs (\<lambda>_. ''content'') demo_images (fs ?w)" "untorn (fault ?w)"
    by (simp_all add: demo_world_def untorn_def demo_store_ok)
  have f: "fetch_image demo_image_libs demo_host demo_registry ''r'' ?w = (Inr (), ?t)"
    using demo_fetch by (metis prod.collapse)
  have v: "fs (?t\<lparr>fault := (\<lambda>_. None)\<rparr>) = fs ?t" "no_faults (?t\<lparr>fault := (\<lambda>_. None)\<rparr>)"
    by (simp_all add: no_faults_def)
  have m: "libs_of (demo_machine\<lparr>libs_of := demo_image_libs\<rparr>) = demo_image_libs" by simp
  have c: "parse_reference demo_image_libs (reference (image_cfg (demo_app []\<lparr>image_cfg := \<lparr>reference = ''r'', pull = True, install = None\<rparr>\<rparr>))) = Some ''r''"
    "install (image_cfg (demo_app []\<lparr>image_cfg := \<lparr>reference = ''r'', pull = True, install = None\<rparr>\<rparr>)) = None"
    by (simp_all add: demo_image_libs_def demo_libs_def)
  have "marker_name ''r'' = ''r''" by (simp add: marker_name_def replace_char_def)
  with pulled_runs_offline [OF a s demo_registry_ok p w f v m c, of demo_registry "Inr ()"] show ?thesis by auto
qed

end
