(* ===== verification/Streams.thy ===== *)
theory Streams
  imports Session Localnet
begin

text \<open>
  The loops that move bytes: the copy between the terminal and the container and the resizing of the
  container's terminal (\<open>src/runtime.rs\<close>), and the TUN device as a stream of packets
  (\<open>src/localnet.rs\<close>). What a read or a wait returns is a list of events; at its end nothing
  more has come yet. The last section holds the last step before the app, the filter.
\<close>

section \<open>Copying a stream\<close>

text \<open>What reads return: bytes, none at the end of the stream; an interruption; or another error.\<close>

datatype read_event = Got string | Interrupted | Read_Error

record 's sink =
  write_all :: "string \<Rightarrow> 's \<Rightarrow> unit res \<times> 's"
  flush :: "'s \<Rightarrow> unit res \<times> 's"

fun copy_stream :: "'s sink \<Rightarrow> read_event list \<Rightarrow> 's \<Rightarrow> 's" (* copy *) where
  "copy_stream W [] s = s"
| "copy_stream W (Got bytes # rs) s =
     (if bytes = [] then s
      else case write_all W bytes s of
        (Inl _, s) \<Rightarrow> s
      | (Inr _, s) \<Rightarrow>
          (case flush W s of
             (Inl _, s) \<Rightarrow> s
           | (Inr _, s) \<Rightarrow> copy_stream W rs s))"
| "copy_stream W (Interrupted # rs) s = copy_stream W rs s"
| "copy_stream W (Read_Error # rs) s = s"

text \<open>Whether a stream leads to the null device: the device numbers of the stream and of \<open>/dev/null\<close>.\<close>

definition is_dev_null :: "nat res \<Rightarrow> nat res \<Rightarrow> bool" where
  "is_dev_null stream null = (case (stream, null) of (Inr a, Inr b) \<Rightarrow> a = b | _ \<Rightarrow> False)"

text \<open>The pipe whose reading end a thread copies to nowhere; the writing end is returned.\<close>

definition null_sink :: "unit sink" where
  "null_sink = \<lparr>write_all = (\<lambda>_ s. (Inr (), s)), flush = (\<lambda>s. (Inr (), s))\<rparr>"

definition discard_pipe :: "(nat \<times> nat) res \<Rightarrow> (nat \<Rightarrow> read_event list) \<Rightarrow> (nat \<times> unit) res" where
  "discard_pipe pipe reads =
     and_then (with_context ''creating a discard pipe'' pipe) (\<lambda>(reader, writer).
       Inr (writer, copy_stream null_sink (reads reader) ()))"

text \<open>
  The two threads of \<open>pump\<close>: input to the master, and the master to the output. Each has a duplicate
  of the master; that making one fails is not expected, and ends the process.
\<close>

definition pump_streams ::
  "unit res \<Rightarrow> unit res \<Rightarrow> 's sink \<Rightarrow> 't sink \<Rightarrow> read_event list \<Rightarrow> read_event list \<Rightarrow> 's \<times> 't \<Rightarrow> unit res \<times> 's \<times> 't"
  (* pump *) where
  "pump_streams writer reader master out input output s =
     (case writer of
        Inl _ \<Rightarrow> (Inl (Ext ''panic: duplicating the pty master for input''), s)
      | Inr _ \<Rightarrow>
          let s = (copy_stream master input (fst s), snd s) in
          case reader of
            Inl _ \<Rightarrow> (Inl (Ext ''panic: duplicating the pty master for output''), s)
          | Inr _ \<Rightarrow> (Inr (), fst s, copy_stream out output (snd s)))"

section \<open>The size of the terminal\<close>

record winsize =
  ws_row :: "16 word"
  ws_col :: "16 word"
  ws_xpixel :: "16 word"
  ws_ypixel :: "16 word"

definition window_size :: "winsize res \<Rightarrow> winsize" where
  "window_size r = (case r of Inr s \<Rightarrow> s | Inl _ \<Rightarrow> \<lparr>ws_row = 0, ws_col = 0, ws_xpixel = 0, ws_ypixel = 0\<rparr>)"

text \<open>
  The thread of the resize forwarder: each read of the pipe, with the size the terminal has then; the
  result is the sizes the master is set to, one after the other.
\<close>

fun resize_thread :: "(read_event \<times> winsize res) list \<Rightarrow> winsize list" where
  "resize_thread [] = []"
| "resize_thread ((Got bytes, now) # rs) = (if bytes = [] then [] else window_size now # resize_thread rs)"
| "resize_thread ((Interrupted, now) # rs) = resize_thread rs"
| "resize_thread ((Read_Error, now) # rs) = []"

section \<open>The TUN device\<close>

text \<open>One round of waiting for the descriptor: an error, or ready and what the call on it then says, \<open>None\<close> where it would block.\<close>

datatype 'a round = Not_Ready | Watch_Error error | Tried "'a res option"

datatype 'a poll = Pending | Ready "'a res"

fun poll_loop :: "'a round list \<Rightarrow> 'a poll" where
  "poll_loop [] = Pending"
| "poll_loop (Not_Ready # rs) = Pending"
| "poll_loop (Watch_Error e # rs) = Ready (Inl e)"
| "poll_loop (Tried (Some r) # rs) = Ready r"
| "poll_loop (Tried None # rs) = poll_loop rs"

text \<open>A read fills the buffer with one packet; a write passes the whole buffer as one.\<close>

definition poll_read :: "string round list \<Rightarrow> string \<Rightarrow> unit poll \<times> string" where
  "poll_read rs buf =
     (case poll_loop rs of
        Pending \<Rightarrow> (Pending, buf)
      | Ready (Inl e) \<Rightarrow> (Ready (Inl e), buf)
      | Ready (Inr packet) \<Rightarrow> (Ready (Inr ()), buf @ packet))"

definition poll_write :: "(string \<Rightarrow> nat round) list \<Rightarrow> string \<Rightarrow> nat poll" where
  "poll_write rs buf = poll_loop (map (\<lambda>r. r buf) rs)"

text \<open>\<open>start\<close>: the runtime, then the device watched in it, then the relay on it.\<close>

definition start_relay :: "unit res \<Rightarrow> nat res \<Rightarrow> nat res" (* localnet::start *) where
  "start_relay runtime watched =
     and_then (with_context ''starting the LAN relay'' runtime) (\<lambda>_.
     with_context ''watching the TUN device'' watched)"

section \<open>What reaches the other side\<close>

text \<open>The bytes of a stream up to its end or an error, over interruptions.\<close>

fun received :: "read_event list \<Rightarrow> string" where
  "received [] = []"
| "received (Got bytes # rs) = (if bytes = [] then [] else bytes @ received rs)"
| "received (Interrupted # rs) = received rs"
| "received (Read_Error # rs) = []"

definition appending :: "string sink" where
  "appending = \<lparr>write_all = (\<lambda>b s. (Inr (), s @ b)), flush = (\<lambda>s. (Inr (), s))\<rparr>"

text \<open>A sink that writes whole, part or nothing of what it is given, and says so.\<close>

definition honest :: "string sink \<Rightarrow> bool" where
  "honest W \<longleftrightarrow>
     (\<forall>b s. case write_all W b s of (Inr _, t) \<Rightarrow> t = s @ b | (Inl _, t) \<Rightarrow> (\<exists>k. t = s @ take k b)) \<and>
     (\<forall>s. snd (flush W s) = s)"

lemma copy_appends: "copy_stream appending rs s = s @ received rs"
  by (induction appending rs s rule: copy_stream.induct) (simp_all add: appending_def)

text \<open>Nothing is lost in the middle, repeated or reordered, whatever fails: the other side has a prefix.\<close>

lemma copy_prefix:
  assumes "honest W"
  shows "\<exists>k. copy_stream W rs s = s @ take k (received rs)"
  using assms
proof (induction W rs s rule: copy_stream.induct)
  case (2 W bytes rs s)
  show ?case
  proof (cases "bytes = []")
    case False
    obtain r t where w: "write_all W bytes s = (r, t)" by fastforce
    obtain q u where f: "flush W t = (q, u)" by fastforce
    have u: "u = t" using f 2(2) by (metis honest_def snd_conv)
    have h: "case (r, t) of (Inr _, t) \<Rightarrow> t = s @ bytes | (Inl _, t) \<Rightarrow> (\<exists>k. t = s @ take k bytes)"
    proof -
      have "case write_all W bytes s of (Inr _, t) \<Rightarrow> t = s @ bytes | (Inl _, t) \<Rightarrow> (\<exists>k. t = s @ take k bytes)"
        using 2(2) [unfolded honest_def, THEN conjunct1, THEN spec, THEN spec] .
      then show ?thesis unfolding w .
    qed
    show ?thesis
    proof (cases r)
      case (Inl e)
      with h obtain k where "t = s @ take k bytes" by auto
      with w Inl False show ?thesis
        by (intro exI [of _ "min k (length bytes)"]) (simp add: min_def)
    next
      case (Inr x)
      with h have t: "t = s @ bytes" by simp
      show ?thesis
      proof (cases q)
        case (Inl e)
        with w f Inr u t False show ?thesis by (intro exI [of _ "length bytes"]) simp
      next
        case (Inr y)
        obtain k where "copy_stream W rs u = u @ take k (received rs)"
          using 2(1) [OF False w [symmetric] \<open>r = Inr x\<close> f [symmetric] Inr 2(2)] by blast
        with w f \<open>r = Inr x\<close> Inr u t False show ?thesis by (intro exI [of _ "length bytes + k"]) simp
      qed
    qed
  qed simp
qed auto

section \<open>The filter\<close>

datatype exec_call = Install_Filter | Exec_App

definition filtered_exec :: "(exec_call trace \<Rightarrow> exec_call \<Rightarrow> unit res) \<Rightarrow> (exec_call trace, unit) script"
  (* FilteredExecutor::exec *) where
  "filtered_exec sys =
     bindM (contextM ''installing the seccomp filter'' (call sys Install_Filter)) (\<lambda>_. call sys Exec_App)"

lemma filter_before_app:
  "Exec_App \<in> set (snd (filtered_exec sys [])) \<longleftrightarrow> (\<exists>u. sys [] Install_Filter = Inr u)"
  by (cases "sys [] Install_Filter") (auto simp: filtered_exec_def bindM_def contextM_def script_simps)

end
