(* ===== verification/Dist.thy ===== *)
theory Dist
  imports Cli
begin

text \<open>
  The release builds, \<open>xtask/src/main.rs\<close>: the version of the package, one build per target, and a copy of the
  binary under a name of its own. What \<open>cargo\<close> does is a parameter. The copy's name is not the
  one \<open>main\<close> knows, which the last section looks at.
\<close>

section \<open>The code\<close>

record cargo =
  cargo_output :: "path \<Rightarrow> string list \<Rightarrow> (bool \<times> string \<times> string) res"   \<comment> \<open>success, the status and the output\<close>
  cargo_status :: "path \<Rightarrow> string list \<Rightarrow> (bool \<times> string) io"              \<comment> \<open>success and the status\<close>
  debug_str :: "string \<Rightarrow> string"

definition NAME :: string where "NAME = ''climate''"

definition TARGETS :: "string list" where
  "TARGETS = [''aarch64-unknown-linux-gnu'', ''x86_64-unknown-linux-gnu'']"

text \<open>Errors are their text here, \<open>map_err(|e| e.to_string())\<close>.\<close>

definition as_text :: "'a io \<Rightarrow> 'a io" where
  "as_text m w = (case m w of (Inl e, t) \<Rightarrow> (Inl (Ext (error_str e)), t) | (Inr x, t) \<Rightarrow> (Inr x, t))"

definition after_last :: "char list \<Rightarrow> string \<Rightarrow> string" (* rsplit(..).next() *) where
  "after_last seps s = rev (takeWhile (\<lambda>c. c \<notin> set seps) (rev s))"

definition dist_version :: "cargo \<Rightarrow> path \<Rightarrow> string io" (* version *) where
  "dist_version C root =
     bindM (as_text (liftM (cargo_output C root [''pkgid'', NAME]))) (\<lambda>(ok, status, out).
     if \<not> ok then failM (Ext (''cargo pkgid failed: '' @ status))
     else
       let v = after_last ''#@'' (trim out) in
       if v \<noteq> [] then returnM v else failM (Ext (''cannot parse version from '' @ debug_str C out)))"

definition out_name :: "string \<Rightarrow> string \<Rightarrow> string" where
  "out_name v tgt = NAME @ ''-'' @ v @ ''-'' @ tgt"

text \<open>\<open>fs::copy\<close>, a read and a write: the model's files have no permissions to copy.\<close>

definition copy_file :: "path \<Rightarrow> path \<Rightarrow> unit io" where
  "copy_file a b = bindM (read_file a) (write_file b)"

definition build_target :: "cargo \<Rightarrow> path \<Rightarrow> string \<Rightarrow> string \<Rightarrow> unit io" (* build *) where
  "build_target C root v tgt =
     bindM (as_text (cargo_status C root [''zigbuild'', ''--release'', ''--package'', NAME, ''--target'', tgt])) (\<lambda>(ok, status).
     if \<not> ok then failM (Ext (''cargo zigbuild failed for '' @ tgt @ '': '' @ status))
     else
       let out = join_str (join_str root ''target'') (out_name v tgt) in
       bindM (tryM (remove_file out)) (\<lambda>r.
       bindM (case r of
           Inl e \<Rightarrow> if e \<noteq> not_found then failM (Ext (error_str e)) else returnM ()
         | Inr _ \<Rightarrow> returnM ()) (\<lambda>_.
       let binary = join_str (join_str (join_str (join_str root ''target'') tgt) ''release'') NAME in
       as_text (copy_file binary out))))"

definition dist :: "cargo \<Rightarrow> path \<Rightarrow> unit io" where
  "dist C manifest_dir =
     bindM (liftM (case parent manifest_dir of None \<Rightarrow> Inl (Ext ''xtask has no parent dir'') | Some root \<Rightarrow> Inr root)) (\<lambda>root.
     bindM (dist_version C root) (\<lambda>v.
     forM TARGETS (build_target C root v)))"

text \<open>The result is whether the process reports success.\<close>

definition xtask_main :: "cargo \<Rightarrow> path \<Rightarrow> string list \<Rightarrow> bool io" (* main *) where
  "xtask_main C manifest_dir argv =
     bindM (tryM (if get 1 argv = Some ''dist'' then dist C manifest_dir else failM (Ext ''usage: cargo dist''))) (\<lambda>r.
     case r of
       Inr _ \<Rightarrow> returnM True
     | Inl err \<Rightarrow> bindM (eprint (''error: '' @ error_str err)) (\<lambda>_. returnM False))"

section \<open>Versions\<close>

lemma after_last_append:
  assumes "c \<in> set seps" "set v \<inter> set seps = {}"
  shows "after_last seps (a @ c # v) = v"
proof -
  have "takeWhile (\<lambda>c. c \<notin> set seps) (rev v @ c # rev a) = rev v"
    using assms by (subst takeWhile_append2) auto
  then show ?thesis by (simp add: after_last_def)
qed

text \<open>Both forms of a package id, \<open>...#version\<close> and \<open>...#name@version\<close>.\<close>

lemma dist_version_reads:
  assumes "cargo_output C root [''pkgid'', NAME] = Inr (True, status, out)" "trim out = a @ c # v" "c \<in> set ''#@''" "set v \<inter> set ''#@'' = {}" "v \<noteq> []"
  shows "dist_version C root w = (Inr v, w)"
  using assms after_last_append [OF assms(3,4), of a]
  by (simp add: dist_version_def as_text_def bindM_def script_simps Let_def)

section \<open>What a built binary does\<close>

text \<open>
  A binary run under the name it was built with is taken for a link to an app: it runs no command,
  whatever its arguments, and neither does it when it starts itself as the helper.
\<close>

lemma built_binary_runs_app:
  assumes "plain_path root" "plain_name (out_name v tgt)"
  shows "action_of parse (path_str (root @ [Normal ''target'', Normal (out_name v tgt)]) # args') =
     Inr (Run_App (out_name v tgt) args')"
proof -
  let ?p = "root @ [Normal ''target'', Normal (out_name v tgt)]"
  obtain ns where ns: "root = RootDir # map Normal ns" "list_all plain_name ns" using assms(1) by (auto simp: plain_path_def)
  then have "?p = RootDir # map Normal (ns @ [''target'', out_name v tgt])" "list_all plain_name (ns @ [''target'', out_name v tgt])"
    using assms(2) by (auto simp: plain_name_def)
  then have "plain_path ?p" unfolding plain_path_def by blast
  then have "path_of (path_str ?p) = ?p" by (rule path_of_str) simp
  moreover have "out_name v tgt \<noteq> ''climate''" by (simp add: out_name_def NAME_def)
  moreover have "file_name ?p = Some (out_name v tgt)" by (simp add: file_name_def)
  ultimately show ?thesis by (simp add: action_of_def app_link_def)
qed

end
