(* ===== verification/Confined.thy ===== *)
theory Confined
  imports Clean
begin

text \<open>
  Where downloading an image and cleaning up write: below the store, or below the runtime
  directory's three directories of runs, and nowhere else.
\<close>

section \<open>The store's operations work in the store\<close>

text \<open>Neither below the store nor one of the directories that lead to it.\<close>

definition outside_store :: "path \<Rightarrow> path \<Rightarrow> bool" where
  "outside_store s q \<longleftrightarrow> \<not> under s q \<and> \<not> under q s"

lemma not_outside: "under s q \<Longrightarrow> \<not> outside_store s q" "under q s \<Longrightarrow> \<not> outside_store s q"
  by (simp_all add: outside_store_def)

lemma under_chain: "under q (s @ r) \<Longrightarrow> under q s \<or> under s q"
  by (auto simp: under_iff append_eq_append_conv2)

text \<open>What every operation of the store keeps: an invariant that the store's own files do not bear on.\<close>

locale store_apart = protected P I for P :: "path \<Rightarrow> bool" and I :: "fs \<Rightarrow> bool" +
  fixes s :: path
  assumes apart_store: "P q \<Longrightarrow> outside_store s q"
begin

lemma in_store: "\<not> P (s @ r)" "under q (s @ r) \<Longrightarrow> \<not> P q" "under (s @ r) q \<Longrightarrow> \<not> P q"
  using apart_store [of "s @ r"] apart_store [of q] under_chain [of q s r] under_longer [of s r q]
  by (auto simp: outside_store_def)

lemma keeps_dir: "keeps (\<lambda>w. I (fs w)) (create_dir_all (s @ r))"
  by (rule create_dir_all) (blast dest: in_store(2))

lemma keeps_parent: "keeps (\<lambda>w. I (fs w)) (create_parent (s @ r @ [Normal c]))"
  unfolding create_parent_def
  using keeps_dir [of r] by (auto simp: parent_def butlast_append intro!: keeps_intros)

lemma keeps_rename: "keeps (\<lambda>w. I (fs w)) (rename (s @ a) (s @ b))"
  by (rule rename) (blast dest: in_store(3))

lemma keeps_blob:
  assumes "store_dir h = Inr s"
  shows "keeps (\<lambda>w. I (fs w)) (write_blob h d c)"
proof (cases "blob_path h d")
  case (Inr p)
  then obtain a x where p: "p = s @ [Normal ''blobs'', Normal a] @ [Normal x]"
    using assms by (auto simp: blob_path_Inr filed_def)
  show ?thesis unfolding write_blob_def Inr liftM_simps bindM_simps p
    by (intro keeps_intros keeps_parent write_file in_store(1))
qed (simp add: write_blob_def keeps_fail)

lemma keeps_record:
  assumes "store_dir h = Inr s" "proper_ref r"
  shows "keeps (\<lambda>w. I (fs w)) (record_ref h r d)"
proof -
  have "ref_marker h r = Inr (s @ [Normal ''refs''] @ [Normal (marker_name r)])"
    using assms by (simp add: ref_marker_def proper_ref_def join_plain plain_areas marker_plain)
  then show ?thesis unfolding record_ref_def
    by (auto intro!: keeps_intros keeps_parent [of "[Normal ''refs'']", simplified] write_file in_store(1))
qed

lemma keeps_extract:
  assumes "store_dir h = Inr s"
  shows "keeps (\<lambda>w. I (fs w)) (extract_layer L h temp d mt)"
  by (rule extract_layer_keeps [OF assms])
    ((intro conjI keeps_intros keeps_dir keeps_rename remove_tree unpack; auto dest: in_store(2,3)), intro keeps_intros)

text \<open>The temporary file of a download lies directly in the store.\<close>

lemma temp_in_store:
  assumes "store_dir h = Inr s" "CHR ''/'' \<notin> set tag"
  shows "triple (\<lambda>w. I (fs w)) (temp_path h tag) (\<lambda>temp w. I (fs w) \<and> temp_of s temp) (\<lambda>w. I (fs w))"
proof -
  have 1: "keeps (\<lambda>w. I (fs w)) (contextM m (create_dir_all s))" for m
    using keeps_dir [of "[]"] by (auto intro: keeps_intros)
  have 2: "triple (\<lambda>w. I (fs w)) (unique_id h)
      (\<lambda>i w. I (fs w) \<and> temp_of s (join_str s (download_name (tag @ ''-'' @ i)))) E" for E
  proof -
    have "plain_name (download_name (tag @ ''-'' @ nat_str m @ ''-'' @ nat_str k))" for m k
      using assms(2) plain_digits by (auto simp: plain_name_def download_name_def)
    then show ?thesis unfolding triple_def unique_id_def temp_of_def
      by (auto simp: join_plain simp del: append_Cons)
  qed
  show ?thesis unfolding temp_path_def assms(1) liftM_simps bindM_simps
    by (rule triple_bind [OF keeps_into [OF 1]], assumption, rule triple_bind [OF 2],
        rule triple_weaken [OF triple_return]) auto
qed

lemma keeps_with_temp:
  assumes "store_dir h = Inr s" "CHR ''/'' \<notin> set tag" "\<And>temp. temp_of s temp \<Longrightarrow> keeps (\<lambda>w. I (fs w)) (k temp)"
  shows "keeps (\<lambda>w. I (fs w)) (bindM (temp_path h tag) k)"
proof -
  have "triple (\<lambda>w. I (fs w) \<and> temp_of s temp) (k temp) (\<lambda>_ w. I (fs w)) (\<lambda>w. I (fs w))" for temp
    using assms(3) [of temp] by (cases "temp_of s temp") (auto simp: keeps_triple triple_false)
  then show ?thesis unfolding keeps_triple by (rule triple_bind [OF temp_in_store [OF assms(1,2)]])
qed

lemma keeps_download: "temp_of s temp \<Longrightarrow> keeps (\<lambda>w. I (fs w)) (download_blob R ref d temp)"
  unfolding download_blob_def temp_of_def
  by (auto intro!: keeps_intros keeps_at_tick write_file in_store(1))

lemma keeps_fetch_layer:
  assumes "store_dir h = Inr s"
  shows "keeps (\<lambda>w. I (fs w)) (fetch_layer L h R ref d)"
  unfolding fetch_layer_def
  by (rule keeps_with_temp [OF assms])
    (auto simp: temp_of_def intro!: keeps_intros keeps_download keeps_extract [OF assms] remove_file in_store(1))

lemma keeps_fetch_config:
  assumes "store_dir h = Inr s"
  shows "keeps (\<lambda>w. I (fs w)) (fetch_config h R ref d)"
proof -
  have "keeps (\<lambda>w. I (fs w)) (commit_blob h temp (digest d))" if t: "temp_of s temp" for temp
  proof (cases "blob_path h (digest d)")
    case (Inr p)
    then obtain a x where p: "p = s @ [Normal ''blobs'', Normal a] @ [Normal x]"
      using assms by (auto simp: blob_path_Inr filed_def)
    obtain y where "temp = s @ [y]" using t by (auto simp: temp_of_def)
    then show ?thesis unfolding commit_blob_def Inr liftM_simps bindM_simps p
      by (auto intro!: keeps_intros keeps_parent [of "[Normal ''blobs'', Normal a]", simplified] keeps_rename)
  qed (simp add: commit_blob_def keeps_fail)
  then show ?thesis unfolding fetch_config_def has_blob_def
    by (intro keeps_intros keeps_with_temp [OF assms] keeps_download) simp_all
qed

lemma keeps_fetch_image:
  assumes "store_dir h = Inr s" "proper_ref ref"
  shows "keeps (\<lambda>w. I (fs w)) (fetch_image L h R ref)"
proof -
  have "keeps (\<lambda>w. I (fs w)) (pending_layers h ds)" for ds
    by (induction ds) (auto simp: has_layer_def intro!: keeps_intros)
  then show ?thesis unfolding fetch_image_def
    by (auto intro!: keeps_intros keeps_at_tick keeps_blob [OF assms(1)] keeps_fetch_config [OF assms(1)]
        keeps_fetch_layer [OF assms(1)] keeps_record [OF assms])
qed

lemma keeps_fetch:
  assumes "store_dir h = Inr s" "\<And>ref. parse_reference L r = Some ref \<Longrightarrow> proper_ref ref"
  shows "keeps (\<lambda>w. I (fs w)) (fetch L h R started r update)"
proof (cases "parse_reference L r")
  case (Some ref)
  then show ?thesis unfolding fetch_def has_ref_def
    by (auto simp: option_context_def intro!: keeps_intros keeps_fetch_image [OF assms(1,2)])
qed (simp add: fetch_def option_context_def keeps_fail)

lemma keeps_gc:
  assumes "store_dir h = Inr s"
  shows "keeps (\<lambda>w. I (fs w)) (gc_images L h)"
proof -
  have 1: "keeps (\<lambda>w. I (fs w)) (sweep_blob bs (s @ r) a n)" for bs r a n
    unfolding sweep_blob_def using in_store(1) [of "r @ [Normal a, Normal n]"]
    by (intro keeps_intros remove_file) simp
  have 2: "keeps (\<lambda>w. I (fs w)) (sweep_layer ls (s @ r) a n)" for ls r a n
    unfolding sweep_layer_def using in_store(3) [of "r @ [Normal a, Normal n]"]
    by (intro keeps_intros remove_tree) simp
  have 3: "keeps (\<lambda>w. I (fs w)) (sweep_download s n)" for n
    unfolding sweep_download_def by (intro keeps_intros remove_file in_store(1))
  show ?thesis unfolding gc_images_def assms liftM_simps bindM_simps sweep_def
    by (auto simp: join_plain plain_areas intro!: keeps_intros keeps_live_set keeps_area 1 2 3 split: sum.split)
qed

lemma keeps_orphans:
  assumes "store_dir h = Inr s"
  shows "keeps (\<lambda>w. I (fs w)) (drop_orphan_refs L S h)"
proof -
  have 1: "keeps (\<lambda>w. I (fs w)) (drop_ref (s @ [Normal ''refs'']) live n)" for live n
    unfolding drop_ref_def using in_store(1) [of "[Normal ''refs'', Normal n]"]
    by (intro keeps_intros remove_file) simp
  show ?thesis unfolding drop_orphan_refs_def assms liftM_simps bindM_simps live_markers_def
    by (simp add: join_plain plain_areas) (intro keeps_intros 1)
qed

end

text \<open>
  Two invariants the store's files do not bear on: what lies beside the store is unchanged, and, for a
  clean, what lies beside it and the directories of runs.
\<close>

interpretation beside_store: store_apart "outside_store s" "same_on (outside_store s) f0" s for s f0
  by unfold_locales

definition user_place :: "host \<Rightarrow> path \<Rightarrow> path \<Rightarrow> bool" where
  "user_place h s q \<longleftrightarrow> outside_store s q \<and> outside_runs h q"

interpretation user_files: store_apart "user_place h s" "same_on (user_place h s) f0" s for h s f0
  by unfold_locales (simp add: user_place_def)

section \<open>Nothing of the user's is touched\<close>

lemma fetch_frozen:
  assumes "store_dir h = Inr s" "\<And>ref. parse_reference L r = Some ref \<Longrightarrow> proper_ref ref"
  shows "same_on (outside_store s) (fs w) (fs (snd (fetch L h R started r update w)))"
  using beside_store.keeps_fetch [OF assms, where ?f0.0 = "fs w"] by (simp add: keeps_def)

lemma clean_frozen:
  assumes "store_dir h = Inr s" "local_calls Y"
  shows "same_on (user_place h s) (fs w) (fs (snd (clean L S Y h w)))"
proof -
  have "keeps (\<lambda>v. same_on (user_place h s) (fs w) (fs v)) (prune_runtime Y h)"
  proof (rule keepsI)
    fix v r t assume v: "same_on (user_place h s) (fs w) (fs v)" and t: "prune_runtime Y h v = (r, t)"
    have "same_on (user_place h s) (fs v) (fs t)"
      using prune_runtime_frozen [OF assms(2) t] by (simp add: same_on_def spared_def user_place_def)
    with v show "same_on (user_place h s) (fs w) (fs t)" by (rule same_on_trans)
  qed
  then have "keeps (\<lambda>v. same_on (user_place h s) (fs w) (fs v)) (clean L S Y h)"
    unfolding clean_def by (intro keeps_intros user_files.keeps_orphans user_files.keeps_gc assms(1))
  then show ?thesis by (simp add: keeps_def)
qed

text \<open>
  C8: whatever calls fail, and whatever a registry or a manifest says, downloading an image changes
  nothing outside the image store, and a clean nothing outside the store and the three directories
  of runs: definitions, overrides and the user's own files are as they were. The directories that
  lead to the store may be made; entries of an archive that would leave the layer through a link are
  the archive library's to refuse.
\<close>

theorem writes_confined:
  assumes "store_dir h = Inr s" "local_calls Y" "\<forall>ref. parse_reference L r = Some ref \<longrightarrow> proper_ref ref"
  shows "same_on (outside_store s) (fs w) (fs (snd (fetch L h R started r update w))) \<and>
         same_on (user_place h s) (fs w) (fs (snd (clean L S Y h w)))"
  using fetch_frozen [OF assms(1)] clean_frozen [OF assms(1,2)] assms(3) by blast

theorem writes_confined_witness:
  "node_at (fs (snd (fetch demo_clean_libs demo_host demo_registry (Inr ()) ''r'' True (demo_world demo_clean_fs))))
     demo_app_path = Some (File ''base'') \<and>
   node_at (fs (snd (clean demo_clean_libs demo_seacomb demo_system demo_host (demo_world demo_clean_fs)))) demo_app_path =
     Some (File ''base'')"
proof -
  have s: "store_dir demo_host = Inr demo_images" by (simp add: demo_store demo_images_def)
  have r: "\<forall>ref. parse_reference demo_clean_libs ''r'' = Some ref \<longrightarrow> proper_ref ref"
    by (simp add: demo_clean_libs_def demo_image_libs_def demo_libs_def proper_ref_def)
  have "outside_store demo_images demo_app_path" "outside_runs demo_host demo_app_path"
    by (auto simp: outside_store_def outside_runs_def demo_images_def demo_app_path_def under_iff runtime_dir_def
        demo_host_def join_plain plain_name_def)
  moreover have "node_at demo_clean_fs demo_app_path = Some (File ''base'')"
    by (simp add: node_at_def demo_clean_fs_def demo_app_path_def)
  ultimately show ?thesis
    using writes_confined [OF s demo_system_local r, of "demo_world demo_clean_fs" demo_registry "Inr ()" True demo_seacomb]
    by (simp add: same_on_def user_place_def demo_world_def)
qed

end
