(* ===== verification/Spec2Isabelle.thy ===== *)
theory Spec2Isabelle
  imports Signals Cli Pulled Streams Dist Confined
begin

text \<open>
  CLImate (\<open>src/src/*.rs\<close>) runs command-line tools from container images without root. An app is a TOML file;
  running it pulls its image if need be, mounts the image's layers with fuse-overlayfs, builds an OCI spec and
  a seccomp filter, and starts a container in this process through a library. This development models the
  Rust sources function by function and proves what keeps the parts correct.

  \<^bold>\<open>How effects are modelled.\<close> A fallible function returns \<open>'a res\<close>, an error or a value
  (\<open>Climate_Prelude\<close>; \<open>?\<close> is \<open>and_then\<close> or \<open>bindM\<close>, \<open>context\<close> is \<open>with_context\<close> or \<open>contextM\<close>). An effect is a
  \<open>script\<close>, from a state to a result and a state. Three states are used:
  \<^item> \<open>world\<close> (\<open>Filesystem\<close>): the files, the output, and a schedule of faults that lets any call fail, before it does
    anything or half way through. Statements without \<open>no_faults\<close> hold whichever calls fail; as every prefix of a
    run is a run with a fault, they cover a process killed at any point as well.
  \<^item> a trace of calls (\<open>Session\<close>, \<open>Localnet\<close>, \<open>Loopback\<close>): the kernel's answer to a call is any function of the calls
    before it.
  \<^item> a step relation (\<open>Signals\<close>), where a signal may arrive between any two steps.
  A \<open>panic!\<close> or \<open>expect\<close> is an error that says so.

  \<^bold>\<open>The theories, in the order of their imports.\<close>
  \<^item> \<open>Climate_Prelude\<close>: errors, strings and numbers of the standard library, scripts, and the two ways to prove things of
    them: \<open>keeps\<close> (an invariant, collected in \<open>keeps_intros\<close>) and \<open>triple\<close> (with one postcondition for success and one for
    failure). \<open>Paths\<close>: \<open>std::path\<close>. \<open>Filesystem\<close>: \<open>std::fs\<close>; the locale \<open>protected\<close> is the interface between the
    file system and an invariant over a part of it: whatever works elsewhere keeps it. It is interpreted for
    the layers, the blobs and records, and for plain stillness (\<open>frozen\<close>).
  \<^item> \<open>Host\<close>: what a process finds around it, and the parameters for the libraries. \<open>App_Config\<close>: the structs of
    \<open>config.rs\<close>, how serde fills them, and \<open>merge\<close>. \<open>Limits\<close> and \<open>Launch_Spec\<close>: \<open>spec.rs\<close>.
    \<open>Seccomp\<close>: \<open>seccomp.rs\<close>, with a reference reading of the lists (\<open>decision\<close>) the filter is proved equal to.
  \<^item> \<open>Store\<close>: \<open>store.rs\<close>. \<open>Layers\<close>: a layer under its final name is whole. \<open>Fetch\<close>: the download, \<open>pull.rs\<close>.
    \<open>Store_Integrity\<close>: the invariant of the store (\<open>store_ok\<close>) through a download. \<open>Image_Gc\<close>, \<open>Runtime_Gc\<close>, \<open>Clean\<close>:
    \<open>clean.rs\<close>, its two collections, the orphaned records, and all of it together.
  \<^item> \<open>Apps\<close>: finding and loading definitions (\<open>config.rs\<close>); \<open>reading\<close> says what an effect that only reads
    returns, and \<open>load_exact\<close> refines \<open>stated\<close> and \<open>acceptable\<close>. \<open>Sync\<close>: \<open>climate sync\<close>, over a record for the git library.
    \<open>Show\<close>: \<open>show.rs\<close>, and the document it prints as data, which is read back.
  \<^item> \<open>Session\<close>: \<open>run\<close> of \<open>runtime.rs\<close> with its guards, and the bridge of \<open>forward.rs\<close> a run starts. \<open>Signals\<close>: the
    handlers and statics. \<open>Overlay\<close>: the stub layer and the mount. \<open>Streams\<close>: the copy loops, the
    terminal's size, the TUN device as a stream, and the start of the app under the filter.
  \<^item> \<open>Localnet\<close>: \<open>localnet.rs\<close>; the locale \<open>lan_guard\<close> states what the relays rely on of the egress decision and
    is interpreted on \<open>egress\<close>. \<open>Loopback\<close>: the rest of \<open>forward.rs\<close>: the hook, the helper and its protocol, the scan of
    \<open>/proc/net\<close>, the mirrors and the loop.
  \<^item> \<open>App_Run\<close>: \<open>AppConfig::run\<close>, \<open>build.rs\<close> and the rest of \<open>pull.rs\<close>, composed of the above. \<open>Build\<close>: records through a
    build. \<open>Pulled\<close>: from a download to the run after it. \<open>Confined\<close>: where a download and a clean write, by the locale
    \<open>store_apart\<close>, which extends \<open>protected\<close> by the operations of the store. \<open>Cli\<close>: \<open>main.rs\<close>, all commands on one state.
    \<open>Dist\<close>: the release builds of \<open>xtask\<close>.

  \<^bold>\<open>What is shown.\<close> The store survives failures (downloads, unpacking, collections, builds, a whole clean), a pulled
  image runs without a registry, and nothing is written outside the store and the directories of runs by a
  download or a clean. A run undoes what it did, in order, and forwards signals. The container
  gets no more capabilities, namespaces, system calls and host directories than its definition says. The
  relay connects only to hosts directly on an interface, and the helper acts only inside
  the container. Definitions, limits, mounts, routes and socket tables are read exactly, what \<open>show\<close> prints
  is read back, and an override wins. Where the code does not do what it means to, the theorem states what it does:
  a torn manifest, an interrupted collection or sync, shares and mount points through \<open>..\<close>, a link over the
  binary, and a helper started by a binary of another name.

  \<^bold>\<open>Parameters.\<close> Libraries are parameters: the registry, the JSON, TOML and archive readers, git, youki and its
  spec builders, seacomb, fuse-overlayfs, \<open>cargo\<close>, and \<open>argp\<close>. What a theorem relies on of them is a named hypothesis
  (\<open>registry_ok\<close>, \<open>archives_ordered\<close>, \<open>seacomb_laws\<close>, \<open>local_calls\<close>, \<open>spares\<close>, \<open>reads_document\<close>), and its
  witness shows it on a concrete instance.

  \<^bold>\<open>Bounds.\<close> Following links takes 41 steps of fuel, one more than the kernel allows. \<open>remove_tree\<close>
  takes the deepest path of the file system plus one, which \<open>remove_tree_total\<close> shows to be enough. Every
  other loop is structural: over the entries of a directory, the layers of a manifest, or the events, packets
  and turns a loop receives. Machine integers are words of their width, or \<open>int\<close> with the range checks of the source.

  \<^bold>\<open>Not modelled.\<close>
  \<^item> In the file system, \<open>..\<close> and links in the middle of a path are not resolved, and a write through a link in the last
    place is refused; the theorems about \<open>..\<close> are about the paths the code forms.
  \<^item> Layers are downloaded one after the other, where the code has several downloads in flight; progress bars are left out.
  \<^item> Threads of a connection or a terminal run one after the other, and closing an accepted connection is not a call
    of its own. Timing is in the turns of the loops only.
  \<^item> The TCP/IP stack behind the TUN device, tokio, the parsing and help of \<open>argp\<close>, and the set-up of the log.
  \<^item> The wording of libraries' errors, and permissions a copy keeps.
\<close>

end
